(* ===== verification/Prelude.thy ===== *)
theory Prelude
  imports Main "HOL-Library.Word" "HOL-Library.Signed_Division" "HOL-Library.Log_Nat"
begin

text \<open>
  The shared base of the development: the named collections the component proofs feed to
  the simplifier, the machine types the C++ code uses, the reading of signed 64-bit
  arithmetic, and the traversal combinators that stand for the nested
  \<open>for (auto& block : func.blocks) for (auto& inst : block->instructions)\<close> loops of the
  passes, each with the rules the components apply.
\<close>

unbundle bit_operations_syntax

named_theorems hir_defs \<open>unfolding equations of the accessor functions of the IR\<close>
named_theorems range_defs \<open>unfolding equations of the numeric range analysis\<close>
named_theorems box_defs \<open>unfolding equations of the NaN-box encoding\<close>

section \<open>Machine integers\<close>

type_synonym u8 = "8 word"
type_synonym u16 = "16 word"
type_synonym u32 = "32 word"
type_synonym i32 = "32 word"
type_synonym u64 = "64 word"
type_synonym i64 = "64 word"

text \<open>
  Signed overflow is undefined in C++. The words here wrap around, which is what the host
  compilers of the project emit; the predicates below say when the C++ operation itself
  is defined.
\<close>

definition fits_i64 :: "int \<Rightarrow> bool" where
  "fits_i64 i \<longleftrightarrow> - (2 ^ 63) \<le> i \<and> i < 2 ^ 63"

definition fits_i32 :: "int \<Rightarrow> bool" where
  "fits_i32 i \<longleftrightarrow> - (2 ^ 31) \<le> i \<and> i < 2 ^ 31"

lemma sint_64_bounds: "- (2 ^ 63) \<le> sint (a :: i64)" "sint (a :: i64) < 2 ^ 63"
  using sint_ge [of a] sint_lt [of a] by simp_all

lemma fits_i64_sint [simp, intro]: "fits_i64 (sint (a :: i64))"
  by (simp add: fits_i64_def sint_64_bounds [simplified])

lemma sint_of_int_64: "fits_i64 i \<Longrightarrow> sint (word_of_int i :: i64) = i"
  by (simp add: fits_i64_def sint_sbintrunc' signed_take_bit_int_eq_self)

lemma sint_of_int_32: "fits_i32 i \<Longrightarrow> sint (word_of_int i :: i32) = i"
  by (simp add: fits_i32_def sint_sbintrunc' signed_take_bit_int_eq_self)

lemma sint_add_64:
  assumes "fits_i64 (sint a + sint b)"
  shows "sint (a + b :: i64) = sint a + sint b"
proof -
  have "a + b = word_of_int (sint a + sint b)" by simp
  then show ?thesis using sint_of_int_64 [OF assms] by (simp only:)
qed

lemma sint_sub_64:
  assumes "fits_i64 (sint a - sint b)"
  shows "sint (a - b :: i64) = sint a - sint b"
proof -
  have "a - b = word_of_int (sint a - sint b)" by simp
  then show ?thesis using sint_of_int_64 [OF assms] by (simp only:)
qed

lemma sint_mult_64:
  assumes "fits_i64 (sint a * sint b)"
  shows "sint (a * b :: i64) = sint a * sint b"
proof -
  have "a * b = word_of_int (sint a * sint b)" by simp
  then show ?thesis using sint_of_int_64 [OF assms] by (simp only:)
qed

lemma sint_neg_64:
  assumes "fits_i64 (- sint a)"
  shows "sint (- a :: i64) = - sint a"
proof -
  have "- a = word_of_int (- sint a)" by simp
  then show ?thesis using sint_of_int_64 [OF assms] by (simp only:)
qed

lemma sint_eq_iff: "sint (a :: 'a::len word) = sint b \<longleftrightarrow> a = b"
  by (auto intro: signed_word_eqI)

text \<open>Truncation to 32 bits and sign extension back: ECMAScript's ToInt32 on an i64.\<close>

definition trunc32 :: "i64 \<Rightarrow> i32" where
  "trunc32 a = ucast a"

definition sext64 :: "i32 \<Rightarrow> i64" where
  "sext64 a = scast a"

definition zext64 :: "u32 \<Rightarrow> i64" where
  "zext64 a = ucast a"

lemma sint_sext64: "sint (sext64 w) = sint w"
  by (simp add: sext64_def sint_up_scast is_up)

lemma sint_zext64: "sint (zext64 w) = uint w"
proof -
  have u: "uint (zext64 w) = uint w" by (simp add: zext64_def uint_up_ucast is_up)
  have lo: "- (2 ^ 63) \<le> uint w" by (rule order.trans [OF _ uint_ge_0]) simp
  have hi: "uint w < 2 ^ 63" using uint_bounded [of w] by simp
  show ?thesis using signed_take_bit_int_eq_self [OF lo hi] u by (simp add: sint_uint)
qed

lemma trunc32_of_int: "trunc32 a = word_of_int (sint a)"
  by (rule bit_word_eqI) (simp add: trunc32_def bit_simps)

text \<open>ECMA-262 section 7.1.6 and 7.1.7: the conversions to 32-bit integers.\<close>

definition ToInt32 :: "int \<Rightarrow> int" where
  "ToInt32 i = (i + 2 ^ 31) mod 2 ^ 32 - 2 ^ 31"

definition ToUint32 :: "int \<Rightarrow> int" where
  "ToUint32 i = i mod 2 ^ 32"

lemma ToInt32_bits: "ToInt32 i = signed_take_bit 31 i"
  by (simp add: ToInt32_def signed_take_bit_eq_take_bit_shift take_bit_eq_mod)

lemma sint_word32: "sint (word_of_int i :: i32) = ToInt32 i"
  by (simp add: ToInt32_bits sint_sbintrunc')

lemma uint_trunc32: "uint (trunc32 a) = ToUint32 (sint a)"
  unfolding trunc32_of_int uint_word_of_int ToUint32_def by simp

lemma shift_amount: "unat (b AND 31) = nat (ToUint32 (sint b) mod 32)" for b :: i64
proof -
  have m: "(31 :: i64) = mask 5" by (simp add: mask_eq_decr_exp)
  have "b = word_of_int (sint b)" by simp
  then have "uint b = uint (word_of_int (sint b) :: i64)" by (simp only:)
  then have "uint b = sint b mod 2 ^ 64" by (simp only: uint_word_of_int) simp
  then have "uint b mod 32 = sint b mod 32" by (simp add: mod_mod_cancel)
  moreover have "unat (b AND 31) = nat (uint b mod 32)"
    unfolding m take_bit_eq_mask [symmetric] unsigned_take_bit_eq
    by (simp add: take_bit_eq_mod nat_mod_distrib)
  ultimately show ?thesis by (simp add: ToUint32_def mod_mod_cancel)
qed

section \<open>Traversals with a state\<close>

fun walk :: "('s \<Rightarrow> 'a \<Rightarrow> 's \<times> 'a) \<Rightarrow> 's \<Rightarrow> 'a list \<Rightarrow> 's \<times> 'a list" where
  "walk f s [] = (s, [])"
| "walk f s (x # xs) =
     (let (s1, y) = f s x; (s2, ys) = walk f s1 xs in (s2, y # ys))"

lemma length_walk [simp]: "length (snd (walk f s xs)) = length xs"
proof (induction xs arbitrary: s)
  case (Cons x xs)
  then show ?case by (cases "f s x"; cases "walk f (fst (f s x)) xs") (simp, metis snd_conv)
qed simp

text \<open>A relation kept by every step relates the lists elementwise.\<close>

lemma walk_rel:
  assumes step: "\<And>s x. I s \<Longrightarrow> x \<in> set xs \<Longrightarrow> I (fst (f s x)) \<and> R x (snd (f s x))"
    and "I s"
  shows "I (fst (walk f s xs)) \<and> list_all2 R xs (snd (walk f s xs))"
  using assms
proof (induction xs arbitrary: s)
  case Nil
  then show ?case by simp
next
  case (Cons x xs)
  obtain s1 y where fx: "f s x = (s1, y)" by force
  have "I s1" "R x y" using Cons.prems(1) [of s x] Cons.prems(2) fx by auto
  with Cons.IH [of s1] Cons.prems(1) fx show ?case
    by (auto split: prod.splits simp: Let_def)
qed

lemma walk_inv:
  assumes "\<And>s x. I s \<Longrightarrow> x \<in> set xs \<Longrightarrow> I (fst (f s x))" and "I s"
  shows "I (fst (walk f s xs))"
  using walk_rel [of I xs f "\<lambda>_ _. True" s] assms by simp

lemma walk_unchanged:
  assumes "\<And>x. x \<in> set xs \<Longrightarrow> f s x = (s, x)"
  shows "walk f s xs = (s, xs)"
  using assms by (induction xs) auto

text \<open>A state with a flag \<open>c\<close> that a step raises when it writes: a traversal that ends with the
  flag down has written nothing.\<close>

lemma walk_flag:
  assumes "\<And>s x. \<not> c (fst (f s x)) \<Longrightarrow> snd (f s x) = x \<and> \<not> c s \<and> q (fst (f s x)) = q s"
    and "\<not> c (fst (walk f s xs))"
  shows "snd (walk f s xs) = xs \<and> \<not> c s \<and> q (fst (walk f s xs)) = q s"
  using assms(2)
proof (induction xs arbitrary: s)
  case (Cons x xs)
  obtain s1 y where fx: "f s x = (s1, y)" by force
  obtain s2 ys where w: "walk f s1 xs = (s2, ys)" by force
  have "ys = xs \<and> \<not> c s1 \<and> q s2 = q s1" using Cons.IH [of s1] Cons.prems fx w by simp
  then show ?case using assms(1) [of s x] fx w by simp
qed simp

section \<open>Arithmetic\<close>

lemma mod_once: "k \<le> n \<Longrightarrow> n < 2 * k \<Longrightarrow> n mod k = n - (k :: nat)"
  by (simp add: le_mod_geq)

lemma div_once: "k \<le> n \<Longrightarrow> n < 2 * k \<Longrightarrow> n div k = (1 :: nat)"
  by (simp add: div_nat_eqI)

lemma div_eq_range_iff:
  assumes "0 < k"
  shows "n div k = c \<longleftrightarrow> c * k \<le> n \<and> n < c * k + (k :: nat)"
proof
  assume c: "n div k = c"
  have "c * k + n mod k = n" using c by (metis div_mult_mod_eq)
  moreover have "n mod k < k" using assms by simp
  ultimately show "c * k \<le> n \<and> n < c * k + k" by linarith
next
  assume "c * k \<le> n \<and> n < c * k + k"
  then show "n div k = c" by (intro div_nat_eqI) (simp_all add: mult.commute)
qed

section \<open>Lists and options\<close>

lemma find_Some_set: "find P xs = Some x \<Longrightarrow> x \<in> set xs \<and> P x"
  by (metis find_Some_iff nth_mem)

lemma find_None_set: "find P xs = None \<longleftrightarrow> (\<forall>x\<in>set xs. \<not> P x)"
  by (metis find_None_iff)

end
