(* ===== verification/Float64.thy ===== *)
theory Float64
  imports Prelude
begin

text \<open>
  The \<open>double\<close> of the compiler and of the compiled programs: an IEEE 754 binary64 value is
  its bit pattern, and every operation is computed exactly on integers and rounded once,
  to nearest with ties to even. A finite value is an integer number of units of
  \<open>2 ^ -1074\<close>, the smallest subnormal. The payload of a NaN result is not specified by C++
  or LLVM; the model returns the canonical quiet NaN.
\<close>

section \<open>Bit patterns\<close>

datatype f64 = F64 (f64_bits: "64 word")

definition inf_mag :: nat where
  "inf_mag = 2047 * 2 ^ 52"

definition f64_neg_sign :: "f64 \<Rightarrow> bool" where
  "f64_neg_sign x \<longleftrightarrow> 2 ^ 63 \<le> unat (f64_bits x)"

definition f64_mag :: "f64 \<Rightarrow> nat" where
  "f64_mag x = unat (f64_bits x) mod 2 ^ 63"

definition mk_f64 :: "bool \<Rightarrow> nat \<Rightarrow> f64" where
  "mk_f64 s m = F64 (word_of_nat (m + (if s then 2 ^ 63 else 0)))"

definition f64_isnan :: "f64 \<Rightarrow> bool" where
  "f64_isnan x \<longleftrightarrow> inf_mag < f64_mag x"

definition f64_isinf :: "f64 \<Rightarrow> bool" where
  "f64_isinf x \<longleftrightarrow> f64_mag x = inf_mag"

definition f64_isfinite :: "f64 \<Rightarrow> bool" where
  "f64_isfinite x \<longleftrightarrow> f64_mag x < inf_mag"

definition quiet_nan :: f64 where
  "quiet_nan = F64 0x7FF8000000000000"

definition f64_zero :: f64 where
  "f64_zero = F64 0"

definition f64_one :: f64 where
  "f64_one = F64 0x3FF0000000000000"

section \<open>Values and rounding\<close>

definition mag_units :: "nat \<Rightarrow> nat" where
  "mag_units m = (if m < 2 ^ 52 then m else (2 ^ 52 + m mod 2 ^ 52) * 2 ^ (m div 2 ^ 52 - 1))"

definition f64_units :: "f64 \<Rightarrow> int" where
  "f64_units x = (if f64_neg_sign x then - int (mag_units (f64_mag x)) else int (mag_units (f64_mag x)))"

definition unit_one :: nat where
  "unit_one = 2 ^ 1074"

text \<open>
  \<open>round_mag n d\<close> is the magnitude (exponent and fraction field) nearest to \<open>n / d\<close> units:
  \<open>s\<close> low bits of the integer part do not fit the 53-bit significand. The sum
  \<open>s * 2 ^ 52 + q\<close> carries into the exponent field when rounding reaches \<open>2 ^ 53\<close>.
\<close>

definition round_mag :: "nat \<Rightarrow> nat \<Rightarrow> nat" where
  "round_mag n d =
     (let s = floorlog 2 (n div d) - 53;
          dd = d * 2 ^ s;
          q = n div dd;
          r = n mod dd;
          q' = (if dd < 2 * r \<or> dd = 2 * r \<and> odd q then q + 1 else q)
      in min (s * 2 ^ 52 + q') inf_mag)"

section \<open>Operations\<close>

definition f64_neg :: "f64 \<Rightarrow> f64" where
  "f64_neg x = mk_f64 (\<not> f64_neg_sign x) (f64_mag x)"

definition f64_add :: "f64 \<Rightarrow> f64 \<Rightarrow> f64" where
  "f64_add x y =
     (if f64_isnan x \<or> f64_isnan y then quiet_nan
      else if f64_isinf x then (if f64_isinf y \<and> f64_neg_sign x \<noteq> f64_neg_sign y then quiet_nan else x)
      else if f64_isinf y then y
      else let k = f64_units x + f64_units y
           in if k = 0 then mk_f64 (f64_neg_sign x \<and> f64_neg_sign y) 0
              else mk_f64 (k < 0) (round_mag (nat \<bar>k\<bar>) 1))"

definition f64_sub :: "f64 \<Rightarrow> f64 \<Rightarrow> f64" where
  "f64_sub x y = f64_add x (f64_neg y)"

definition f64_mul :: "f64 \<Rightarrow> f64 \<Rightarrow> f64" where
  "f64_mul x y =
     (let s = (f64_neg_sign x \<noteq> f64_neg_sign y)
      in if f64_isnan x \<or> f64_isnan y then quiet_nan
         else if f64_isinf x \<or> f64_isinf y
           then (if f64_mag x = 0 \<or> f64_mag y = 0 then quiet_nan else mk_f64 s inf_mag)
         else mk_f64 s (round_mag (nat \<bar>f64_units x\<bar> * nat \<bar>f64_units y\<bar>) unit_one))"

definition f64_div :: "f64 \<Rightarrow> f64 \<Rightarrow> f64" where
  "f64_div x y =
     (let s = (f64_neg_sign x \<noteq> f64_neg_sign y)
      in if f64_isnan x \<or> f64_isnan y then quiet_nan
         else if f64_isinf x then (if f64_isinf y then quiet_nan else mk_f64 s inf_mag)
         else if f64_isinf y then mk_f64 s 0
         else if f64_mag y = 0 then (if f64_mag x = 0 then quiet_nan else mk_f64 s inf_mag)
         else mk_f64 s (round_mag (nat \<bar>f64_units x\<bar> * unit_one) (nat \<bar>f64_units y\<bar>)))"

definition f64_fmod :: "f64 \<Rightarrow> f64 \<Rightarrow> f64" where
  "f64_fmod x y =
     (if f64_isnan x \<or> f64_isnan y \<or> f64_isinf x \<or> f64_mag y = 0 then quiet_nan
      else if f64_isinf y then x
      else mk_f64 (f64_neg_sign x) (round_mag (nat \<bar>f64_units x\<bar> mod nat \<bar>f64_units y\<bar>) 1))"

definition f64_key :: "f64 \<Rightarrow> int" where
  "f64_key x = (if f64_neg_sign x then - int (f64_mag x) else int (f64_mag x))"

definition f64_eq :: "f64 \<Rightarrow> f64 \<Rightarrow> bool" where
  "f64_eq x y \<longleftrightarrow> \<not> f64_isnan x \<and> \<not> f64_isnan y \<and> f64_key x = f64_key y"

definition f64_lt :: "f64 \<Rightarrow> f64 \<Rightarrow> bool" where
  "f64_lt x y \<longleftrightarrow> \<not> f64_isnan x \<and> \<not> f64_isnan y \<and> f64_key x < f64_key y"

definition f64_le :: "f64 \<Rightarrow> f64 \<Rightarrow> bool" where
  "f64_le x y \<longleftrightarrow> \<not> f64_isnan x \<and> \<not> f64_isnan y \<and> f64_key x \<le> f64_key y"

text \<open>Conversion from an integer, and the truncating conversion to a 64-bit integer. Out of
  range the C++ cast is undefined; the model returns the x86-64 result of \<open>cvttsd2si\<close>.\<close>

definition f64_of_int :: "int \<Rightarrow> f64" where
  "f64_of_int i = mk_f64 (i < 0) (round_mag (nat \<bar>i\<bar> * unit_one) 1)"

definition f64_trunc :: "f64 \<Rightarrow> int" where
  "f64_trunc x = (if f64_neg_sign x then - int (mag_units (f64_mag x) div unit_one)
                  else int (mag_units (f64_mag x) div unit_one))"

definition f64_to_i64 :: "f64 \<Rightarrow> i64" where
  "f64_to_i64 x = (if f64_isfinite x \<and> fits_i64 (f64_trunc x) then word_of_int (f64_trunc x)
                   else 0x8000000000000000)"

definition f64_is_integral :: "f64 \<Rightarrow> bool" where
  "f64_is_integral x \<longleftrightarrow> f64_isfinite x \<and> unit_one dvd mag_units (f64_mag x)"

definition f64_floor :: "f64 \<Rightarrow> f64" where
  "f64_floor x =
     (if \<not> f64_isfinite x \<or> f64_is_integral x then x
      else f64_of_int (f64_units x div int unit_one))"

section \<open>Packing and unpacking\<close>

lemma f64_mag_bound: "f64_mag x < 2 ^ 63"
  by (simp add: f64_mag_def)

lemmas f64_mag_bound_num [simp] = f64_mag_bound [simplified]

lemma unat_mk_f64:
  assumes "m < 2 ^ 63"
  shows "unat (f64_bits (mk_f64 s m)) = m + (if s then 2 ^ 63 else 0)"
proof -
  have "m + (if s then 2 ^ 63 else 0) < 2 ^ 64" using assms by simp
  then show ?thesis by (simp only: mk_f64_def f64.sel unat_of_nat) simp
qed

lemma f64_mag_mk [simp]: "m < 2 ^ 63 \<Longrightarrow> f64_mag (mk_f64 s m) = m"
  by (simp add: f64_mag_def unat_mk_f64)

lemma f64_neg_sign_mk [simp]: "m < 2 ^ 63 \<Longrightarrow> f64_neg_sign (mk_f64 s m) = s"
  by (simp add: f64_neg_sign_def unat_mk_f64)

lemma sign_mag_split:
  assumes "n < 2 ^ 64"
  shows "n mod 2 ^ 63 + (if 2 ^ 63 \<le> n then 2 ^ 63 else 0) = (n :: nat)"
proof (cases "2 ^ 63 \<le> n")
  case True
  then have "n mod 2 ^ 63 = n - 2 ^ 63" using assms by (intro mod_once) simp_all
  with True show ?thesis by simp
qed simp

lemma mk_f64_sign_mag [simp]: "mk_f64 (f64_neg_sign x) (f64_mag x) = x"
proof -
  have b: "unat (f64_bits x) < 2 ^ 64" using unsigned_less [of "f64_bits x"] by simp
  have eq: "f64_mag x + (if f64_neg_sign x then 2 ^ 63 else 0) = unat (f64_bits x)"
    using sign_mag_split [OF b] by (simp only: f64_mag_def f64_neg_sign_def)
  show ?thesis unfolding mk_f64_def eq of_nat_unat ucast_id by (rule f64.collapse)
qed

lemma f64_eqI: "f64_neg_sign x = f64_neg_sign y \<Longrightarrow> f64_mag x = f64_mag y \<Longrightarrow> x = y"
  by (subst mk_f64_sign_mag [of x, symmetric], subst mk_f64_sign_mag [of y, symmetric]) (simp only:)

lemma inf_mag_lt: "inf_mag < 2 ^ 63"
  by (simp add: inf_mag_def)

lemma round_mag_le: "round_mag n d \<le> inf_mag"
  by (simp add: round_mag_def Let_def)

lemma round_mag_lt [simp]: "round_mag n d < 2 ^ 63"
  using round_mag_le inf_mag_lt by (rule le_less_trans)

lemma f64_neg_neg [simp]: "f64_neg (f64_neg x) = x"
  by (simp add: f64_neg_def f64_mag_bound)

lemma f64_mag_neg [simp]: "f64_mag (f64_neg x) = f64_mag x"
  by (simp add: f64_neg_def f64_mag_bound)

lemma f64_neg_sign_neg [simp]: "f64_neg_sign (f64_neg x) = (\<not> f64_neg_sign x)"
  by (simp add: f64_neg_def f64_mag_bound)

lemma f64_units_neg: "f64_units (f64_neg x) = - f64_units x"
  by (simp add: f64_units_def)

section \<open>Rounding is exact on representable values\<close>

lemma floorlog_bound: "0 < n \<Longrightarrow> 2 ^ (floorlog 2 n - 1) \<le> n \<and> n < 2 ^ floorlog 2 n"
  using floorlog_bounds [of n 2] by simp

lemma round_mag_small:
  assumes "n < 2 ^ 53"
  shows "round_mag n 1 = n"
proof (cases "n = 0")
  case True
  then show ?thesis by (simp add: round_mag_def Let_def floorlog_def)
next
  case False
  then have "2 ^ (floorlog 2 n - 1) \<le> n" using floorlog_bound by blast
  then have "(2::nat) ^ (floorlog 2 n - 1) < 2 ^ 53" using assms by linarith
  then have "floorlog 2 n - 1 < 53" by (rule power_less_imp_less_exp [rotated]) simp
  then have "floorlog 2 n - 53 = 0" by linarith
  then show ?thesis using assms by (simp add: round_mag_def Let_def inf_mag_def)
qed

lemma mag_units_small: "n < 2 ^ 53 \<Longrightarrow> mag_units n = n"
  using mod_once [of "2 ^ 52" n] div_once [of "2 ^ 52" n] by (simp add: mag_units_def)

lemma mag_units_normal:
  assumes "2 ^ 52 \<le> q" and "q < 2 ^ 53"
  shows "mag_units (s * 2 ^ 52 + q) = q * 2 ^ s"
proof -
  obtain f where q: "q = 2 ^ 52 + f" using assms(1) by (rule less_eqE)
  then have f: "f < 2 ^ 52" using assms(2) by simp
  have "(s * 2 ^ 52 + q) div 2 ^ 52 = Suc s" "(s * 2 ^ 52 + q) mod 2 ^ 52 = f"
    using q f by simp_all
  then show ?thesis using q f by (simp add: mag_units_def)
qed

lemma round_mag_exact:
  assumes "m < 2 ^ 53" and "t \<le> 2045"
  shows "round_mag (m * 2 ^ t) 1 < inf_mag \<and> mag_units (round_mag (m * 2 ^ t) 1) = m * 2 ^ t"
proof (cases "m * 2 ^ t < 2 ^ 53")
  case True
  then show ?thesis
    by (simp only: round_mag_small mag_units_small) (simp add: inf_mag_def)
next
  case False
  define n where "n = m * 2 ^ t"
  define L where "L = floorlog 2 n"
  have n2: "2 ^ 53 \<le> n" using False by (simp add: n_def)
  then have n: "0 < n" by simp
  have lo: "2 ^ (L - 1) \<le> n" and hi: "n < 2 ^ L" using floorlog_bound [OF n] by (auto simp: L_def)
  have "(2::nat) ^ 53 < 2 ^ L" using n2 hi by linarith
  then have L: "53 < L" by (rule power_less_imp_less_exp [rotated]) simp
  have "n < 2 ^ (53 + t)" using assms(1) by (simp add: n_def power_add)
  with lo have "(2::nat) ^ (L - 1) < 2 ^ (53 + t)" by linarith
  then have "L - 1 < 53 + t" by (rule power_less_imp_less_exp [rotated]) simp
  then have st: "L - 53 \<le> t" by simp
  define s where "s = L - 53"
  define q where "q = n div 2 ^ s"
  have dv: "2 ^ s dvd n" unfolding n_def s_def using st by (intro dvd_mult le_imp_power_dvd)
  then have nq: "n = q * 2 ^ s" and r: "n mod 2 ^ s = 0" by (simp_all add: q_def)
  have Ls: "L = s + 53" using L by (simp add: s_def)
  have "q * 2 ^ s < 2 ^ 53 * 2 ^ s" using hi nq by (simp add: Ls power_add)
  then have q53: "q < 2 ^ 53" by simp
  have "L - 1 = 52 + s" using Ls by simp
  with lo have "2 ^ 52 * 2 ^ s \<le> q * 2 ^ s" using nq by (simp add: power_add)
  then have q52: "2 ^ 52 \<le> q" by simp
  have "s \<le> 2045" using st assms(2) by (simp add: s_def)
  then have b: "s * 2 ^ 52 + q < inf_mag" using q53 by (simp add: inf_mag_def)
  have "round_mag n 1 = s * 2 ^ 52 + q"
    using r b by (simp add: round_mag_def Let_def L_def [symmetric] s_def [symmetric] q_def [symmetric])
  then show ?thesis using b mag_units_normal [OF q52 q53] nq by (simp add: n_def)
qed

section \<open>Doubles that hold integers\<close>

definition f64_holds :: "f64 \<Rightarrow> int \<Rightarrow> bool" where
  "f64_holds x i \<longleftrightarrow> f64_isfinite x \<and> f64_units x = i * int unit_one"

lemma unit_one_pos: "0 < unit_one"
  by (simp add: unit_one_def)

lemma f64_isfinite_mk: "m < inf_mag \<Longrightarrow> f64_isfinite (mk_f64 s m)"
  using inf_mag_lt by (simp add: f64_isfinite_def)

lemma f64_units_mk:
  "m < inf_mag \<Longrightarrow> f64_units (mk_f64 s m) = (if s then - int (mag_units m) else int (mag_units m))"
  using inf_mag_lt by (simp add: f64_units_def)

lemma round_mag_int:
  assumes "m \<le> 2 ^ 53"
  shows "round_mag (m * unit_one) 1 < inf_mag \<and> mag_units (round_mag (m * unit_one) 1) = m * unit_one"
proof (cases "m = 2 ^ 53")
  case True
  have "m * unit_one = 1 * 2 ^ 1127"
    unfolding unit_one_def True power_add [symmetric] mult_1 by (simp only: arith_simps)
  then show ?thesis using round_mag_exact [of 1 1127] by (simp only: one_less_power)
next
  case False
  then have "m < 2 ^ 53" using assms by linarith
  then show ?thesis using round_mag_exact [of m 1074] by (simp only: unit_one_def)
qed

lemma round_mag_scale:
  assumes "0 < d"
  shows "round_mag (n * d) d = round_mag n 1"
proof -
  define s where "s = floorlog 2 n - 53"
  have 1: "n * d div d = n" using assms by simp
  have 2: "n * d div (d * 2 ^ s) = n div 2 ^ s"
    using assms by (simp add: mult.commute [of n d])
  have 3: "n * d mod (d * 2 ^ s) = d * (n mod 2 ^ s)"
    by (simp only: mult.commute [of n d] mult_mod_right)
  have l: "2 * (d * k) = d * (2 * k)" for k by simp
  have 4: "d * 2 ^ s < 2 * (d * (n mod 2 ^ s)) \<longleftrightarrow> 2 ^ s < 2 * (n mod 2 ^ s)"
    unfolding l using assms by (simp only: nat_mult_less_cancel1)
  have 5: "d * 2 ^ s = 2 * (d * (n mod 2 ^ s)) \<longleftrightarrow> 2 ^ s = 2 * (n mod 2 ^ s)"
    unfolding l using assms by (simp only: nat_mult_eq_cancel1)
  show ?thesis
    by (simp only: round_mag_def Let_def 1 s_def [symmetric] 2 3 4 5 div_by_1 mult_1)
qed

lemma f64_holds_mk:
  assumes "\<bar>i\<bar> \<le> 2 ^ 53" and "i \<noteq> 0 \<Longrightarrow> s = (i < 0)"
  shows "f64_holds (mk_f64 s (round_mag (nat \<bar>i\<bar> * unit_one) 1)) i"
proof -
  have "nat \<bar>i\<bar> \<le> 2 ^ 53" using assms(1) by simp
  note r = round_mag_int [OF this]
  have m: "int (nat \<bar>i\<bar> * unit_one) = \<bar>i\<bar> * int unit_one" by simp
  have "(if s then - (\<bar>i\<bar> * int unit_one) else \<bar>i\<bar> * int unit_one) = i * int unit_one"
    using assms(2) by (cases "i = 0") auto
  then show ?thesis
    using r by (simp only: f64_holds_def f64_isfinite_mk f64_units_mk m simp_thms)
qed

lemma f64_of_int_holds: "\<bar>i\<bar> \<le> 2 ^ 53 \<Longrightarrow> f64_holds (f64_of_int i) i"
  unfolding f64_of_int_def by (rule f64_holds_mk) simp_all

lemma finite_not_special: "f64_isfinite x \<Longrightarrow> \<not> f64_isnan x \<and> \<not> f64_isinf x"
  by (simp add: f64_isfinite_def f64_isnan_def f64_isinf_def)

lemma scaled_int:
  "i * int unit_one = 0 \<longleftrightarrow> i = 0" "i * int unit_one < 0 \<longleftrightarrow> i < 0"
  "nat \<bar>i * int unit_one\<bar> = nat \<bar>i\<bar> * unit_one"
  using unit_one_pos by (simp_all add: mult_less_0_iff abs_mult nat_mult_distrib)

lemma f64_add_holds:
  assumes "f64_holds x i" and "f64_holds y j" and "\<bar>i + j\<bar> \<le> 2 ^ 53"
  shows "f64_holds (f64_add x y) (i + j)"
proof -
  have k: "f64_units x + f64_units y = (i + j) * int unit_one"
    using assms by (simp add: f64_holds_def algebra_simps)
  have z: "f64_add x y =
      (if i + j = 0 then mk_f64 (f64_neg_sign x \<and> f64_neg_sign y) 0
       else mk_f64 (i + j < 0) (round_mag (nat \<bar>i + j\<bar> * unit_one) 1))"
    using assms(1,2) finite_not_special [of x] finite_not_special [of y]
    unfolding f64_add_def Let_def k scaled_int by (simp only: f64_holds_def simp_thms if_False)
  show ?thesis
  proof (cases "i + j = 0")
    case True
    then show ?thesis
      by (simp add: z f64_holds_def f64_isfinite_mk f64_units_mk inf_mag_def mag_units_def)
  next
    case False
    then show ?thesis using assms(3) by (simp only: z if_False) (rule f64_holds_mk, simp_all)
  qed
qed

lemma f64_neg_holds: "f64_holds x i \<Longrightarrow> f64_holds (f64_neg x) (- i)"
  by (simp add: f64_holds_def f64_units_neg f64_isfinite_def)

lemma f64_sub_holds:
  "f64_holds x i \<Longrightarrow> f64_holds y j \<Longrightarrow> \<bar>i - j\<bar> \<le> 2 ^ 53 \<Longrightarrow> f64_holds (f64_sub x y) (i - j)"
  using f64_add_holds [of x i "f64_neg y" "- j"] f64_neg_holds [of y j] by (simp add: f64_sub_def)

lemma f64_units_sign: "f64_units x \<noteq> 0 \<Longrightarrow> f64_neg_sign x = (f64_units x < 0)"
  by (auto simp: f64_units_def split: if_splits)

lemma f64_holds_sign: "f64_holds x i \<Longrightarrow> i \<noteq> 0 \<Longrightarrow> f64_neg_sign x = (i < 0)"
  using f64_units_sign [of x] unit_one_pos by (auto simp: f64_holds_def mult_less_0_iff)

lemma f64_mul_holds:
  assumes "f64_holds x i" and "f64_holds y j" and "\<bar>i * j\<bar> \<le> 2 ^ 53"
  shows "f64_holds (f64_mul x y) (i * j)"
proof -
  let ?s = "f64_neg_sign x \<noteq> f64_neg_sign y"
  have u: "nat \<bar>f64_units x\<bar> * nat \<bar>f64_units y\<bar> = nat \<bar>i * j\<bar> * unit_one * unit_one"
    using assms(1,2) by (simp add: f64_holds_def abs_mult nat_mult_distrib)
  have "f64_mul x y = mk_f64 ?s (round_mag (nat \<bar>i * j\<bar> * unit_one) 1)"
    using assms(1,2) finite_not_special [of x] finite_not_special [of y]
    unfolding f64_mul_def u round_mag_scale [OF unit_one_pos] by (simp add: f64_holds_def)
  moreover have "?s = (i * j < 0)" if "i * j \<noteq> 0"
    using that f64_holds_sign [OF assms(1)] f64_holds_sign [OF assms(2)]
    by (auto simp: mult_less_0_iff)
  ultimately show ?thesis using f64_holds_mk [OF assms(3), of ?s] by simp
qed

lemma f64_trunc_holds: "f64_holds x i \<Longrightarrow> f64_trunc x = i"
proof -
  assume h: "f64_holds x i"
  have u: "0 < int unit_one" using unit_one_pos by simp
  show "f64_trunc x = i"
  proof (cases "f64_neg_sign x")
    case True
    with h have "int (mag_units (f64_mag x)) = - i * int unit_one"
      by (simp add: f64_holds_def f64_units_def)
    then have "int (mag_units (f64_mag x)) div int unit_one = - i"
      using u by (simp only: nonzero_mult_div_cancel_right)
    with True show ?thesis by (simp add: f64_trunc_def zdiv_int)
  next
    case False
    with h have "int (mag_units (f64_mag x)) = i * int unit_one"
      by (simp add: f64_holds_def f64_units_def)
    then have "int (mag_units (f64_mag x)) div int unit_one = i"
      using u by (simp only: nonzero_mult_div_cancel_right)
    with False show ?thesis by (simp add: f64_trunc_def zdiv_int)
  qed
qed

lemma f64_to_i64_holds: "f64_holds x i \<Longrightarrow> fits_i64 i \<Longrightarrow> f64_to_i64 x = word_of_int i"
  using f64_trunc_holds [of x i] by (simp add: f64_to_i64_def f64_holds_def)

end
