(* ===== verification/HirOpcode.thy ===== *)
theory HirOpcode
  imports Main
begin

text \<open>
  The opcodes of the high-level IR, \<open>enum class HIROpcode\<close> of
  \<open>src/src/compiler/hir/HIR.h\<close>, in the source's order and with its groups. The enumerator's
  integer value gives the type its equality for code and its order.
\<close>

datatype (plugins only: size) hiropcode =
    ConstInt | ConstFloat | ConstBool | ConstString | ConstCString | ConstNull |
    ConstUndefined | ConstRawNullPtr
  | AddI64 | SubI64 | MulI64 | DivI64 | ModI64 | NegI64
  | AddF64 | SubF64 | MulF64 | DivF64 | ModF64 | NegF64
  | StringConcat
  | AddI64Checked | SubI64Checked | MulI64Checked
  | AndI64 | OrI64 | XorI64 | ShlI64 | ShrI64 | UShrI64 | NotI64
  | CmpEqI64 | CmpNeI64 | CmpLtI64 | CmpLeI64 | CmpGtI64 | CmpGeI64
  | CmpEqF64 | CmpNeF64 | CmpLtF64 | CmpLeF64 | CmpGtF64 | CmpGeF64
  | CmpEqPtr | CmpNePtr
  | LogicalAnd | LogicalOr | LogicalNot
  | CastI64ToF64 | CastF64ToI64 | CastBoolToI64
  | BoxInt | BoxFloat | BoxBool | BoxString | BoxObject
  | UnboxInt | UnboxFloat | UnboxBool | UnboxString | UnboxObject
  | TypeCheck | TypeOf | InstanceOf
  | GCAlloc | GCAllocArray | GCStore | GCLoad | Safepoint | SafepointPoll
  | Alloca | Load | Store | GetElementPtr
  | NewObject | NewObjectDynamic | GetPropStatic | GetPropDynamic | SetPropStatic |
    SetPropDynamic | HasProp | DeleteProp
  | NewArrayBoxed | NewArrayTyped | GetElem | SetElem | GetElemTyped | SetElemTyped |
    ArrayLength | ArrayPush
  | Call | CallMethod | CallVirtual | CallIndirect | CallValueWithThis | ConstructFromValue
  | LoadGlobal | StoreGlobal | LoadFunction
  | MakeClosure | LoadCapture | StoreCapture | LoadCaptureFromClosure | StoreCaptureFromClosure
  | Branch | CondBranch | Switch | Return | ReturnVoid | Unreachable
  | Phi
  | Select | Copy
  | SetupTry | Throw | GetException | ClearException | PopHandler
  | Await | AsyncReturn
  | Yield | YieldStar
  | Add | Sub | Mul | Div | Mod | Neg
  | CmpEq | CmpNe | CmpLt | CmpLe | CmpGt | CmpGe
  | GetProp | SetProp

primrec opcode_index :: "hiropcode \<Rightarrow> nat" where
  "opcode_index ConstInt = 0"
| "opcode_index ConstFloat = 1"
| "opcode_index ConstBool = 2"
| "opcode_index ConstString = 3"
| "opcode_index ConstCString = 4"
| "opcode_index ConstNull = 5"
| "opcode_index ConstUndefined = 6"
| "opcode_index ConstRawNullPtr = 7"
| "opcode_index AddI64 = 8"
| "opcode_index SubI64 = 9"
| "opcode_index MulI64 = 10"
| "opcode_index DivI64 = 11"
| "opcode_index ModI64 = 12"
| "opcode_index NegI64 = 13"
| "opcode_index AddF64 = 14"
| "opcode_index SubF64 = 15"
| "opcode_index MulF64 = 16"
| "opcode_index DivF64 = 17"
| "opcode_index ModF64 = 18"
| "opcode_index NegF64 = 19"
| "opcode_index StringConcat = 20"
| "opcode_index AddI64Checked = 21"
| "opcode_index SubI64Checked = 22"
| "opcode_index MulI64Checked = 23"
| "opcode_index AndI64 = 24"
| "opcode_index OrI64 = 25"
| "opcode_index XorI64 = 26"
| "opcode_index ShlI64 = 27"
| "opcode_index ShrI64 = 28"
| "opcode_index UShrI64 = 29"
| "opcode_index NotI64 = 30"
| "opcode_index CmpEqI64 = 31"
| "opcode_index CmpNeI64 = 32"
| "opcode_index CmpLtI64 = 33"
| "opcode_index CmpLeI64 = 34"
| "opcode_index CmpGtI64 = 35"
| "opcode_index CmpGeI64 = 36"
| "opcode_index CmpEqF64 = 37"
| "opcode_index CmpNeF64 = 38"
| "opcode_index CmpLtF64 = 39"
| "opcode_index CmpLeF64 = 40"
| "opcode_index CmpGtF64 = 41"
| "opcode_index CmpGeF64 = 42"
| "opcode_index CmpEqPtr = 43"
| "opcode_index CmpNePtr = 44"
| "opcode_index LogicalAnd = 45"
| "opcode_index LogicalOr = 46"
| "opcode_index LogicalNot = 47"
| "opcode_index CastI64ToF64 = 48"
| "opcode_index CastF64ToI64 = 49"
| "opcode_index CastBoolToI64 = 50"
| "opcode_index BoxInt = 51"
| "opcode_index BoxFloat = 52"
| "opcode_index BoxBool = 53"
| "opcode_index BoxString = 54"
| "opcode_index BoxObject = 55"
| "opcode_index UnboxInt = 56"
| "opcode_index UnboxFloat = 57"
| "opcode_index UnboxBool = 58"
| "opcode_index UnboxString = 59"
| "opcode_index UnboxObject = 60"
| "opcode_index TypeCheck = 61"
| "opcode_index TypeOf = 62"
| "opcode_index InstanceOf = 63"
| "opcode_index GCAlloc = 64"
| "opcode_index GCAllocArray = 65"
| "opcode_index GCStore = 66"
| "opcode_index GCLoad = 67"
| "opcode_index Safepoint = 68"
| "opcode_index SafepointPoll = 69"
| "opcode_index Alloca = 70"
| "opcode_index Load = 71"
| "opcode_index Store = 72"
| "opcode_index GetElementPtr = 73"
| "opcode_index NewObject = 74"
| "opcode_index NewObjectDynamic = 75"
| "opcode_index GetPropStatic = 76"
| "opcode_index GetPropDynamic = 77"
| "opcode_index SetPropStatic = 78"
| "opcode_index SetPropDynamic = 79"
| "opcode_index HasProp = 80"
| "opcode_index DeleteProp = 81"
| "opcode_index NewArrayBoxed = 82"
| "opcode_index NewArrayTyped = 83"
| "opcode_index GetElem = 84"
| "opcode_index SetElem = 85"
| "opcode_index GetElemTyped = 86"
| "opcode_index SetElemTyped = 87"
| "opcode_index ArrayLength = 88"
| "opcode_index ArrayPush = 89"
| "opcode_index Call = 90"
| "opcode_index CallMethod = 91"
| "opcode_index CallVirtual = 92"
| "opcode_index CallIndirect = 93"
| "opcode_index CallValueWithThis = 94"
| "opcode_index ConstructFromValue = 95"
| "opcode_index LoadGlobal = 96"
| "opcode_index StoreGlobal = 97"
| "opcode_index LoadFunction = 98"
| "opcode_index MakeClosure = 99"
| "opcode_index LoadCapture = 100"
| "opcode_index StoreCapture = 101"
| "opcode_index LoadCaptureFromClosure = 102"
| "opcode_index StoreCaptureFromClosure = 103"
| "opcode_index Branch = 104"
| "opcode_index CondBranch = 105"
| "opcode_index Switch = 106"
| "opcode_index Return = 107"
| "opcode_index ReturnVoid = 108"
| "opcode_index Unreachable = 109"
| "opcode_index Phi = 110"
| "opcode_index Select = 111"
| "opcode_index Copy = 112"
| "opcode_index SetupTry = 113"
| "opcode_index Throw = 114"
| "opcode_index GetException = 115"
| "opcode_index ClearException = 116"
| "opcode_index PopHandler = 117"
| "opcode_index Await = 118"
| "opcode_index AsyncReturn = 119"
| "opcode_index Yield = 120"
| "opcode_index YieldStar = 121"
| "opcode_index Add = 122"
| "opcode_index Sub = 123"
| "opcode_index Mul = 124"
| "opcode_index Div = 125"
| "opcode_index Mod = 126"
| "opcode_index Neg = 127"
| "opcode_index CmpEq = 128"
| "opcode_index CmpNe = 129"
| "opcode_index CmpLt = 130"
| "opcode_index CmpLe = 131"
| "opcode_index CmpGt = 132"
| "opcode_index CmpGe = 133"
| "opcode_index GetProp = 134"
| "opcode_index SetProp = 135"

definition all_opcodes :: "hiropcode list" where
  "all_opcodes = [
     ConstInt, ConstFloat, ConstBool, ConstString, ConstCString, ConstNull, ConstUndefined,
     ConstRawNullPtr, AddI64, SubI64, MulI64, DivI64, ModI64, NegI64, AddF64, SubF64,
     MulF64, DivF64, ModF64, NegF64, StringConcat, AddI64Checked, SubI64Checked,
     MulI64Checked, AndI64, OrI64, XorI64, ShlI64, ShrI64, UShrI64, NotI64, CmpEqI64,
     CmpNeI64, CmpLtI64, CmpLeI64, CmpGtI64, CmpGeI64, CmpEqF64, CmpNeF64, CmpLtF64,
     CmpLeF64, CmpGtF64, CmpGeF64, CmpEqPtr, CmpNePtr, LogicalAnd, LogicalOr, LogicalNot,
     CastI64ToF64, CastF64ToI64, CastBoolToI64, BoxInt, BoxFloat, BoxBool, BoxString,
     BoxObject, UnboxInt, UnboxFloat, UnboxBool, UnboxString, UnboxObject, TypeCheck,
     TypeOf, InstanceOf, GCAlloc, GCAllocArray, GCStore, GCLoad, Safepoint, SafepointPoll,
     Alloca, Load, Store, GetElementPtr, NewObject, NewObjectDynamic, GetPropStatic,
     GetPropDynamic, SetPropStatic, SetPropDynamic, HasProp, DeleteProp, NewArrayBoxed,
     NewArrayTyped, GetElem, SetElem, GetElemTyped, SetElemTyped, ArrayLength, ArrayPush,
     Call, CallMethod, CallVirtual, CallIndirect, CallValueWithThis, ConstructFromValue,
     LoadGlobal, StoreGlobal, LoadFunction, MakeClosure, LoadCapture, StoreCapture,
     LoadCaptureFromClosure, StoreCaptureFromClosure, Branch, CondBranch, Switch, Return,
     ReturnVoid, Unreachable, Phi, Select, Copy, SetupTry, Throw, GetException,
     ClearException, PopHandler, Await, AsyncReturn, Yield, YieldStar, Add, Sub, Mul, Div,
     Mod, Neg, CmpEq, CmpNe, CmpLt, CmpLe, CmpGt, CmpGe, GetProp, SetProp]"

lemma all_opcodes_index: "all_opcodes ! opcode_index a = a"
  by (cases a) (simp_all add: all_opcodes_def)

lemma opcode_index_inject: "opcode_index a = opcode_index b \<longleftrightarrow> a = b"
  by (metis all_opcodes_index)

instantiation hiropcode :: "{equal, linorder}"
begin

definition equal_hiropcode :: "hiropcode \<Rightarrow> hiropcode \<Rightarrow> bool" where
  "equal_hiropcode a b \<longleftrightarrow> opcode_index a = opcode_index b"

definition less_eq_hiropcode :: "hiropcode \<Rightarrow> hiropcode \<Rightarrow> bool" where
  "a \<le> b \<longleftrightarrow> opcode_index a \<le> opcode_index b"

definition less_hiropcode :: "hiropcode \<Rightarrow> hiropcode \<Rightarrow> bool" where
  "a < b \<longleftrightarrow> opcode_index a < opcode_index b"

instance
  by standard
    (auto simp: equal_hiropcode_def less_eq_hiropcode_def less_hiropcode_def opcode_index_inject)

end

end
