(* ===== verification/HIR.thy ===== *)
theory HIR
  imports Prelude Float64 HirOpcode
begin

text \<open>
  The data model of the high-level IR, \<open>src/src/compiler/hir/HIR.h\<close> and \<open>HIR.cpp\<close>, and
  the pass framework of \<open>passes/HIRPass.h\<close>, \<open>HIRPass.cpp\<close> and \<open>PassManager.cpp\<close>.

  Values are shared objects: operands, phi entries and results hold
  \<open>std::shared_ptr<HIRValue>\<close>, and a pass that writes \<open>result->type\<close> changes what every
  user of the value sees. They live in an explicit store, addressed by \<open>vref\<close>; a null
  pointer is \<open>None\<close>. Blocks and instructions are owned by one list each; their addresses
  \<open>baddr\<close> and \<open>iaddr\<close> stand for the raw pointers \<open>HIRBlock*\<close> and \<open>HIRInstruction*\<close>
  that passes keep in sets. When a pass replaces the instruction in a slot, the
  replacement takes over the address of the instruction it frees. \<open>HIRType\<close> objects are
  never written after construction, so a type is a value.
\<close>

section \<open>Types\<close>

datatype htkind = KVoid | KBool | KInt64 | KFloat64 | KString | KObject | KArray | KMap | KSet
  | KSymbol | KBigInt | KFunction | KClass | KAny | KPtr

datatype htype = HIRType
  (kind: htkind) (elementType: "htype option") (className: string) (shapeId: u32)
  (paramTypes: "htype list") (returnType: "htype option") (isTypedArray: bool)
  (numericBits: u8) (numericUnsigned: bool)

definition mkType :: "htkind \<Rightarrow> htype" where [hir_defs]:
  "mkType k = HIRType k None [] 0 [] None False 0 False"

definition makeArray :: "htype option \<Rightarrow> bool \<Rightarrow> htype" where [hir_defs]:
  "makeArray elem typed = HIRType KArray elem [] 0 [] None typed 0 False"

definition makeClass :: "string \<Rightarrow> u32 \<Rightarrow> htype" where [hir_defs]:
  "makeClass nm shape = HIRType KClass None nm shape [] None False 0 False"

lemma kind_mkType [simp]: "kind (mkType k) = k"
  by (simp add: hir_defs)

lemma kind_makeArray [simp]: "kind (makeArray e t) = KArray"
  by (simp add: hir_defs)

text \<open>\<open>HIRType::operator==\<close> (HIR.cpp).\<close>

fun htype_eq :: "htype \<Rightarrow> htype \<Rightarrow> bool"
and htypes_eq :: "htype list \<Rightarrow> htype list \<Rightarrow> bool" where
  "htype_eq (HIRType k e c s ps r ty nb nu) other =
     (if k \<noteq> kind other then False
      else if k = KArray then
        ty = isTypedArray other \<and>
        (case e of None \<Rightarrow> False
         | Some x \<Rightarrow> (case elementType other of None \<Rightarrow> False | Some y \<Rightarrow> htype_eq x y))
      else if k = KClass then c = className other \<and> s = shapeId other
      else if k = KFunction then
        (if length ps \<noteq> length (paramTypes other) then False
         else if \<not> htypes_eq ps (paramTypes other) then False
         else (case r of
                 Some x \<Rightarrow> (case returnType other of Some y \<Rightarrow> htype_eq x y | None \<Rightarrow> False)
               | None \<Rightarrow> returnType other = None))
      else True)"
| "htypes_eq [] ys = True"
| "htypes_eq (x # xs) ys =
     (case ys of [] \<Rightarrow> True | y # ys' \<Rightarrow> htype_eq x y \<and> htypes_eq xs ys')"

section \<open>Values and operands\<close>

type_synonym vref = nat
type_synonym bref = nat
type_synonym iref = nat

record hvalue =
  val_id :: u32
  val_type :: "htype option"
  val_name :: string
  isGlobal :: bool
  globalName :: string
  globalType :: "htype option"

definition mk_value :: "u32 \<Rightarrow> htype option \<Rightarrow> string \<Rightarrow> hvalue" where
  "mk_value i t n = \<lparr>val_id = i, val_type = t, val_name = n, isGlobal = False,
     globalName = [], globalType = None\<rparr>"

datatype hoperand =
    OVal "vref option"
  | OInt i64
  | OFloat f64
  | OBool bool
  | OStr string
  | OBlock "bref option"
  | OType "htype option"

section \<open>Instructions, blocks, functions, modules\<close>

record hinst =
  iaddr :: iref
  opcode :: hiropcode
  result :: "vref option"
  operands :: "hoperand list"
  phiIncoming :: "(vref option \<times> bref option) list"
  switchCases :: "(i64 \<times> bref option) list"
  switchDefault :: "bref option"
  tryCatchTargets :: "bref list"
  captureFromParent :: "string list"
  escapes :: bool
  scalarReplaceable :: bool
  objectShape :: "nat option"
  sourceFileIdx :: u16
  sourceLine :: u32
  sourceColumn :: u16

text \<open>The constructor \<open>HIRInstruction(op)\<close>: every other member has its default.\<close>

definition mk_inst :: "hiropcode \<Rightarrow> iref \<Rightarrow> hinst" where [hir_defs]:
  "mk_inst op a = \<lparr>iaddr = a, opcode = op, result = None, operands = [], phiIncoming = [],
     switchCases = [], switchDefault = None, tryCatchTargets = [], captureFromParent = [],
     escapes = True, scalarReplaceable = False, objectShape = None,
     sourceFileIdx = 0, sourceLine = 0, sourceColumn = 0\<rparr>"

lemma mk_inst_sel [simp]:
  "opcode (mk_inst op a) = op" "iaddr (mk_inst op a) = a" "result (mk_inst op a) = None"
  "operands (mk_inst op a) = []"
  by (simp_all add: mk_inst_def)

definition isTerminator :: "hinst \<Rightarrow> bool" where
  "isTerminator i \<longleftrightarrow> opcode i \<in> {Branch, CondBranch, Switch, Return, ReturnVoid, Unreachable, Throw}"

record hblock =
  baddr :: bref
  blk_label :: string
  blk_params :: "vref list"
  instructions :: "hinst list"
  predecessors :: "bref list"
  successors :: "bref list"

definition getTerminator :: "hblock \<Rightarrow> hinst option" where
  "getTerminator b =
     (if instructions b = [] then None
      else if isTerminator (last (instructions b)) then Some (last (instructions b)) else None)"

record hfunction =
  fn_name :: string
  mangledName :: string
  fn_returnType :: "htype option"
  fn_params :: "(string \<times> htype option) list"
  blocks :: "hblock list"
  captures :: "(string \<times> htype option) list"
  isAsync :: bool
  isGenerator :: bool
  nextValueId :: u32

record hstore =
  vals :: "vref \<Rightarrow> hvalue"
  next_vref :: vref
  next_iaddr :: iref

record hmodule =
  mod_name :: string
  mod_functions :: "hfunction list"
  mod_store :: hstore

definition getFunction :: "hmodule \<Rightarrow> string \<Rightarrow> hfunction option" where
  "getFunction m nm = find (\<lambda>fn. fn_name fn = nm) (mod_functions m)"

text \<open>\<open>HIRFunction::createValue\<close>: a fresh shared value with the function's next id.\<close>

definition createValue ::
  "hfunction \<Rightarrow> hstore \<Rightarrow> htype option \<Rightarrow> string \<Rightarrow> vref \<times> hfunction \<times> hstore" where
  "createValue fn st ty nm =
     (let r = next_vref st in
      (r, fn\<lparr>nextValueId := nextValueId fn + 1\<rparr>,
       st\<lparr>vals := (vals st)(r := mk_value (nextValueId fn) ty nm), next_vref := r + 1\<rparr>))"

text \<open>The write \<open>val->type = t\<close> through a shared pointer.\<close>

definition set_type :: "vref \<Rightarrow> htype option \<Rightarrow> hstore \<Rightarrow> hstore" where
  "set_type r t st = st\<lparr>vals := (vals st)(r := (vals st r)\<lparr>val_type := t\<rparr>)\<rparr>"

definition type_of :: "hstore \<Rightarrow> vref \<Rightarrow> htype option" where
  "type_of st r = val_type (vals st r)"

lemma type_of_set_type [simp]:
  "type_of (set_type r t st) r' = (if r' = r then t else type_of st r')"
  by (simp add: type_of_def set_type_def)

lemma set_type_id [simp]: "val_id (vals (set_type r t st) r') = val_id (vals st r')"
  by (simp add: set_type_def)

text \<open>\<open>std::get_if\<close> on an operand, with the null check every pass makes.\<close>

definition op_val :: "hoperand \<Rightarrow> vref option" where
  "op_val x = (case x of OVal v \<Rightarrow> v | _ \<Rightarrow> None)"

definition op_str :: "hoperand \<Rightarrow> string option" where
  "op_str x = (case x of OStr s \<Rightarrow> Some s | _ \<Rightarrow> None)"

definition op_type :: "hoperand \<Rightarrow> htype option" where
  "op_type x = (case x of OType t \<Rightarrow> t | _ \<Rightarrow> None)"

lemma op_simps [simp]:
  "op_val (OVal v) = v" "op_val (OInt n) = None" "op_val (OFloat d) = None"
  "op_val (OBool b) = None" "op_val (OStr s) = None" "op_val (OBlock k) = None"
  "op_val (OType t) = None"
  "op_str (OStr s) = Some s" "op_str (OVal v) = None" "op_str (OInt n) = None"
  "op_type (OType t) = t" "op_type (OVal v) = None"
  by (simp_all add: op_val_def op_str_def op_type_def)

text \<open>The values an instruction uses: operands, then phi entries.\<close>

definition inst_uses :: "hinst \<Rightarrow> vref list" where
  "inst_uses i = List.map_filter op_val (operands i) @ List.map_filter fst (phiIncoming i)"

definition fn_insts :: "hfunction \<Rightarrow> hinst list" where
  "fn_insts fn = concat (map instructions (blocks fn))"

section \<open>Walking over the instructions of a function\<close>

text \<open>\<open>for (auto& block : func.blocks) for (auto& inst : block->instructions)\<close>, with a state.\<close>

definition walk_block :: "('s \<Rightarrow> hinst \<Rightarrow> 's \<times> hinst) \<Rightarrow> 's \<Rightarrow> hblock \<Rightarrow> 's \<times> hblock" where
  "walk_block f s b = (let (s', is) = walk f s (instructions b) in (s', b\<lparr>instructions := is\<rparr>))"

definition walk_fn :: "('s \<Rightarrow> hinst \<Rightarrow> 's \<times> hinst) \<Rightarrow> 's \<Rightarrow> hfunction \<Rightarrow> 's \<times> hfunction" where
  "walk_fn f s fn = (let (s', bs) = walk (walk_block f) s (blocks fn) in (s', fn\<lparr>blocks := bs\<rparr>))"

text \<open>Two functions whose blocks agree but for their instructions, which are related.\<close>

definition block_rel :: "(hinst \<Rightarrow> hinst \<Rightarrow> bool) \<Rightarrow> hblock \<Rightarrow> hblock \<Rightarrow> bool" where
  "block_rel R b b' \<longleftrightarrow>
     list_all2 R (instructions b) (instructions b') \<and> b' = b\<lparr>instructions := instructions b'\<rparr>"

definition fn_rel :: "(hinst \<Rightarrow> hinst \<Rightarrow> bool) \<Rightarrow> hfunction \<Rightarrow> hfunction \<Rightarrow> bool" where
  "fn_rel R fn fn' \<longleftrightarrow> list_all2 (block_rel R) (blocks fn) (blocks fn') \<and> fn' = fn\<lparr>blocks := blocks fn'\<rparr>"

lemma walk_fn_rel:
  assumes step: "\<And>s x. I s \<Longrightarrow> x \<in> set (fn_insts fn) \<Longrightarrow> I (fst (f s x)) \<and> R x (snd (f s x))"
    and "I s"
  shows "I (fst (walk_fn f s fn)) \<and> fn_rel R fn (snd (walk_fn f s fn))"
proof -
  have blk: "I (fst (walk_block f s b)) \<and> block_rel R b (snd (walk_block f s b))"
    if "I s" "b \<in> set (blocks fn)" for s b
  proof -
    have "I (fst (walk f s (instructions b))) \<and>
        list_all2 R (instructions b) (snd (walk f s (instructions b)))"
      using that by (intro walk_rel step) (auto simp: fn_insts_def)
    then show ?thesis by (auto simp: walk_block_def block_rel_def split: prod.split)
  qed
  have "I (fst (walk (walk_block f) s (blocks fn))) \<and>
      list_all2 (block_rel R) (blocks fn) (snd (walk (walk_block f) s (blocks fn)))"
    using assms(2) by (intro walk_rel blk)
  then show ?thesis by (auto simp: walk_fn_def fn_rel_def split: prod.split)
qed

lemma walk_fn_flag:
  assumes step: "\<And>s x. \<not> c (fst (f s x)) \<Longrightarrow> snd (f s x) = x \<and> \<not> c s \<and> q (fst (f s x)) = q s"
    and "\<not> c (fst (walk_fn f s fn))"
  shows "snd (walk_fn f s fn) = fn \<and> \<not> c s \<and> q (fst (walk_fn f s fn)) = q s"
proof -
  have "snd (walk_block f s b) = b \<and> \<not> c s \<and> q (fst (walk_block f s b)) = q s"
    if "\<not> c (fst (walk_block f s b))" for s b
    using walk_flag [of c f q s "instructions b", OF step] that
    by (auto simp: walk_block_def split: prod.splits)
  from walk_flag [of c "walk_block f" q s "blocks fn", OF this] assms(2) show ?thesis
    by (auto simp: walk_fn_def split: prod.splits)
qed

lemma list_all2_concat:
  "list_all2 (\<lambda>x y. list_all2 R (f x) (f y)) xs ys \<Longrightarrow> list_all2 R (concat (map f xs)) (concat (map f ys))"
  by (induction rule: list_all2_induct) (auto intro: list_all2_appendI)

lemma fn_rel_insts: "fn_rel R fn fn' \<Longrightarrow> list_all2 R (fn_insts fn) (fn_insts fn')"
  unfolding fn_rel_def fn_insts_def
  by (intro list_all2_concat) (auto simp: block_rel_def elim!: list_all2_mono)

lemma fn_rel_mono: "fn_rel R fn fn' \<Longrightarrow> (\<And>x y. R x y \<Longrightarrow> S x y) \<Longrightarrow> fn_rel S fn fn'"
  unfolding fn_rel_def block_rel_def by (auto elim!: list_all2_mono)

lemma fn_rel_name: "fn_rel R fn fn' \<Longrightarrow> fn_name fn' = fn_name fn"
  unfolding fn_rel_def by (metis hfunction.select_convs(1) hfunction.surjective hfunction.update_convs(5))

lemma fn_rel_map_blocks:
  assumes "fn_rel R fn fn'" and "\<And>x y. R x y \<Longrightarrow> g x = g y"
  shows "map (\<lambda>b. map g (instructions b)) (blocks fn') = map (\<lambda>b. map g (instructions b)) (blocks fn)"
proof -
  have "list_all2 (\<lambda>b b'. map g (instructions b) = map g (instructions b')) (blocks fn) (blocks fn')"
    using assms unfolding fn_rel_def block_rel_def
    by (auto elim!: list_all2_mono simp: list_all2_conv_all_nth list_eq_iff_nth_eq)
  then show ?thesis by (auto simp: list_all2_conv_all_nth list_eq_iff_nth_eq)
qed

section \<open>Pass results and the pass manager\<close>

record pass_result =
  changed :: bool
  error :: string

definition unchanged :: pass_result where "unchanged = \<lparr>changed = False, error = []\<rparr>"
definition modified :: pass_result where "modified = \<lparr>changed = True, error = []\<rparr>"
definition failed :: "string \<Rightarrow> pass_result" where "failed msg = \<lparr>changed = False, error = msg\<rparr>"

definition success :: "pass_result \<Rightarrow> bool" where "success r \<longleftrightarrow> error r = []"

text \<open>\<open>operator|=\<close>: changed if either changed, the first error wins.\<close>

definition combine :: "pass_result \<Rightarrow> pass_result \<Rightarrow> pass_result" where
  "combine r other =
     \<lparr>changed = (changed r \<or> changed other),
      error = (if error r = [] \<and> error other \<noteq> [] then error other else error r)\<rparr>"

definition result_of :: "bool \<Rightarrow> pass_result" where
  "result_of c = (if c then modified else unchanged)"

lemma result_of_simps [simp]: "success (result_of c)" "changed (result_of c) = c"
  by (simp_all add: result_of_def success_def modified_def unchanged_def)

type_synonym module_pass = "hmodule \<Rightarrow> pass_result \<times> hmodule"
type_synonym function_pass = "hmodule \<Rightarrow> hfunction \<Rightarrow> hstore \<Rightarrow> pass_result \<times> hfunction \<times> hstore"

text \<open>\<open>HIRFunctionPass::run\<close>: \<open>pre\<close> holds the functions already processed.\<close>

fun run_functions ::
  "function_pass \<Rightarrow> hmodule \<Rightarrow> hfunction list \<Rightarrow> hfunction list \<Rightarrow> pass_result \<Rightarrow> pass_result \<times> hmodule" where
  "run_functions p m pre [] r = (r, m)"
| "run_functions p m pre (f # fs) r =
     (let (fr, f', st') = p m f (mod_store m);
          m' = m\<lparr>mod_functions := pre @ f' # fs, mod_store := st'\<rparr>
      in if \<not> success fr then (fr, m')
         else run_functions p m' (pre @ [f']) fs (combine r fr))"

definition run_function_pass :: "function_pass \<Rightarrow> module_pass" where
  "run_function_pass p m = run_functions p m [] (mod_functions m) unchanged"

text \<open>\<open>PassManager::run\<close>; debug printing and the after-pass callback only observe.\<close>

fun run_passes :: "module_pass list \<Rightarrow> hmodule \<Rightarrow> pass_result \<Rightarrow> pass_result \<times> hmodule" where
  "run_passes [] m r = (r, m)"
| "run_passes (p # ps) m r =
     (let (pr, m') = p m
      in if \<not> success pr then (pr, m') else run_passes ps m' (combine r pr))"

definition pass_manager_run :: "module_pass list \<Rightarrow> module_pass" where
  "pass_manager_run ps m = run_passes ps m unchanged"

section \<open>Properties of the pass framework and of type equality\<close>

lemma success_combine [simp]: "success (combine r s) \<longleftrightarrow> success r \<and> success s"
  by (auto simp: success_def combine_def)

lemma combine_unchanged [simp]: "combine unchanged r = r" "combine r unchanged = r" "success unchanged"
  by (simp_all add: combine_def unchanged_def success_def)

lemma combine_assoc: "combine (combine r s) t = combine r (combine s t)"
  by (auto simp: combine_def)

lemma run_passes_from:
  "success r \<Longrightarrow> run_passes ps m r =
     (let (q, m') = run_passes ps m unchanged in (if success q then combine r q else q, m'))"
proof (induction ps arbitrary: m r)
  case (Cons p ps)
  obtain pr m1 where p: "p m = (pr, m1)" by force
  show ?case
  proof (cases "success pr")
    case True
    then show ?thesis
      using Cons.IH [of "combine r pr" m1] Cons.IH [of pr m1] Cons.prems p
      by (auto simp: combine_assoc split: prod.splits)
  qed (simp add: p)
qed simp


text \<open>Types without an array of unknown element type.\<close>

fun elements_known :: "htype \<Rightarrow> bool" where
  "elements_known (HIRType k e c s ps r ty nb nu) \<longleftrightarrow>
     (if k = KArray then (case e of None \<Rightarrow> False | Some x \<Rightarrow> elements_known x)
      else if k = KFunction then
        (\<forall>p\<in>set ps. elements_known p) \<and> (case r of None \<Rightarrow> True | Some x \<Rightarrow> elements_known x)
      else True)"

lemma htypes_eq_list_all2:
  "length xs = length ys \<Longrightarrow> htypes_eq xs ys \<longleftrightarrow> list_all2 htype_eq xs ys"
  by (induction xs ys rule: list_induct2) simp_all

lemma htype_eq_refl: "htype_eq t t \<longleftrightarrow> elements_known t"
proof (induction t)
  case (HIRType k e c s ps r ty nb nu)
  have "htypes_eq ps ps \<longleftrightarrow> (\<forall>p\<in>set ps. elements_known p)"
    using HIRType.IH(2) by (auto simp: htypes_eq_list_all2 list_all2_conv_all_nth all_set_conv_all_nth)
  then show ?case using HIRType.IH(1,3) by (auto split: option.split)
qed

lemma htype_eq_unfold:
  "htype_eq a b \<longleftrightarrow> kind a = kind b \<and>
     (kind a = KArray \<longrightarrow> isTypedArray a = isTypedArray b \<and>
        (\<exists>x y. elementType a = Some x \<and> elementType b = Some y \<and> htype_eq x y)) \<and>
     (kind a = KClass \<longrightarrow> className a = className b \<and> shapeId a = shapeId b) \<and>
     (kind a = KFunction \<longrightarrow> list_all2 htype_eq (paramTypes a) (paramTypes b) \<and>
        rel_option htype_eq (returnType a) (returnType b))"
  by (cases a) (auto simp: htypes_eq_list_all2 option_rel_Some1 option_rel_Some2
      dest: list_all2_lengthD split: option.splits)

lemma htype_parts_size:
  "elementType a = Some x \<Longrightarrow> size x < size a" "p \<in> set (paramTypes a) \<Longrightarrow> size p < size a"
  "returnType a = Some x \<Longrightarrow> size x < size a"
  by (cases a; auto dest: size_list_estimation' [where f = size, OF _ order.refl])+

lemmas htype_eqD = htype_eq_unfold [THEN iffD1]
lemmas htype_eqI = htype_eq_unfold [THEN iffD2]

lemma htype_eq_sym: "htype_eq a b \<Longrightarrow> htype_eq b a"
proof (induction a arbitrary: b rule: measure_induct_rule [where f = size])
  case (less a)
  have "list_all2 htype_eq (paramTypes b) (paramTypes a)"
    if "list_all2 htype_eq (paramTypes a) (paramTypes b)"
    using that less.IH htype_parts_size(2) by (auto simp: list_all2_conv_all_nth)
  moreover have "rel_option htype_eq (returnType b) (returnType a)"
    if "rel_option htype_eq (returnType a) (returnType b)"
    using that by (cases "returnType a"; cases "returnType b")
      (auto intro: less.IH [OF htype_parts_size(3)])
  moreover have "htype_eq y x" if "htype_eq x y" "elementType a = Some x" for x y
    using that less.IH htype_parts_size(1) by blast
  moreover note u = htype_eqD [OF less.prems]
  ultimately show ?case
  proof (intro htype_eqI conjI impI)
    assume "kind b = KArray"
    then obtain x y where "elementType a = Some x" "elementType b = Some y" "htype_eq x y"
      using u by metis
    then show "\<exists>x y. elementType b = Some x \<and> elementType a = Some y \<and> htype_eq x y"
      using less.IH htype_parts_size(1) by blast
  qed (use u in metis)+
qed

lemma htype_eq_trans: "htype_eq a b \<Longrightarrow> htype_eq b d \<Longrightarrow> htype_eq a d"
proof (induction a arbitrary: b d rule: measure_induct_rule [where f = size])
  case (less a)
  have "list_all2 htype_eq (paramTypes a) (paramTypes d)"
    if "list_all2 htype_eq (paramTypes a) (paramTypes b)" "list_all2 htype_eq (paramTypes b) (paramTypes d)"
    using that less.IH htype_parts_size(2) by (auto simp: list_all2_conv_all_nth)
  moreover have "rel_option htype_eq (returnType a) (returnType d)"
    if "rel_option htype_eq (returnType a) (returnType b)" "rel_option htype_eq (returnType b) (returnType d)"
    using that by (cases "returnType a"; cases "returnType b"; cases "returnType d")
      (auto intro: less.IH [OF htype_parts_size(3)])
  moreover have "htype_eq x z" if "htype_eq x y" "htype_eq y z" "elementType a = Some x" for x y z
    using that less.IH htype_parts_size(1) by blast
  moreover note u = htype_eqD [OF less.prems(1)] and v = htype_eqD [OF less.prems(2)]
  ultimately show ?case
  proof (intro htype_eqI conjI impI)
    assume k: "kind a = KArray"
    then obtain x y where "elementType a = Some x" "elementType b = Some y" "htype_eq x y"
      using u by metis
    moreover obtain z where "elementType d = Some z" "htype_eq y z"
      using k u v calculation by (metis option.inject)
    ultimately show "\<exists>x y. elementType a = Some x \<and> elementType d = Some y \<and> htype_eq x y"
      using less.IH htype_parts_size(1) by blast
  qed (use u v in metis)+
qed

text \<open>
  Type equality is symmetric and transitive, and a type equals itself exactly when no
  array in it has an unknown element type: \<open>Array\<close> without an element type differs from
  itself, so the equality is only a partial equivalence.
\<close>

theorem htype_eq_partial_equivalence:
  "(htype_eq a a \<longleftrightarrow> elements_known a) \<and> htype_eq a b = htype_eq b a \<and>
   \<not> (htype_eq a b \<and> htype_eq b d \<and> \<not> htype_eq a d) \<and>
   \<not> htype_eq (makeArray None False) (makeArray None False)"
  using htype_eq_refl htype_eq_sym htype_eq_trans [of a b d] by (auto simp: hir_defs)

end
