(* ===== verification/NanBox.thy ===== *)
theory NanBox
  imports Float64
begin

text \<open>
  The runtime's value representation, \<open>src/src/runtime/include/TsNanBox.h\<close>: every
  JavaScript value is one 64-bit word. Pointers are stored raw, doubles are biased by
  \<open>2 ^ 49\<close>, 32-bit integers carry the tag \<open>0xFFFE\<close>, and the constants and internal
  sentinels are small words. A \<open>void*\<close> is its 64-bit address.
\<close>

section \<open>Constants\<close>

definition NANBOX_DOUBLE_OFFSET :: u64 where [box_defs]: "NANBOX_DOUBLE_OFFSET = 0x0002000000000000"
definition NANBOX_INT32_TAG :: u64 where [box_defs]: "NANBOX_INT32_TAG = 0xFFFE000000000000"
definition NANBOX_NUMBER_MASK :: u64 where [box_defs]: "NANBOX_NUMBER_MASK = 0xFFFE000000000000"
definition NANBOX_UNDEFINED :: u64 where [box_defs]: "NANBOX_UNDEFINED = 0xA"
definition NANBOX_NULL :: u64 where [box_defs]: "NANBOX_NULL = 0x2"
definition NANBOX_TRUE :: u64 where [box_defs]: "NANBOX_TRUE = 0x7"
definition NANBOX_FALSE :: u64 where [box_defs]: "NANBOX_FALSE = 0x6"
definition NANBOX_HOLE :: u64 where [box_defs]: "NANBOX_HOLE = 0x8"
definition NANBOX_DELETED :: u64 where [box_defs]: "NANBOX_DELETED = 0x4"
definition NANBOX_TDZ :: u64 where [box_defs]: "NANBOX_TDZ = 0x9"

section \<open>Encoding\<close>

definition nanbox_double :: "f64 \<Rightarrow> u64" where
  "nanbox_double d =
     (let d' = (if f64_isnan d then quiet_nan else d)
      in f64_bits d' + NANBOX_DOUBLE_OFFSET)"

definition nanbox_int32 :: "i32 \<Rightarrow> u64" where
  "nanbox_int32 i = NANBOX_INT32_TAG OR ucast i"

definition nanbox_ptr :: "u64 \<Rightarrow> u64" where
  "nanbox_ptr p = p"

definition nanbox_bool :: "bool \<Rightarrow> u64" where
  "nanbox_bool b = (if b then NANBOX_TRUE else NANBOX_FALSE)"

section \<open>Type checks\<close>

definition nanbox_is_undefined :: "u64 \<Rightarrow> bool" where "nanbox_is_undefined v \<longleftrightarrow> v = NANBOX_UNDEFINED"
definition nanbox_is_null :: "u64 \<Rightarrow> bool" where "nanbox_is_null v \<longleftrightarrow> v = NANBOX_NULL"
definition nanbox_is_true :: "u64 \<Rightarrow> bool" where "nanbox_is_true v \<longleftrightarrow> v = NANBOX_TRUE"
definition nanbox_is_false :: "u64 \<Rightarrow> bool" where "nanbox_is_false v \<longleftrightarrow> v = NANBOX_FALSE"
definition nanbox_is_bool :: "u64 \<Rightarrow> bool" where
  "nanbox_is_bool v \<longleftrightarrow> v = NANBOX_TRUE \<or> v = NANBOX_FALSE"
definition nanbox_is_hole :: "u64 \<Rightarrow> bool" where "nanbox_is_hole v \<longleftrightarrow> v = NANBOX_HOLE"
definition nanbox_is_deleted :: "u64 \<Rightarrow> bool" where "nanbox_is_deleted v \<longleftrightarrow> v = NANBOX_DELETED"

definition nanbox_is_special :: "u64 \<Rightarrow> bool" where
  "nanbox_is_special v \<longleftrightarrow> v \<le> NANBOX_UNDEFINED"

definition nanbox_is_ptr :: "u64 \<Rightarrow> bool" where
  "nanbox_is_ptr v \<longleftrightarrow> v AND 0xFFFF000000000000 = 0 \<and> v > NANBOX_UNDEFINED"

definition nanbox_is_int32 :: "u64 \<Rightarrow> bool" where
  "nanbox_is_int32 v \<longleftrightarrow> v AND 0xFFFF000000000000 = NANBOX_INT32_TAG"

definition nanbox_is_number :: "u64 \<Rightarrow> bool" where
  "nanbox_is_number v \<longleftrightarrow> v AND NANBOX_NUMBER_MASK \<noteq> 0"

definition nanbox_is_double :: "u64 \<Rightarrow> bool" where
  "nanbox_is_double v \<longleftrightarrow> nanbox_is_number v \<and> \<not> nanbox_is_int32 v"

section \<open>Decoding\<close>

definition nanbox_to_double :: "u64 \<Rightarrow> f64" where
  "nanbox_to_double v = F64 (v - NANBOX_DOUBLE_OFFSET)"

definition nanbox_to_int32 :: "u64 \<Rightarrow> i32" where
  "nanbox_to_int32 v = ucast (v AND 0xFFFFFFFF)"

definition nanbox_to_ptr :: "u64 \<Rightarrow> u64" where
  "nanbox_to_ptr v = v"

definition nanbox_to_bool :: "u64 \<Rightarrow> bool" where
  "nanbox_to_bool v \<longleftrightarrow> v = NANBOX_TRUE"

definition nanbox_to_number :: "u64 \<Rightarrow> f64" where
  "nanbox_to_number v =
     (if nanbox_is_int32 v then f64_of_int (sint (nanbox_to_int32 v))
      else if nanbox_is_double v then nanbox_to_double v
      else if nanbox_is_bool v then (if nanbox_to_bool v then f64_one else f64_zero)
      else f64_zero)"

definition nanbox_to_int64 :: "u64 \<Rightarrow> i64" where
  "nanbox_to_int64 v =
     (if nanbox_is_int32 v then scast (nanbox_to_int32 v)
      else if nanbox_is_double v then f64_to_i64 (nanbox_to_double v)
      else if nanbox_is_bool v then (if nanbox_to_bool v then 1 else 0)
      else 0)"

section \<open>The kinds as ranges of words\<close>

text \<open>Each mask test is a range test on the value of the word.\<close>

lemma mask_top16: "v AND 0xFFFF000000000000 = push_bit 48 (drop_bit 48 (v :: u64))"
proof -
  have m: "(0xFFFF000000000000 :: u64) = push_bit 48 (mask 16)"
    by (simp add: mask_eq_exp_minus_1 push_bit_eq_mult)
  show ?thesis unfolding m by (rule bit_word_eqI) (auto simp: bit_simps)
qed

lemma mask_top15: "v AND 0xFFFE000000000000 = push_bit 49 (drop_bit 49 (v :: u64))"
proof -
  have m: "(0xFFFE000000000000 :: u64) = push_bit 49 (mask 15)"
    by (simp add: mask_eq_exp_minus_1 push_bit_eq_mult)
  show ?thesis unfolding m by (rule bit_word_eqI) (auto simp: bit_simps)
qed

lemma unat_high_bits:
  assumes "n \<le> 64"
  shows "unat (push_bit n (drop_bit n (v :: u64))) = unat v div 2 ^ n * 2 ^ n"
proof -
  have "unat v div 2 ^ n * 2 ^ n \<le> unat v" by simp
  also have "unat v < 2 ^ 64" using unsigned_less [of v, where ?'a = nat] by simp
  finally show ?thesis
    unfolding unsigned_push_bit_eq unat_drop_bit_eq
    by (simp add: take_bit_nat_def push_bit_eq_mult drop_bit_eq_div)
qed

lemma unat_nonneg_range: "unat (v :: u64) < 2 ^ 64"
  using unsigned_less [of v, where ?'a = nat] by simp

lemma is_special_iff: "nanbox_is_special v \<longleftrightarrow> unat v \<le> 10"
  by (simp add: nanbox_is_special_def box_defs word_le_nat_alt)

lemma is_ptr_iff: "nanbox_is_ptr v \<longleftrightarrow> 10 < unat v \<and> unat v < 2 ^ 48"
proof -
  have "v AND 0xFFFF000000000000 = 0 \<longleftrightarrow> unat v div 2 ^ 48 * 2 ^ 48 = 0"
    unfolding mask_top16 word_unat_eq_iff by (subst unat_high_bits) simp_all
  also have "\<dots> \<longleftrightarrow> unat v < 2 ^ 48" by (simp add: div_eq_range_iff)
  finally show ?thesis by (auto simp: nanbox_is_ptr_def box_defs word_less_nat_alt)
qed

lemma is_int32_iff: "nanbox_is_int32 v \<longleftrightarrow> 0xFFFE000000000000 \<le> unat v \<and> unat v < 0xFFFF000000000000"
proof -
  have "nanbox_is_int32 v \<longleftrightarrow> unat v div 2 ^ 48 * 2 ^ 48 = 0xFFFE * 2 ^ 48"
    unfolding nanbox_is_int32_def mask_top16 word_unat_eq_iff box_defs
    by (subst unat_high_bits) simp_all
  also have "\<dots> \<longleftrightarrow> unat v div 2 ^ 48 = 0xFFFE" by (simp only: mult_cancel2) simp
  also have "\<dots> \<longleftrightarrow> 0xFFFE * 2 ^ 48 \<le> unat v \<and> unat v < 0xFFFE * 2 ^ 48 + 2 ^ 48"
    by (rule div_eq_range_iff) simp
  finally show ?thesis by simp
qed

lemma is_number_iff: "nanbox_is_number v \<longleftrightarrow> 2 ^ 49 \<le> unat v"
proof -
  have "v AND NANBOX_NUMBER_MASK = 0 \<longleftrightarrow> unat v div 2 ^ 49 * 2 ^ 49 = 0"
    unfolding mask_top15 word_unat_eq_iff box_defs by (subst unat_high_bits) simp_all
  also have "\<dots> \<longleftrightarrow> unat v < 2 ^ 49" by (simp add: div_eq_range_iff)
  finally show ?thesis by (auto simp: nanbox_is_number_def)
qed

lemmas kind_iffs = is_special_iff is_ptr_iff is_int32_iff is_number_iff nanbox_is_double_def

lemma int32_tag_mask: "NANBOX_INT32_TAG = push_bit 49 (mask 15)"
  by (simp add: box_defs mask_eq_exp_minus_1 push_bit_eq_mult)

lemma unat_int32_box: "unat (nanbox_int32 i) = 0xFFFE000000000000 + unat i"
proof -
  have "NANBOX_INT32_TAG AND ucast i = (0 :: u64)"
    unfolding int32_tag_mask by (rule bit_word_eqI) (auto simp: bit_simps dest: bit_imp_le_length)
  then have "nanbox_int32 i = NANBOX_INT32_TAG + ucast i"
    using word_plus_and_or [of NANBOX_INT32_TAG "ucast i"] by (simp add: nanbox_int32_def)
  moreover have "unat i < 2 ^ 32" using unsigned_less [of i, where ?'a = nat] by simp
  moreover from this have "unat (ucast i :: u64) = unat i"
    by (simp add: unsigned_ucast_eq take_bit_nat_eq_self_iff)
  ultimately show ?thesis by (simp add: box_defs unat_word_ariths)
qed

lemma ucast_low32: "nanbox_to_int32 v = ucast v"
proof -
  have m: "(0xFFFFFFFF :: u64) = mask 32" by (simp add: mask_eq_exp_minus_1)
  show ?thesis
    unfolding nanbox_to_int32_def m
    by (rule bit_word_eqI) (auto simp: bit_simps)
qed

lemma ucast_int32_box: "ucast (nanbox_int32 i) = i"
  unfolding nanbox_int32_def int32_tag_mask
  by (rule bit_word_eqI) (auto simp: bit_simps)

text \<open>Non-NaN doubles and the canonical NaN stay below the int32 tag after biasing.\<close>

lemma unat_bits_bound:
  assumes "\<not> f64_isnan d"
  shows "unat (f64_bits d) \<le> 2 ^ 63 + inf_mag"
proof -
  have b: "unat (f64_bits d) < 2 ^ 64" by (rule unat_nonneg_range)
  from sign_mag_split [OF b] assms show ?thesis
    by (simp add: f64_isnan_def f64_mag_def split: if_splits)
qed

lemma unat_double_box:
  "unat (nanbox_double d) = unat (f64_bits (if f64_isnan d then quiet_nan else d)) + 2 ^ 49"
proof -
  let ?d = "if f64_isnan d then quiet_nan else d"
  have "unat (f64_bits ?d) \<le> 2 ^ 63 + inf_mag"
    using unat_bits_bound by (simp add: quiet_nan_def inf_mag_def)
  then show ?thesis
    by (simp add: nanbox_double_def Let_def box_defs unat_word_ariths inf_mag_def split del: if_split)
qed

lemma double_box_decodes: "nanbox_to_double (nanbox_double d) = (if f64_isnan d then quiet_nan else d)"
  by (simp add: nanbox_to_double_def nanbox_double_def Let_def)

lemma double_box_kinds:
  "nanbox_is_double (nanbox_double d)" "nanbox_is_number (nanbox_double d)"
  "\<not> nanbox_is_int32 (nanbox_double d)" "\<not> nanbox_is_ptr (nanbox_double d)"
  "\<not> nanbox_is_special (nanbox_double d)"
proof -
  let ?d = "if f64_isnan d then quiet_nan else d"
  have b: "unat (f64_bits ?d) \<le> 2 ^ 63 + inf_mag"
    using unat_bits_bound by (simp add: quiet_nan_def inf_mag_def)
  then show "nanbox_is_double (nanbox_double d)" "nanbox_is_number (nanbox_double d)"
    "\<not> nanbox_is_int32 (nanbox_double d)" "\<not> nanbox_is_ptr (nanbox_double d)"
    "\<not> nanbox_is_special (nanbox_double d)"
    using unat_double_box [of d] by (simp_all add: kind_iffs inf_mag_def)
qed

lemma int32_box_decodes: "nanbox_to_int32 (nanbox_int32 i) = i"
  by (simp add: ucast_low32 ucast_int32_box)

lemma int32_box_kinds:
  "nanbox_is_int32 (nanbox_int32 i)" "\<not> nanbox_is_double (nanbox_int32 i)"
  "\<not> nanbox_is_ptr (nanbox_int32 i)" "\<not> nanbox_is_special (nanbox_int32 i)"
proof -
  have b: "unat i < 2 ^ 32" using unsigned_less [of i, where ?'a = nat] by simp
  then show "nanbox_is_int32 (nanbox_int32 i)" "\<not> nanbox_is_double (nanbox_int32 i)"
    "\<not> nanbox_is_ptr (nanbox_int32 i)" "\<not> nanbox_is_special (nanbox_int32 i)"
    by (simp_all add: kind_iffs unat_int32_box)
qed

lemma int32_box_to_int64: "nanbox_to_int64 (nanbox_int32 i) = sext64 i"
  by (simp add: nanbox_to_int64_def int32_box_kinds int32_box_decodes sext64_def)

lemma double_box_to_int64: "\<not> f64_isnan d \<Longrightarrow> nanbox_to_int64 (nanbox_double d) = f64_to_i64 d"
  by (simp add: nanbox_to_int64_def double_box_kinds double_box_decodes)

section \<open>Properties\<close>

text \<open>C16. A double survives boxing: every double decodes to itself, a NaN to the canonical NaN,
  and its box is classified as a double and as nothing else.\<close>

theorem nanbox_double_roundtrip:
  "nanbox_to_double (nanbox_double d) = (if f64_isnan d then quiet_nan else d)
   \<and> nanbox_is_double (nanbox_double d) \<and> nanbox_is_number (nanbox_double d)
   \<and> \<not> nanbox_is_int32 (nanbox_double d)
   \<and> \<not> nanbox_is_ptr (nanbox_double d) \<and> \<not> nanbox_is_special (nanbox_double d)"
  using double_box_decodes double_box_kinds by simp

text \<open>A 32-bit integer survives boxing, is classified as an int32 and as nothing else, and
  reads back as the same number through both numeric decoders.\<close>

theorem nanbox_int32_roundtrip:
  "nanbox_to_int32 (nanbox_int32 i) = i \<and> nanbox_is_int32 (nanbox_int32 i)
   \<and> \<not> nanbox_is_double (nanbox_int32 i) \<and> \<not> nanbox_is_ptr (nanbox_int32 i)
   \<and> \<not> nanbox_is_special (nanbox_int32 i)
   \<and> sint (nanbox_to_int64 (nanbox_int32 i)) = sint i
   \<and> f64_holds (nanbox_to_number (nanbox_int32 i)) (sint i)"
proof -
  have "\<bar>sint i\<bar> \<le> 2 ^ 31" using sint_ge [of i] sint_lt [of i] by simp
  then have "f64_holds (f64_of_int (sint i)) (sint i)" by (intro f64_of_int_holds) simp
  then show ?thesis
    by (simp add: int32_box_decodes int32_box_kinds int32_box_to_int64 sint_sext64 nanbox_to_number_def)
qed

text \<open>The kinds partition the words: a word is a constant or sentinel, a heap pointer, an
  int32 or a double, in exactly one way, except the words whose top 16 bits are 1, which are
  of no kind.\<close>

theorem nanbox_kinds_partition:
  "length (filter id [nanbox_is_special v, nanbox_is_ptr v, nanbox_is_int32 v, nanbox_is_double v])
   = (if unat v div 2 ^ 48 = 1 then 0 else 1)"
proof -
  have "unat v div 2 ^ 48 = 1 \<longleftrightarrow> 1 * 2 ^ 48 \<le> unat v \<and> unat v < 1 * 2 ^ 48 + 2 ^ 48"
    by (rule div_eq_range_iff) simp
  then show ?thesis by (simp add: kind_iffs)
qed

text \<open>The constants and sentinels are pairwise different special words, never pointers or
  numbers; a heap address above them and below \<open>2 ^ 48\<close> is classified as a pointer only.\<close>

theorem nanbox_constants_and_pointers:
  "distinct [NANBOX_UNDEFINED, NANBOX_NULL, NANBOX_TRUE, NANBOX_FALSE, NANBOX_HOLE, NANBOX_DELETED, NANBOX_TDZ]
   \<and> (\<forall>v \<in> {NANBOX_UNDEFINED, NANBOX_NULL, NANBOX_TRUE, NANBOX_FALSE, NANBOX_HOLE, NANBOX_DELETED, NANBOX_TDZ}.
        nanbox_is_special v \<and> \<not> nanbox_is_ptr v \<and> \<not> nanbox_is_number v)
   \<and> (10 < p \<and> p < 2 ^ 48 \<longrightarrow>
        nanbox_to_ptr (nanbox_ptr p) = p \<and> nanbox_is_ptr (nanbox_ptr p)
        \<and> \<not> nanbox_is_special (nanbox_ptr p) \<and> \<not> nanbox_is_number (nanbox_ptr p))"
  by (simp add: nanbox_ptr_def nanbox_to_ptr_def kind_iffs box_defs word_less_nat_alt)

theorem nanbox_constants_and_pointers_witness:
  "nanbox_is_ptr (nanbox_ptr 0x7F0012345678) \<and> nanbox_is_special NANBOX_TDZ"
  using nanbox_constants_and_pointers [of "0x7F0012345678"] by simp

end
