(* ===== verification/Lowering.thy ===== *)
theory Lowering
  imports HIR NanBox
begin

text \<open>
  What the arithmetic, comparison, boolean and conversion opcodes compute at run time: the
  LLVM instructions that \<open>src/src/compiler/hir/HIRToLLVM_Instructions.cpp\<close> emits for them,
  read as functions on LLVM values. The lowering chooses the instructions by the LLVM type
  of each operand, so a run-time value carries its type. A pointer is a NaN-boxed word.
  \<open>None\<close> is an LLVM instruction whose result is undefined (a division that traps) or that
  the LLVM verifier refuses. Runtime helpers that read the heap are fields of \<open>runtime\<close>; \<open>rt_string\<close> is the text of
  the string object a pointer refers to.
\<close>

datatype rtval = RI64 i64 | RF64 f64 | RI1 bool | RPtr u64

record runtime =
  rt_get_double :: "u64 \<Rightarrow> f64"
  rt_get_bool :: "u64 \<Rightarrow> bool"
  rt_strict_eq_bool :: "u64 \<Rightarrow> u64 \<Rightarrow> bool"
  rt_value_to_bool :: "u64 \<Rightarrow> bool"
  rt_string :: "u64 \<Rightarrow> string option"

section \<open>Conversions\<close>

text \<open>\<open>sitofp\<close> reads an \<open>i1\<close> as a signed one-bit integer: true is \<open>-1\<close>.\<close>

definition sitofp :: "rtval \<Rightarrow> f64 option" where
  "sitofp v = (case v of RI64 a \<Rightarrow> Some (f64_of_int (sint a))
     | RI1 b \<Rightarrow> Some (f64_of_int (if b then -1 else 0)) | _ \<Rightarrow> None)"

text \<open>\<open>ts_value_get_int\<close> (Primitives.cpp).\<close>

definition ts_value_get_int :: "u64 \<Rightarrow> i64" where
  "ts_value_get_int v = (if v = 0 then 0 else nanbox_to_int64 v)"

definition bool_i64 :: "bool \<Rightarrow> i64" where
  "bool_i64 b = (if b then 1 else 0)"

definition coerceToI64Operand :: "rtval \<Rightarrow> i64" where
  "coerceToI64Operand val =
     (case val of RPtr p \<Rightarrow> ts_value_get_int p
      | RI1 b \<Rightarrow> bool_i64 b
      | RF64 d \<Rightarrow> f64_to_i64 d
      | RI64 a \<Rightarrow> a)"

definition ensureI64ForBitwise :: "rtval \<Rightarrow> i64" where
  "ensureI64ForBitwise val =
     (case val of RF64 d \<Rightarrow> f64_to_i64 d
      | RPtr p \<Rightarrow> ts_value_get_int p
      | RI1 b \<Rightarrow> bool_i64 b
      | RI64 a \<Rightarrow> a)"

text \<open>The operand conversion that opens every F64 lowering: pointers are unboxed by the
  runtime, integers of any width go through \<open>sitofp\<close>.\<close>

definition coerce_f64 :: "runtime \<Rightarrow> rtval \<Rightarrow> f64" where
  "coerce_f64 rt val =
     (case val of RPtr p \<Rightarrow> rt_get_double rt p
      | RI64 a \<Rightarrow> f64_of_int (sint a)
      | RI1 b \<Rightarrow> f64_of_int (if b then -1 else 0)
      | RF64 d \<Rightarrow> d)"

section \<open>Constants\<close>

definition lowerConstInt :: "i64 \<Rightarrow> rtval" where "lowerConstInt n = RI64 n"
definition lowerConstFloat :: "f64 \<Rightarrow> rtval" where "lowerConstFloat d = RF64 d"
definition lowerConstBool :: "bool \<Rightarrow> rtval" where "lowerConstBool b = RI1 b"
definition lowerConstNull :: rtval where "lowerConstNull = RPtr 0x2"
definition lowerConstUndefined :: rtval where "lowerConstUndefined = RPtr 0xA"

section \<open>Integer arithmetic\<close>

definition lowerAddI64 :: "rtval \<Rightarrow> rtval \<Rightarrow> rtval option" where
  "lowerAddI64 l r = Some (RI64 (coerceToI64Operand l + coerceToI64Operand r))"

definition lowerSubI64 :: "rtval \<Rightarrow> rtval \<Rightarrow> rtval option" where
  "lowerSubI64 l r = Some (RI64 (coerceToI64Operand l - coerceToI64Operand r))"

definition lowerMulI64 :: "rtval \<Rightarrow> rtval \<Rightarrow> rtval option" where
  "lowerMulI64 l r = Some (RI64 (coerceToI64Operand l * coerceToI64Operand r))"

text \<open>\<open>sdiv\<close> and \<open>srem\<close> are undefined for a zero divisor and for an overflowing quotient.\<close>

definition sdiv_undefined :: "i64 \<Rightarrow> i64 \<Rightarrow> bool" where
  "sdiv_undefined a b \<longleftrightarrow> b = 0 \<or> (sint a = - (2 ^ 63) \<and> sint b = -1)"

definition lowerDivI64 :: "rtval \<Rightarrow> rtval \<Rightarrow> rtval option" where
  "lowerDivI64 l r =
     (let a = coerceToI64Operand l; b = coerceToI64Operand r
      in if sdiv_undefined a b then None else Some (RI64 (word_of_int (sint a sdiv sint b))))"

definition lowerModI64 :: "rtval \<Rightarrow> rtval \<Rightarrow> rtval option" where
  "lowerModI64 l r =
     (let a = coerceToI64Operand l; b = coerceToI64Operand r
      in if sdiv_undefined a b then None else Some (RI64 (word_of_int (sint a smod sint b))))"

definition lowerNegI64 :: "rtval \<Rightarrow> rtval option" where
  "lowerNegI64 v = Some (RI64 (- coerceToI64Operand v))"

text \<open>The checked forms use the \<open>with.overflow\<close> intrinsics on two i64 operands; the flag
  selects the overflow block.\<close>

definition lowerAddI64Checked :: "i64 \<Rightarrow> i64 \<Rightarrow> i64 \<times> bool" where
  "lowerAddI64Checked a b = (a + b, \<not> fits_i64 (sint a + sint b))"

definition lowerSubI64Checked :: "i64 \<Rightarrow> i64 \<Rightarrow> i64 \<times> bool" where
  "lowerSubI64Checked a b = (a - b, \<not> fits_i64 (sint a - sint b))"

definition lowerMulI64Checked :: "i64 \<Rightarrow> i64 \<Rightarrow> i64 \<times> bool" where
  "lowerMulI64Checked a b = (a * b, \<not> fits_i64 (sint a * sint b))"

section \<open>Float arithmetic\<close>

definition lowerAddF64 :: "runtime \<Rightarrow> rtval \<Rightarrow> rtval \<Rightarrow> rtval option" where
  "lowerAddF64 rt l r = Some (RF64 (f64_add (coerce_f64 rt l) (coerce_f64 rt r)))"

definition lowerSubF64 :: "runtime \<Rightarrow> rtval \<Rightarrow> rtval \<Rightarrow> rtval option" where
  "lowerSubF64 rt l r = Some (RF64 (f64_sub (coerce_f64 rt l) (coerce_f64 rt r)))"

definition lowerMulF64 :: "runtime \<Rightarrow> rtval \<Rightarrow> rtval \<Rightarrow> rtval option" where
  "lowerMulF64 rt l r = Some (RF64 (f64_mul (coerce_f64 rt l) (coerce_f64 rt r)))"

definition lowerDivF64 :: "runtime \<Rightarrow> rtval \<Rightarrow> rtval \<Rightarrow> rtval option" where
  "lowerDivF64 rt l r = Some (RF64 (f64_div (coerce_f64 rt l) (coerce_f64 rt r)))"

definition lowerModF64 :: "runtime \<Rightarrow> rtval \<Rightarrow> rtval \<Rightarrow> rtval option" where
  "lowerModF64 rt l r = Some (RF64 (f64_fmod (coerce_f64 rt l) (coerce_f64 rt r)))"

definition lowerNegF64 :: "runtime \<Rightarrow> rtval \<Rightarrow> rtval option" where
  "lowerNegF64 rt v = Some (RF64 (f64_neg (coerce_f64 rt v)))"

section \<open>Bitwise operations\<close>

text \<open>All of them truncate to 32 bits, operate, extend and convert to a double.\<close>

definition i32_to_f64 :: "i32 \<Rightarrow> rtval option" where
  "i32_to_f64 w = Some (RF64 (f64_of_int (sint (sext64 w))))"

definition lowerAndI64 :: "rtval \<Rightarrow> rtval \<Rightarrow> rtval option" where
  "lowerAndI64 l r = i32_to_f64 (trunc32 (ensureI64ForBitwise l) AND trunc32 (ensureI64ForBitwise r))"

definition lowerOrI64 :: "rtval \<Rightarrow> rtval \<Rightarrow> rtval option" where
  "lowerOrI64 l r = i32_to_f64 (trunc32 (ensureI64ForBitwise l) OR trunc32 (ensureI64ForBitwise r))"

definition lowerXorI64 :: "rtval \<Rightarrow> rtval \<Rightarrow> rtval option" where
  "lowerXorI64 l r = i32_to_f64 (trunc32 (ensureI64ForBitwise l) XOR trunc32 (ensureI64ForBitwise r))"

definition shamt :: "i32 \<Rightarrow> nat" where
  "shamt w = unat (w AND 0x1F)"

definition lowerShlI64 :: "rtval \<Rightarrow> rtval \<Rightarrow> rtval option" where
  "lowerShlI64 l r =
     i32_to_f64 (push_bit (shamt (trunc32 (ensureI64ForBitwise r))) (trunc32 (ensureI64ForBitwise l)))"

definition lowerShrI64 :: "rtval \<Rightarrow> rtval \<Rightarrow> rtval option" where
  "lowerShrI64 l r =
     i32_to_f64 (signed_drop_bit (shamt (trunc32 (ensureI64ForBitwise r))) (trunc32 (ensureI64ForBitwise l)))"

definition lowerUShrI64 :: "rtval \<Rightarrow> rtval \<Rightarrow> rtval option" where
  "lowerUShrI64 l r =
     (let w = drop_bit (shamt (trunc32 (ensureI64ForBitwise r))) (trunc32 (ensureI64ForBitwise l))
      in Some (RF64 (f64_of_int (uint (zext64 w)))))"

definition lowerNotI64 :: "rtval \<Rightarrow> rtval option" where
  "lowerNotI64 v = i32_to_f64 (NOT (trunc32 (ensureI64ForBitwise v)))"

section \<open>Integer comparisons\<close>

text \<open>The LLVM constant \<open>ptr null\<close> and the HIR type kinds that count as objects.\<close>

definition object_kind :: "htkind option \<Rightarrow> bool" where
  "object_kind k \<longleftrightarrow> k \<in> {Some KClass, Some KObject, Some KArray, Some KPtr}"

text \<open>Equality: \<open>lk\<close>, \<open>rk\<close> are the kinds of the operands' HIR types, \<open>lnull\<close>, \<open>rnull\<close> say
  whether the LLVM operand is the constant null pointer.\<close>

definition eq_i64_operands :: "runtime \<Rightarrow> rtval \<Rightarrow> rtval \<Rightarrow> rtval \<times> rtval" where
  "eq_i64_operands rt l r =
     (let is_bool = (\<lambda>v. case v of RI1 _ \<Rightarrow> True | _ \<Rightarrow> False);
          is_ptr = (\<lambda>v. case v of RPtr _ \<Rightarrow> True | _ \<Rightarrow> False);
          otherIsBool = (is_ptr l \<and> \<not> is_ptr r \<and> is_bool r) \<or> (is_ptr r \<and> \<not> is_ptr l \<and> is_bool l);
          unbox = (\<lambda>v. case v of RPtr p \<Rightarrow>
                     if otherIsBool then RI1 (rt_get_bool rt p) else RI64 (ts_value_get_int p)
                   | _ \<Rightarrow> v);
          l1 = unbox l; r1 = unbox r
      in case (l1, r1) of
           (RI64 _, RI1 b) \<Rightarrow> (l1, RI64 (bool_i64 b))
         | (RI1 b, RI64 _) \<Rightarrow> (RI64 (bool_i64 b), r1)
         | _ \<Rightarrow> (l1, r1))"

definition eq_lowered :: "rtval \<Rightarrow> rtval \<Rightarrow> bool option" where
  "eq_lowered l r =
     (case (l, r) of
        (RF64 x, RF64 y) \<Rightarrow> Some (f64_eq x y)
      | (RF64 x, RI64 b) \<Rightarrow> Some (f64_eq x (f64_of_int (sint b)))
      | (RI64 a, RF64 y) \<Rightarrow> Some (f64_eq (f64_of_int (sint a)) y)
      | (RI64 a, RI64 b) \<Rightarrow> Some (a = b)
      | (RI1 a, RI1 b) \<Rightarrow> Some (a = b)
      | _ \<Rightarrow> None)"

definition lowerCmpEqI64 ::
  "runtime \<Rightarrow> htkind option \<Rightarrow> htkind option \<Rightarrow> bool \<Rightarrow> bool \<Rightarrow> rtval \<Rightarrow> rtval \<Rightarrow> rtval option" where
  "lowerCmpEqI64 rt lk rk lnull rnull l r =
     (case (l, r) of
        (RPtr p, RPtr q) \<Rightarrow>
          (if lnull \<or> rnull then Some (RI1 (p = q))
           else if (object_kind lk \<or> object_kind rk) \<and> \<not> (lk = Some KString \<or> rk = Some KString)
             then Some (RI1 (p = q))
           else Some (RI1 (rt_strict_eq_bool rt p q)))
      | _ \<Rightarrow> (let (l', r') = eq_i64_operands rt l r in map_option RI1 (eq_lowered l' r')))"

definition lowerCmpNeI64 ::
  "runtime \<Rightarrow> htkind option \<Rightarrow> htkind option \<Rightarrow> bool \<Rightarrow> bool \<Rightarrow> rtval \<Rightarrow> rtval \<Rightarrow> rtval option" where
  "lowerCmpNeI64 rt lk rk lnull rnull l r =
     (case (l, r) of
        (RPtr p, RPtr q) \<Rightarrow>
          (if lnull \<or> rnull then Some (RI1 (p \<noteq> q))
           else if (object_kind lk \<or> object_kind rk) \<and> \<not> (lk = Some KString \<or> rk = Some KString)
             then Some (RI1 (p \<noteq> q))
           else Some (RI1 (\<not> rt_strict_eq_bool rt p q)))
      | _ \<Rightarrow> (let (l', r') = eq_i64_operands rt l r
              in map_option (\<lambda>e. RI1 (\<not> e)) (eq_lowered l' r')))"

text \<open>\<open>NORMALIZE_ORDERING_OPS\<close>: unbox pointers, promote both sides to double when one is.
  \<open>Inl\<close> is a pair of doubles, \<open>Inr\<close> the operands of an integer comparison.\<close>

definition normalize_ordering :: "rtval \<Rightarrow> rtval \<Rightarrow> (f64 \<times> f64) + (rtval \<times> rtval)" where
  "normalize_ordering l r =
     (let unbox = (\<lambda>v. case v of RPtr p \<Rightarrow> RI64 (ts_value_get_int p) | _ \<Rightarrow> v);
          to_f = (\<lambda>v. case v of RF64 d \<Rightarrow> d | RI64 a \<Rightarrow> f64_of_int (sint a)
                     | RI1 b \<Rightarrow> f64_of_int (if b then -1 else 0) | RPtr _ \<Rightarrow> quiet_nan);
          l1 = unbox l; r1 = unbox r
      in case (l1, r1) of
           (RF64 x, _) \<Rightarrow> Inl (x, to_f r1)
         | (_, RF64 y) \<Rightarrow> Inl (to_f l1, y)
         | _ \<Rightarrow> Inr (l1, r1))"

definition order_lowered ::
  "(f64 \<Rightarrow> f64 \<Rightarrow> bool) \<Rightarrow> (int \<Rightarrow> int \<Rightarrow> bool) \<Rightarrow> rtval \<Rightarrow> rtval \<Rightarrow> rtval option" where
  "order_lowered fcmp icmp l r =
     (case normalize_ordering l r of
        Inl (x, y) \<Rightarrow> Some (RI1 (fcmp x y))
      | Inr (RI64 a, RI64 b) \<Rightarrow> Some (RI1 (icmp (sint a) (sint b)))
      | Inr (RI1 a, RI1 b) \<Rightarrow> Some (RI1 (icmp (if a then -1 else 0) (if b then -1 else 0)))
      | _ \<Rightarrow> None)"

definition lowerCmpLtI64 :: "rtval \<Rightarrow> rtval \<Rightarrow> rtval option" where
  "lowerCmpLtI64 = order_lowered f64_lt (<)"

definition lowerCmpLeI64 :: "rtval \<Rightarrow> rtval \<Rightarrow> rtval option" where
  "lowerCmpLeI64 = order_lowered f64_le (\<le>)"

definition lowerCmpGtI64 :: "rtval \<Rightarrow> rtval \<Rightarrow> rtval option" where
  "lowerCmpGtI64 = order_lowered (\<lambda>x y. f64_lt y x) (>)"

definition lowerCmpGeI64 :: "rtval \<Rightarrow> rtval \<Rightarrow> rtval option" where
  "lowerCmpGeI64 = order_lowered (\<lambda>x y. f64_le y x) (\<ge>)"

section \<open>Float comparisons\<close>

definition lowerCmpEqF64 :: "runtime \<Rightarrow> rtval \<Rightarrow> rtval \<Rightarrow> rtval option" where
  "lowerCmpEqF64 rt l r = Some (RI1 (f64_eq (coerce_f64 rt l) (coerce_f64 rt r)))"

text \<open>\<open>fcmp une\<close>: true when the operands differ or either is a NaN.\<close>

definition lowerCmpNeF64 :: "runtime \<Rightarrow> rtval \<Rightarrow> rtval \<Rightarrow> rtval option" where
  "lowerCmpNeF64 rt l r = Some (RI1 (\<not> f64_eq (coerce_f64 rt l) (coerce_f64 rt r)))"

definition lowerCmpLtF64 :: "runtime \<Rightarrow> rtval \<Rightarrow> rtval \<Rightarrow> rtval option" where
  "lowerCmpLtF64 rt l r = Some (RI1 (f64_lt (coerce_f64 rt l) (coerce_f64 rt r)))"

definition lowerCmpLeF64 :: "runtime \<Rightarrow> rtval \<Rightarrow> rtval \<Rightarrow> rtval option" where
  "lowerCmpLeF64 rt l r = Some (RI1 (f64_le (coerce_f64 rt l) (coerce_f64 rt r)))"

definition lowerCmpGtF64 :: "runtime \<Rightarrow> rtval \<Rightarrow> rtval \<Rightarrow> rtval option" where
  "lowerCmpGtF64 rt l r = Some (RI1 (f64_lt (coerce_f64 rt r) (coerce_f64 rt l)))"

definition lowerCmpGeF64 :: "runtime \<Rightarrow> rtval \<Rightarrow> rtval \<Rightarrow> rtval option" where
  "lowerCmpGeF64 rt l r = Some (RI1 (f64_le (coerce_f64 rt r) (coerce_f64 rt l)))"

section \<open>Boolean operations\<close>

text \<open>\<open>emitInlineBoxInt\<close> and its siblings, as the NaN boxes they build.\<close>

definition emitInlineBoxInt :: "i64 \<Rightarrow> u64" where
  "emitInlineBoxInt a =
     (if sext64 (trunc32 a) = a then nanbox_int32 (trunc32 a) else nanbox_double (f64_of_int (sint a)))"

definition boxIfNeeded :: "rtval \<Rightarrow> u64" where
  "boxIfNeeded v =
     (case v of RPtr p \<Rightarrow> p | RI64 a \<Rightarrow> emitInlineBoxInt a
      | RF64 d \<Rightarrow> nanbox_double d | RI1 b \<Rightarrow> nanbox_bool b)"

definition lowerLogicalAnd :: "runtime \<Rightarrow> rtval \<Rightarrow> rtval \<Rightarrow> rtval option" where
  "lowerLogicalAnd rt l r =
     (case (l, r) of
        (RI1 a, RI1 b) \<Rightarrow> Some (RI1 (a \<and> b))
      | _ \<Rightarrow> Some (RPtr (if rt_value_to_bool rt (boxIfNeeded l) then boxIfNeeded r else boxIfNeeded l)))"

definition lowerLogicalOr :: "runtime \<Rightarrow> rtval \<Rightarrow> rtval \<Rightarrow> rtval option" where
  "lowerLogicalOr rt l r =
     (case (l, r) of
        (RI1 a, RI1 b) \<Rightarrow> Some (RI1 (a \<or> b))
      | _ \<Rightarrow> Some (RPtr (if rt_value_to_bool rt (boxIfNeeded l) then boxIfNeeded l else boxIfNeeded r)))"

text \<open>\<open>fcmp one\<close> with zero: false for a NaN, so \<open>!NaN\<close> is true.\<close>

definition lowerLogicalNot :: "runtime \<Rightarrow> rtval \<Rightarrow> rtval option" where
  "lowerLogicalNot rt v =
     (case v of
        RPtr p \<Rightarrow> Some (RI1 (\<not> rt_value_to_bool rt p))
      | RI1 b \<Rightarrow> Some (RI1 (\<not> b))
      | RI64 a \<Rightarrow> Some (RI1 (\<not> (a \<noteq> 0)))
      | RF64 d \<Rightarrow> Some (RI1 (\<not> (f64_lt d f64_zero \<or> f64_lt f64_zero d))))"

section \<open>Type conversions\<close>

definition lowerCastI64ToF64 :: "rtval \<Rightarrow> rtval option" where
  "lowerCastI64ToF64 v = map_option RF64 (sitofp v)"

definition lowerCastF64ToI64 :: "rtval \<Rightarrow> rtval option" where
  "lowerCastF64ToI64 v = (case v of RF64 d \<Rightarrow> Some (RI64 (f64_to_i64 d)) | _ \<Rightarrow> None)"

definition lowerCastBoolToI64 :: "rtval \<Rightarrow> rtval option" where
  "lowerCastBoolToI64 v = (case v of RI1 b \<Rightarrow> Some (RI64 (bool_i64 b)) | _ \<Rightarrow> None)"

section \<open>Dispatch\<close>

text \<open>The part of \<open>lowerInstruction\<close> for these opcodes. The context of an equality holds
  what its lowering reads besides the operands' values.\<close>

record cmp_ctx =
  lhs_kind :: "htkind option"
  rhs_kind :: "htkind option"
  lhs_null :: bool
  rhs_null :: bool

definition lower_binary ::
  "runtime \<Rightarrow> cmp_ctx \<Rightarrow> hiropcode \<Rightarrow> rtval \<Rightarrow> rtval \<Rightarrow> rtval option" where
  "lower_binary rt k op l r =
     (if op = AddI64 then lowerAddI64 l r
      else if op = SubI64 then lowerSubI64 l r
      else if op = MulI64 then lowerMulI64 l r
      else if op = DivI64 then lowerDivI64 l r
      else if op = ModI64 then lowerModI64 l r
      else if op = AddF64 then lowerAddF64 rt l r
      else if op = SubF64 then lowerSubF64 rt l r
      else if op = MulF64 then lowerMulF64 rt l r
      else if op = DivF64 then lowerDivF64 rt l r
      else if op = ModF64 then lowerModF64 rt l r
      else if op = AndI64 then lowerAndI64 l r
      else if op = OrI64 then lowerOrI64 l r
      else if op = XorI64 then lowerXorI64 l r
      else if op = ShlI64 then lowerShlI64 l r
      else if op = ShrI64 then lowerShrI64 l r
      else if op = UShrI64 then lowerUShrI64 l r
      else if op = CmpEqI64 then lowerCmpEqI64 rt (lhs_kind k) (rhs_kind k) (lhs_null k) (rhs_null k) l r
      else if op = CmpNeI64 then lowerCmpNeI64 rt (lhs_kind k) (rhs_kind k) (lhs_null k) (rhs_null k) l r
      else if op = CmpLtI64 then lowerCmpLtI64 l r
      else if op = CmpLeI64 then lowerCmpLeI64 l r
      else if op = CmpGtI64 then lowerCmpGtI64 l r
      else if op = CmpGeI64 then lowerCmpGeI64 l r
      else if op = CmpEqF64 then lowerCmpEqF64 rt l r
      else if op = CmpNeF64 then lowerCmpNeF64 rt l r
      else if op = CmpLtF64 then lowerCmpLtF64 rt l r
      else if op = CmpLeF64 then lowerCmpLeF64 rt l r
      else if op = CmpGtF64 then lowerCmpGtF64 rt l r
      else if op = CmpGeF64 then lowerCmpGeF64 rt l r
      else if op = LogicalAnd then lowerLogicalAnd rt l r
      else if op = LogicalOr then lowerLogicalOr rt l r
      else None)"

definition lower_unary :: "runtime \<Rightarrow> hiropcode \<Rightarrow> rtval \<Rightarrow> rtval option" where
  "lower_unary rt op v =
     (if op = NegI64 then lowerNegI64 v
      else if op = NotI64 then lowerNotI64 v
      else if op = NegF64 then lowerNegF64 rt v
      else if op = LogicalNot then lowerLogicalNot rt v
      else if op = CastI64ToF64 then lowerCastI64ToF64 v
      else if op = CastF64ToI64 then lowerCastF64ToI64 v
      else if op = CastBoolToI64 then lowerCastBoolToI64 v
      else None)"


lemma lower_binary_simps [simp]:
  "lower_binary rt k AddI64 l r = lowerAddI64 l r"
  "lower_binary rt k SubI64 l r = lowerSubI64 l r"
  "lower_binary rt k MulI64 l r = lowerMulI64 l r"
  "lower_binary rt k DivI64 l r = lowerDivI64 l r"
  "lower_binary rt k ModI64 l r = lowerModI64 l r"
  "lower_binary rt k AddF64 l r = lowerAddF64 rt l r"
  "lower_binary rt k SubF64 l r = lowerSubF64 rt l r"
  "lower_binary rt k MulF64 l r = lowerMulF64 rt l r"
  "lower_binary rt k DivF64 l r = lowerDivF64 rt l r"
  "lower_binary rt k ModF64 l r = lowerModF64 rt l r"
  "lower_binary rt k AndI64 l r = lowerAndI64 l r"
  "lower_binary rt k OrI64 l r = lowerOrI64 l r"
  "lower_binary rt k XorI64 l r = lowerXorI64 l r"
  "lower_binary rt k ShlI64 l r = lowerShlI64 l r"
  "lower_binary rt k ShrI64 l r = lowerShrI64 l r"
  "lower_binary rt k UShrI64 l r = lowerUShrI64 l r"
  "lower_binary rt k CmpEqI64 l r = lowerCmpEqI64 rt (lhs_kind k) (rhs_kind k) (lhs_null k) (rhs_null k) l r"
  "lower_binary rt k CmpNeI64 l r = lowerCmpNeI64 rt (lhs_kind k) (rhs_kind k) (lhs_null k) (rhs_null k) l r"
  "lower_binary rt k CmpLtI64 l r = lowerCmpLtI64 l r"
  "lower_binary rt k CmpLeI64 l r = lowerCmpLeI64 l r"
  "lower_binary rt k CmpGtI64 l r = lowerCmpGtI64 l r"
  "lower_binary rt k CmpGeI64 l r = lowerCmpGeI64 l r"
  "lower_binary rt k CmpEqF64 l r = lowerCmpEqF64 rt l r"
  "lower_binary rt k CmpNeF64 l r = lowerCmpNeF64 rt l r"
  "lower_binary rt k CmpLtF64 l r = lowerCmpLtF64 rt l r"
  "lower_binary rt k CmpLeF64 l r = lowerCmpLeF64 rt l r"
  "lower_binary rt k CmpGtF64 l r = lowerCmpGtF64 rt l r"
  "lower_binary rt k CmpGeF64 l r = lowerCmpGeF64 rt l r"
  "lower_binary rt k LogicalAnd l r = lowerLogicalAnd rt l r"
  "lower_binary rt k LogicalOr l r = lowerLogicalOr rt l r"
  by (simp_all add: lower_binary_def)

lemma lower_unary_simps [simp]:
  "lower_unary rt NegI64 v = lowerNegI64 v"
  "lower_unary rt NotI64 v = lowerNotI64 v"
  "lower_unary rt NegF64 v = lowerNegF64 rt v"
  "lower_unary rt LogicalNot v = lowerLogicalNot rt v"
  "lower_unary rt CastI64ToF64 v = lowerCastI64ToF64 v"
  "lower_unary rt CastF64ToI64 v = lowerCastF64ToI64 v"
  "lower_unary rt CastBoolToI64 v = lowerCastBoolToI64 v"
  by (simp_all add: lower_unary_def)

text \<open>The opcodes whose result the model computes.\<close>

definition binary_ops :: "hiropcode set" where
  "binary_ops = {AddI64, SubI64, MulI64, DivI64, ModI64, AddF64, SubF64, MulF64, DivF64, ModF64,
     AndI64, OrI64, XorI64, ShlI64, ShrI64, UShrI64, CmpEqI64, CmpNeI64, CmpLtI64, CmpLeI64,
     CmpGtI64, CmpGeI64, CmpEqF64, CmpNeF64, CmpLtF64, CmpLeF64, CmpGtF64, CmpGeF64,
     LogicalAnd, LogicalOr}"

definition unary_ops :: "hiropcode set" where
  "unary_ops = {NegI64, NotI64, NegF64, LogicalNot, CastI64ToF64, CastF64ToI64, CastBoolToI64}"

definition const_ops :: "hiropcode set" where
  "const_ops = {ConstInt, ConstFloat, ConstBool, ConstString, ConstNull, ConstUndefined}"

section \<open>Properties\<close>

lemma f64_of_int_32: "\<bar>i\<bar> < 2 ^ 33 \<Longrightarrow> f64_holds (f64_of_int i) i"
  by (rule f64_of_int_holds) simp

lemma sint_32_bound: "\<bar>sint (w :: i32)\<bar> < 2 ^ 33"
  using sint_ge [of w] sint_lt [of w] by simp

lemma sint_trunc32: "sint (trunc32 a) = ToInt32 (sint a)"
  unfolding trunc32_of_int by (rule sint_word32)

lemma i32_to_f64_holds: "\<exists>d. i32_to_f64 w = Some (RF64 d) \<and> f64_holds d (sint w)"
  using f64_of_int_32 [OF sint_32_bound [of w]] by (simp add: i32_to_f64_def sint_sext64)

lemma shamt_trunc: "shamt (trunc32 b) = unat (b AND 31)"
proof -
  have m: "(0x1F :: i32) = mask 5" "(31 :: i64) = mask 5" by (simp_all add: mask_eq_decr_exp)
  show ?thesis
    unfolding shamt_def m trunc32_def take_bit_eq_mask [symmetric]
    by (simp add: unsigned_take_bit_eq unsigned_ucast_eq)
qed


lemma fits_i32_sext: "sext64 (trunc32 a) = a \<longleftrightarrow> fits_i32 (sint a)"
proof
  assume "sext64 (trunc32 a) = a"
  then have "sint a = sint (trunc32 a)" by (metis sint_sext64)
  then show "fits_i32 (sint a)" using sint_ge [of "trunc32 a"] sint_lt [of "trunc32 a"] by (simp add: fits_i32_def)
next
  assume "fits_i32 (sint a)"
  then have "sint (trunc32 a) = sint a" by (simp only: trunc32_of_int sint_of_int_32)
  then have "sint (sext64 (trunc32 a)) = sint a" by (simp add: sint_sext64)
  then show "sext64 (trunc32 a) = a" by (simp only: sint_eq_iff)
qed

text \<open>
  C17. Boxing an integer inline and reading it back through the runtime's integer decoder is
  the identity for every integer a double can hold exactly, and the box is an int32 box just
  for the 32-bit integers.
\<close>

theorem inline_box_int_roundtrip:
  assumes "\<bar>sint a\<bar> \<le> 2 ^ 53"
  shows "nanbox_to_int64 (emitInlineBoxInt a) = a \<and>
    nanbox_is_number (emitInlineBoxInt a) \<and>
    nanbox_is_int32 (emitInlineBoxInt a) = fits_i32 (sint a)"
proof (cases "fits_i32 (sint a)")
  case True
  then have "emitInlineBoxInt a = nanbox_int32 (trunc32 a)" "sext64 (trunc32 a) = a"
    using fits_i32_sext by (simp_all add: emitInlineBoxInt_def)
  then show ?thesis
    using True int32_box_kinds [of "trunc32 a"] by (simp add: int32_box_to_int64 kind_iffs)
next
  case False
  then have e: "emitInlineBoxInt a = nanbox_double (f64_of_int (sint a))"
    using fits_i32_sext by (simp add: emitInlineBoxInt_def)
  have h: "f64_holds (f64_of_int (sint a)) (sint a)" using assms by (rule f64_of_int_holds)
  then have "\<not> f64_isnan (f64_of_int (sint a))" using finite_not_special by (simp add: f64_holds_def)
  then have "nanbox_to_int64 (emitInlineBoxInt a) = a"
    using f64_to_i64_holds [OF h] by (simp add: e double_box_to_int64)
  then show ?thesis using False double_box_kinds by (simp add: e)
qed

theorem inline_box_int_roundtrip_witness:
  "nanbox_to_int64 (emitInlineBoxInt 4294967297) = 4294967297 \<and>
   \<not> nanbox_is_int32 (emitInlineBoxInt 4294967297)"
  using inline_box_int_roundtrip [of 4294967297] by (simp add: fits_i32_def)


text \<open>
  The two arithmetic families read a boolean operand differently: the integer opcodes
  extend \<open>true\<close> to 1, the float opcodes convert the one-bit integer as signed, so \<open>true\<close>
  counts as \<open>-1\<close>.
\<close>

theorem bool_operand_sign:
  "lowerAddI64 (RI1 True) (RI64 0) = Some (RI64 1) \<and>
   (\<exists>d. lowerAddF64 rt (RI1 True) (RF64 (f64_of_int 0)) = Some (RF64 d) \<and> f64_holds d (-1))"
  using f64_add_holds [of "f64_of_int (-1)" "-1" "f64_of_int 0" 0] f64_of_int_holds [of "-1"] f64_of_int_holds [of 0]
  by (simp add: lowerAddI64_def coerceToI64Operand_def bool_i64_def lowerAddF64_def coerce_f64_def)

end
