(* ===== verification/Execution.thy ===== *)
theory Execution
  imports HIR Lowering
begin

text \<open>
  Executions of the instructions of a function, the yardstick the passes are measured by.
  An environment gives the run-time value of each HIR value that has been defined
  (\<open>HIRToLLVM::valueMap_\<close> and the machine code it produces). The constant, arithmetic,
  comparison, boolean and conversion opcodes compute what \<open>Lowering\<close> says; every other
  instruction, which reads memory, calls or merges paths, may produce any value. Control
  flow is over-approximated: any instruction of the function may run next, so a fact about
  every reachable environment holds along every path and in every loop iteration.
\<close>

type_synonym env = "vref \<Rightarrow> rtval option"

text \<open>\<open>HIRToLLVM::getOperandValue\<close>: a string, block or type operand aborts there.\<close>

definition getOperandValue :: "env \<Rightarrow> hoperand \<Rightarrow> rtval option" where
  "getOperandValue env x =
     (case x of OVal (Some v) \<Rightarrow> env v | OInt n \<Rightarrow> Some (RI64 n) | OFloat d \<Rightarrow> Some (RF64 d)
      | OBool b \<Rightarrow> Some (RI1 b) | _ \<Rightarrow> None)"

definition setValue :: "env \<Rightarrow> vref option \<Rightarrow> rtval \<Rightarrow> env" where
  "setValue env r v = (case r of None \<Rightarrow> env | Some x \<Rightarrow> env(x \<mapsto> v))"

lemma setValue_simps [simp]: "setValue env None v = env" "setValue env (Some x) v = env(x \<mapsto> v)"
  by (simp_all add: setValue_def)

text \<open>The value a constant instruction loads; a string constant loads any string object
  with that text.\<close>

definition getOperandInt :: "hoperand \<Rightarrow> i64" where
  "getOperandInt x = (case x of OInt n \<Rightarrow> n | _ \<Rightarrow> 0)"

definition getOperandString :: "hoperand \<Rightarrow> string" where
  "getOperandString x = (case x of OStr s \<Rightarrow> s | _ \<Rightarrow> [])"

definition const_loads :: "runtime \<Rightarrow> hinst \<Rightarrow> rtval \<Rightarrow> bool" where
  "const_loads rt i v \<longleftrightarrow>
     (opcode i = ConstInt \<and> operands i \<noteq> [] \<and> v = lowerConstInt (getOperandInt (hd (operands i)))) \<or>
     (opcode i = ConstFloat \<and> (\<exists>d xs. operands i = OFloat d # xs \<and> v = lowerConstFloat d)) \<or>
     (opcode i = ConstBool \<and> (\<exists>b xs. operands i = OBool b # xs \<and> v = lowerConstBool b)) \<or>
     (opcode i = ConstString \<and> operands i \<noteq> [] \<and>
        (\<exists>p. v = RPtr p \<and> rt_string rt p = Some (getOperandString (hd (operands i))))) \<or>
     (opcode i = ConstNull \<and> v = lowerConstNull) \<or>
     (opcode i = ConstUndefined \<and> v = lowerConstUndefined)"

text \<open>What is promised of \<open>lowerStringConcat\<close>: two string objects give a string object with
  the concatenated text.\<close>

definition concat_loads :: "runtime \<Rightarrow> rtval \<Rightarrow> rtval \<Rightarrow> rtval \<Rightarrow> bool" where
  "concat_loads rt l r v \<longleftrightarrow>
     (\<forall>p q s t. l = RPtr p \<and> r = RPtr q \<and> rt_string rt p = Some s \<and> rt_string rt q = Some t \<longrightarrow>
        (\<exists>u. v = RPtr u \<and> rt_string rt u = Some (s @ t)))"

definition computed_ops :: "hiropcode set" where
  "computed_ops = const_ops \<union> binary_ops \<union> unary_ops \<union> {StringConcat}"

text \<open>The values an instruction can compute in an environment.\<close>

inductive computes :: "runtime \<Rightarrow> hinst \<Rightarrow> env \<Rightarrow> rtval \<Rightarrow> bool" for rt i env where
  computes_const: "opcode i \<in> const_ops \<Longrightarrow> const_loads rt i v \<Longrightarrow> computes rt i env v"
| computes_binary: "opcode i \<in> binary_ops \<Longrightarrow> operands i = x # y # zs \<Longrightarrow>
    getOperandValue env x = Some l \<Longrightarrow> getOperandValue env y = Some r \<Longrightarrow>
    lower_binary rt k (opcode i) l r = Some v \<Longrightarrow> computes rt i env v"
| computes_unary: "opcode i \<in> unary_ops \<Longrightarrow> operands i = x # zs \<Longrightarrow> getOperandValue env x = Some l \<Longrightarrow>
    lower_unary rt (opcode i) l = Some v \<Longrightarrow> computes rt i env v"
| computes_concat: "opcode i = StringConcat \<Longrightarrow> operands i = x # y # zs \<Longrightarrow>
    getOperandValue env x = Some l \<Longrightarrow> getOperandValue env y = Some r \<Longrightarrow>
    concat_loads rt l r v \<Longrightarrow> computes rt i env v"
| computes_other: "opcode i \<notin> computed_ops \<Longrightarrow> computes rt i env v"

inductive_cases computesE: "computes rt i env v"

lemma const_ops_separate:
  "op \<in> const_ops \<Longrightarrow> op \<in> computed_ops \<and> op \<notin> binary_ops \<and> op \<notin> unary_ops \<and> op \<noteq> StringConcat"
  unfolding const_ops_def computed_ops_def binary_ops_def unary_ops_def by auto

lemma computes_const_iff: "opcode i \<in> const_ops \<Longrightarrow> computes rt i env x \<longleftrightarrow> const_loads rt i x"
  using const_ops_separate [of "opcode i"] by (auto elim: computesE intro: computes_const)

definition results :: "hinst list \<Rightarrow> vref list" where
  "results is = List.map_filter result is"

text \<open>Static single assignment: no value is the result of two instructions.\<close>

definition ssa :: "hinst list \<Rightarrow> bool" where
  "ssa is \<longleftrightarrow> distinct (results is)"

text \<open>The environments a run of the instructions can reach, from one in which only parameters
  and other outside values are defined.\<close>

inductive reach :: "runtime \<Rightarrow> hinst list \<Rightarrow> env \<Rightarrow> bool" for rt "is" where
  reach_init: "(\<And>v. v \<in> set (results is) \<Longrightarrow> env v = None) \<Longrightarrow> reach rt is env"
| reach_step: "reach rt is env \<Longrightarrow> i \<in> set is \<Longrightarrow> computes rt i env x \<Longrightarrow>
    reach rt is (setValue env (result i) x)"

lemma results_append [simp]: "results (xs @ ys) = results xs @ results ys"
  by (simp add: results_def List.map_filter_def)

lemma results_simps [simp]:
  "results [] = []" "results (i # is) = (case result i of None \<Rightarrow> results is | Some v \<Rightarrow> v # results is)"
  by (simp_all add: results_def List.map_filter_def split: option.split)

lemma in_results: "v \<in> set (results is) \<longleftrightarrow> (\<exists>i\<in>set is. result i = Some v)"
  by (induction "is") (auto split: option.splits)

lemma ssa_unique:
  "ssa is \<Longrightarrow> i \<in> set is \<Longrightarrow> j \<in> set is \<Longrightarrow> result i = Some v \<Longrightarrow> result j = Some v \<Longrightarrow> i = j"
  unfolding ssa_def
proof (induction "is")
  case (Cons k ks)
  then show ?case by (auto simp: in_results split: option.splits)
qed simp

text \<open>A fact about one value holds in every reachable environment when its only definition
  establishes it.\<close>

lemma reach_value:
  assumes r: "reach rt is env" and s: "ssa is" and i: "i \<in> set is" "result i = Some v"
    and def: "\<And>env x. reach rt is env \<Longrightarrow> computes rt i env x \<Longrightarrow> P x"
    and "env v = Some x"
  shows "P x"
  using r assms(6)
proof (induction arbitrary: x)
  case (reach_init env)
  have "env v = None" using reach_init.hyps i by (auto simp: in_results)
  then show ?case using reach_init.prems by simp
next
  case (reach_step env j y)
  show ?case
  proof (cases "result j = Some v")
    case True
    then have "j = i" using ssa_unique [OF s] reach_step.hyps(2) i by blast
    then show ?thesis using def reach_step.hyps reach_step.prems True by auto
  next
    case False
    then have "env v = Some x"
      using reach_step.prems by (auto simp: setValue_def split: option.splits if_splits)
    then show ?thesis by (rule reach_step.IH)
  qed
qed

section \<open>Numbers\<close>

text \<open>A run-time value that represents an integer: as an i64, or as a double that holds it.\<close>

definition number_holds :: "rtval \<Rightarrow> int \<Rightarrow> bool" where
  "number_holds v i = (case v of RI64 n \<Rightarrow> sint n = i | RF64 d \<Rightarrow> f64_holds d i | _ \<Rightarrow> False)"

lemma coerce_number:
  "number_holds v i \<Longrightarrow> \<bar>i\<bar> \<le> 2 ^ 53 \<Longrightarrow> f64_holds (coerce_f64 rt v) i"
  by (cases v) (auto simp: number_holds_def coerce_f64_def f64_of_int_holds)

lemma binary_ops_separate:
  "op \<in> binary_ops \<Longrightarrow> op \<in> computed_ops \<and> op \<notin> const_ops \<and> op \<notin> unary_ops \<and> op \<noteq> StringConcat"
  using const_ops_separate [of op]
  by (simp add: computed_ops_def) (auto simp: binary_ops_def unary_ops_def)

lemma unary_ops_separate:
  "op \<in> unary_ops \<Longrightarrow> op \<in> computed_ops \<and> op \<notin> const_ops \<and> op \<notin> binary_ops \<and> op \<noteq> StringConcat"
  using const_ops_separate [of op] binary_ops_separate [of op]
  by (auto simp: computed_ops_def unary_ops_def)

lemma computes_binary_cases:
  assumes "computes rt i env x" and "opcode i \<in> binary_ops"
  obtains a b zs k l r where "operands i = a # b # zs" "getOperandValue env a = Some l"
    "getOperandValue env b = Some r" "lower_binary rt k (opcode i) l r = Some x"
  using assms that binary_ops_separate [OF assms(2)] by (auto elim!: computesE)

lemma computes_typed_binary:
  assumes "computes rt i env x" and "opcode i \<in> binary_ops" and "operands i = a # b # zs"
  obtains k l r where "getOperandValue env a = Some l" "getOperandValue env b = Some r"
    "lower_binary rt k (opcode i) l r = Some x"
  using computes_binary_cases [OF assms(1,2)] assms(3) that by auto

lemma computes_binary_op:
  assumes "computes rt i env x" and "opcode i \<in> binary_ops"
  obtains k l r where "lower_binary rt k (opcode i) l r = Some x"
  using computes_binary_cases [OF assms] that by blast

text \<open>A computed binary instruction delivers what its lowering says, in every comparison context
  when they all agree.\<close>

lemma computes_lowered:
  assumes "opcode i \<in> binary_ops" and "operands i = OVal (Some a) # OVal (Some b) # zs"
    and "env a = Some l" and "env b = Some r" and "\<And>k. lower_binary rt k (opcode i) l r = Some y"
  shows "computes rt i env x \<longleftrightarrow> x = y"
proof
  assume "computes rt i env x"
  then show "x = y"
    using assms by (auto elim!: computes_typed_binary simp: getOperandValue_def)
next
  assume "x = y"
  then show "computes rt i env x"
    using assms by (auto intro!: computes_binary simp: getOperandValue_def)
qed

lemma computes_typed_unary:
  assumes "computes rt i env x" and "opcode i \<in> unary_ops" and "operands i = a # zs"
  obtains l where "getOperandValue env a = Some l" "lower_unary rt (opcode i) l = Some x"
  using assms that unary_ops_separate [OF assms(2)] by (auto elim!: computesE)

end
