(* ===== verification/FloatOrder.thy ===== *)
theory FloatOrder
  imports Float64
begin

text \<open>
  The order of doubles: the bit pattern of the magnitude grows with the value, so comparing
  two doubles that hold integers compares the integers, and comparing a double that holds a
  small integer with a converted 64-bit integer is exact although the conversion rounds.
\<close>

lemma mag_units_step: "mag_units m < mag_units (Suc m)"
proof -
  consider "Suc m < 2 ^ 52" | "Suc m = 2 ^ 52" | "2 ^ 52 \<le> m" by linarith
  then show ?thesis
  proof cases
    case 1
    then show ?thesis by (simp add: mag_units_def)
  next
    case 2
    then have "m < 2 ^ 53" "Suc m < 2 ^ 53" by simp_all
    then show ?thesis by (simp only: mag_units_small lessI)
  next
    case 3
    define e where "e = m div 2 ^ 52 - 1"
    define f where "f = m mod 2 ^ 52"
    have f: "f < 2 ^ 52" by (simp add: f_def)
    have d: "m div 2 ^ 52 = Suc e"
      using div_le_mono [OF 3, of "2 ^ 52"] by (simp add: e_def)
    have "m = Suc e * 2 ^ 52 + f"
      using div_mult_mod_eq [of m "2 ^ 52"] by (simp only: d f_def)
    then have m: "m = e * 2 ^ 52 + (2 ^ 52 + f)" by simp
    then have u: "mag_units m = (2 ^ 52 + f) * 2 ^ e"
      using mag_units_normal [of "2 ^ 52 + f" e] f by simp
    show ?thesis
    proof (cases "Suc f < 2 ^ 52")
      case True
      have "Suc m = e * 2 ^ 52 + (2 ^ 52 + Suc f)" using m by simp
      then have "mag_units (Suc m) = (2 ^ 52 + Suc f) * 2 ^ e"
        using mag_units_normal [of "2 ^ 52 + Suc f" e] True by (simp add: ac_simps)
      then show ?thesis by (simp add: u)
    next
      case False
      then have sf: "Suc f = 2 ^ 52" using f by linarith
      have "Suc m = Suc e * 2 ^ 52 + 2 ^ 52" using m sf by simp
      then have "mag_units (Suc m) = 2 ^ 52 * 2 ^ Suc e"
        using mag_units_normal [of "2 ^ 52" "Suc e"] by simp
      also have "\<dots> = (2 ^ 52 + 2 ^ 52) * 2 ^ e" by simp
      also have "\<dots> > (2 ^ 52 + f) * 2 ^ e" using f by (intro mult_strict_right_mono) simp_all
      finally show ?thesis by (simp add: u)
    qed
  qed
qed

lemma mag_units_less_iff [simp]: "mag_units m < mag_units n \<longleftrightarrow> m < n"
  by (simp add: mag_units_step strict_mono_less strict_mono_Suc_iff)

lemma mag_units_0 [simp]: "mag_units 0 = 0"
  by (simp add: mag_units_def)

lemma mag_units_eq_iff [simp]: "mag_units m = mag_units n \<longleftrightarrow> m = n"
  using mag_units_less_iff [of m n] mag_units_less_iff [of n m] by (metis nat_neq_iff)

lemma f64_key_less_iff: "f64_key x < f64_key y \<longleftrightarrow> f64_units x < f64_units y"
proof -
  have z: "0 < mag_units m \<longleftrightarrow> 0 < m" for m using mag_units_less_iff [of 0 m] by simp
  show ?thesis
    unfolding f64_key_def f64_units_def
    using z [of "f64_mag x"] z [of "f64_mag y"] mag_units_less_iff [of "f64_mag x" "f64_mag y"]
      mag_units_less_iff [of "f64_mag y" "f64_mag x"]
    by (simp del: mag_units_less_iff split: if_splits) linarith
qed

lemma f64_key_eq_iff: "f64_key x = f64_key y \<longleftrightarrow> f64_units x = f64_units y"
  using f64_key_less_iff [of x y] f64_key_less_iff [of y x] by linarith

text \<open>Comparisons of doubles that are numbers are comparisons of their units.\<close>

lemma f64_cmp_units:
  assumes "\<not> f64_isnan x" and "\<not> f64_isnan y"
  shows "f64_eq x y \<longleftrightarrow> f64_units x = f64_units y"
    and "f64_lt x y \<longleftrightarrow> f64_units x < f64_units y"
    and "f64_le x y \<longleftrightarrow> f64_units x \<le> f64_units y"
  using assms f64_key_less_iff [of y x]
  by (auto simp: f64_eq_def f64_lt_def f64_le_def f64_key_eq_iff f64_key_less_iff
      simp flip: linorder_not_less)

lemma f64_holds_not_nan: "f64_holds x i \<Longrightarrow> \<not> f64_isnan x"
  using finite_not_special by (simp add: f64_holds_def)

lemma f64_cmp_holds:
  assumes "f64_holds x i" and "f64_holds y j"
  shows "f64_eq x y \<longleftrightarrow> i = j" and "f64_lt x y \<longleftrightarrow> i < j" and "f64_le x y \<longleftrightarrow> i \<le> j"
  using assms unit_one_pos f64_cmp_units [OF assms [THEN f64_holds_not_nan]]
  by (simp_all add: f64_holds_def)

section \<open>Conversions of large integers\<close>

lemma f64_of_int_not_nan: "\<not> f64_isnan (f64_of_int i)"
  unfolding f64_of_int_def f64_isnan_def linorder_not_less f64_mag_mk [OF round_mag_lt]
  by (rule round_mag_le)

lemma round_mag_big:
  assumes "2 ^ 53 \<le> m"
  shows "1076 * 2 ^ 52 \<le> round_mag (m * unit_one) 1"
proof -
  define n where "n = m * unit_one"
  define L where "L = floorlog 2 n"
  define s where "s = L - 53"
  define q where "q = n div 2 ^ s"
  have "2 ^ 53 * 2 ^ 1074 \<le> n"
    unfolding n_def unit_one_def using assms by (rule mult_le_mono1)
  then have n2: "2 ^ (53 + 1074) \<le> n" by (simp only: power_add)
  then have n: "0 < n" by (rule order.strict_trans2 [rotated]) (simp only: zero_less_power zero_less_numeral)
  have lo: "2 ^ (L - 1) \<le> n" and hi: "n < 2 ^ L" using floorlog_bound [OF n] by (auto simp: L_def)
  have "(2::nat) ^ (53 + 1074) < 2 ^ L" using n2 hi by (rule order.strict_trans1)
  then have "53 + 1074 < L" by (rule power_less_imp_less_exp [rotated]) simp
  then have s: "1075 \<le> s" and Ls: "L - 1 = 52 + s" by (simp_all add: s_def)
  have "2 ^ 52 * 2 ^ s \<le> n" using lo by (simp only: Ls power_add)
  then have "2 ^ 52 * 2 ^ s div 2 ^ s \<le> q" unfolding q_def by (rule div_le_mono)
  then have q: "2 ^ 52 \<le> q" by simp
  have "1075 * 2 ^ 52 \<le> s * 2 ^ 52" using s by (rule mult_le_mono1)
  then have "1076 * 2 ^ 52 \<le> s * 2 ^ 52 + q" using q by simp
  moreover have "1076 * 2 ^ 52 \<le> inf_mag" by (simp add: inf_mag_def)
  ultimately have "1076 * 2 ^ 52 \<le> min (s * 2 ^ 52 + (if b then q + 1 else q)) inf_mag" for b
    by simp
  then show ?thesis
    unfolding n_def [symmetric] round_mag_def Let_def div_by_1 mult_1 L_def [symmetric]
      s_def [symmetric] q_def [symmetric] .
qed

lemma mag_units_big: "mag_units (1076 * 2 ^ 52) = 2 ^ 53 * unit_one"
proof -
  have "(2 :: nat) ^ 52 * 2 ^ 1075 = 2 ^ 53 * unit_one"
    unfolding unit_one_def power_add [symmetric] by (rule arg_cong [of _ _ "power 2"]) simp
  then show ?thesis using mag_units_normal [of "2 ^ 52" 1075] by simp
qed

text \<open>The value of a converted integer is on the right side of every small integer.\<close>

lemma f64_of_int_far:
  assumes "2 ^ 53 < \<bar>i\<bar>"
  shows "f64_neg_sign (f64_of_int i) = (i < 0) \<and>
    2 ^ 53 * unit_one \<le> mag_units (f64_mag (f64_of_int i))"
proof -
  have "2 ^ 53 \<le> nat \<bar>i\<bar>" using assms by simp
  then have "mag_units (1076 * 2 ^ 52) \<le> mag_units (round_mag (nat \<bar>i\<bar> * unit_one) 1)"
    using round_mag_big by (metis mag_units_less_iff linorder_not_less)
  then show ?thesis
    unfolding mag_units_big f64_of_int_def by (simp only: f64_mag_mk f64_neg_sign_mk round_mag_lt simp_thms)
qed

lemma f64_units_far:
  assumes "2 ^ 53 < \<bar>j\<bar>" and "\<bar>i\<bar> < 2 ^ 53"
  shows "(i * int unit_one < f64_units (f64_of_int j)) = (i < j)"
    and "(f64_units (f64_of_int j) < i * int unit_one) = (j < i)"
proof -
  define U where "U = f64_units (f64_of_int j)"
  define M where "M = int (mag_units (f64_mag (f64_of_int j)))"
  define B where "B = int unit_one"
  have B: "0 < B" using unit_one_pos by (simp add: B_def)
  have far: "f64_neg_sign (f64_of_int j) = (j < 0)" "2 ^ 53 * B \<le> M"
    using f64_of_int_far [OF assms(1)] unfolding M_def B_def by (simp_all flip: of_nat_mult of_nat_power)
  have U: "U = (if j < 0 then - M else M)" using far by (simp add: U_def M_def f64_units_def)
  have "\<bar>i\<bar> * B < 2 ^ 53 * B" using assms(2) B by (rule mult_strict_right_mono)
  then have "\<bar>i\<bar> * B < M" using far(2) by (rule order.strict_trans2)
  then have "\<bar>i * B\<bar> < M" using B by (simp add: abs_mult)
  then have "(i * B < U) = (0 \<le> j)" "(U < i * B) = (j < 0)" by (auto simp: U)
  moreover have "(0 \<le> j) = (i < j)" "(j < 0) = (j < i)" using assms by linarith+
  ultimately show "(i * int unit_one < f64_units (f64_of_int j)) = (i < j)"
    and "(f64_units (f64_of_int j) < i * int unit_one) = (j < i)"
    by (simp_all add: U_def B_def)
qed

lemma f64_units_of_int_cmp:
  assumes "f64_holds x i" and "\<bar>i\<bar> < 2 ^ 53"
  shows "(f64_units x < f64_units (f64_of_int j)) = (i < j)"
    and "(f64_units (f64_of_int j) < f64_units x) = (j < i)"
proof -
  have x: "f64_units x = i * int unit_one" using assms(1) by (simp add: f64_holds_def)
  have "(f64_units x < f64_units (f64_of_int j)) = (i < j) \<and>
      (f64_units (f64_of_int j) < f64_units x) = (j < i)"
  proof (cases "\<bar>j\<bar> \<le> 2 ^ 53")
    case True
    then have "f64_units (f64_of_int j) = j * int unit_one"
      using f64_of_int_holds by (simp add: f64_holds_def)
    then show ?thesis using x unit_one_pos by simp
  next
    case False
    then show ?thesis using f64_units_far [of j i] assms(2) x by simp
  qed
  then show "(f64_units x < f64_units (f64_of_int j)) = (i < j)"
    and "(f64_units (f64_of_int j) < f64_units x) = (j < i)" by blast+
qed

lemma f64_cmp_of_int:
  assumes "f64_holds x i" and "\<bar>i\<bar> < 2 ^ 53"
  shows "f64_eq x (f64_of_int j) \<longleftrightarrow> i = j" "f64_eq (f64_of_int j) x \<longleftrightarrow> j = i"
    "f64_lt x (f64_of_int j) \<longleftrightarrow> i < j" "f64_lt (f64_of_int j) x \<longleftrightarrow> j < i"
    "f64_le x (f64_of_int j) \<longleftrightarrow> i \<le> j" "f64_le (f64_of_int j) x \<longleftrightarrow> j \<le> i"
  using f64_cmp_units [OF f64_holds_not_nan [OF assms(1)] f64_of_int_not_nan, of j]
    f64_cmp_units [OF f64_of_int_not_nan f64_holds_not_nan [OF assms(1)], of j]
    f64_units_of_int_cmp [OF assms, of j]
  by linarith+

lemma f64_holds_inj: "f64_holds x i \<Longrightarrow> f64_holds x j \<Longrightarrow> i = j"
  using f64_cmp_holds(1) [of x i x j] f64_cmp_holds(1) [of x i x i] by simp

lemma fits_53: "\<bar>i\<bar> \<le> 2 ^ 53 \<Longrightarrow> fits_i64 i"
  unfolding fits_i64_def by (auto simp: abs_le_iff)

end
