(* ===== verification/PassContract.thy ===== *)
theory PassContract
  imports HIR
begin

text \<open>
  The contract of the function passes, as \<open>PassManager::run\<close> and \<open>HIRFunctionPass::run\<close> rely
  on it: a pass returns without an error, reports a change whenever it made one, and keeps the
  name of the function. Every pass of the pipeline is an interpretation.
\<close>

locale honest_pass =
  fixes p :: function_pass
  assumes no_error: "success (fst (p m fn st))"
    and honest: "changed (fst (p m fn st)) \<or> snd (p m fn st) = (fn, st)"
    and keeps_name: "fn_name (fst (snd (p m fn st))) = fn_name fn"
begin

lemma run_functions_contract:
  assumes "success r" and "mod_functions m = pre @ fs"
  shows "success (fst (run_functions p m pre fs r)) \<and>
    map fn_name (mod_functions (snd (run_functions p m pre fs r))) = map fn_name (mod_functions m) \<and>
    mod_name (snd (run_functions p m pre fs r)) = mod_name m \<and>
    (changed r \<longrightarrow> changed (fst (run_functions p m pre fs r))) \<and>
    (changed (fst (run_functions p m pre fs r)) \<or> snd (run_functions p m pre fs r) = m)"
  using assms
proof (induction fs arbitrary: m pre r)
  case (Cons f fs)
  obtain fr f' st' where p: "p m f (mod_store m) = (fr, f', st')" by (rule prod_cases3)
  note c = no_error [of m f "mod_store m"] honest [of m f "mod_store m"] keeps_name [of m f "mod_store m"]
  let ?m = "m\<lparr>mod_functions := pre @ f' # fs, mod_store := st'\<rparr>"
  have ok: "success fr" "success (combine r fr)" using c p Cons.prems(1) by (simp_all add: success_def combine_def)
  have nm: "map fn_name (mod_functions ?m) = map fn_name (mod_functions m)" using c p Cons.prems(2) by simp
  have same: "changed fr \<or> ?m = m" using c(2) p Cons.prems(2) by auto
  have run: "run_functions p m pre (f # fs) r = run_functions p ?m (pre @ [f']) fs (combine r fr)"
    using p ok(1) by (simp add: Let_def)
  have ch: "changed (combine r fr) \<longleftrightarrow> changed r \<or> changed fr" by (simp add: combine_def)
  show ?case
    using Cons.IH [OF ok(2), of ?m "pre @ [f']"] nm same ch unfolding run by auto
qed simp

lemma run_contract:
  shows "success (fst (run_function_pass p m))"
    and "changed (fst (run_function_pass p m)) \<or> snd (run_function_pass p m) = m"
    and "map fn_name (mod_functions (snd (run_function_pass p m))) = map fn_name (mod_functions m)"
    and "mod_name (snd (run_function_pass p m)) = mod_name m"
  using run_functions_contract [of unchanged m "[]" "mod_functions m"]
  by (simp_all add: run_function_pass_def unchanged_def success_def)

end

end
