(* ===== verification/ConstFold.thy ===== *)
theory ConstFold
  imports Execution FloatOrder PassContract
begin

text \<open>
  Constant folding, \<open>src/src/compiler/hir/passes/ConstantFoldingPass.cpp\<close>: the pass walks
  the instructions in block order, records which values are constants and replaces an
  instruction whose operands are by the load of its result. The lemmas compare the folded
  constant with what the lowered instruction computes, and lift this to every execution of
  the function.
\<close>

section \<open>The pass\<close>

datatype const_value = CUnknown | CInt i64 | CFloat f64 | CBool bool | CString string
  | CNull | CUndefined

definition isKnown :: "const_value \<Rightarrow> bool" where
  "isKnown c \<longleftrightarrow> c \<noteq> CUnknown"

type_synonym constants = "vref \<Rightarrow> const_value option"

definition getConstant :: "constants \<Rightarrow> hoperand \<Rightarrow> const_value" where
  "getConstant cs x =
     (case x of OInt n \<Rightarrow> CInt n | OFloat d \<Rightarrow> CFloat d | OBool b \<Rightarrow> CBool b | OStr s \<Rightarrow> CString s
      | OVal (Some v) \<Rightarrow> (case cs v of Some c \<Rightarrow> c | None \<Rightarrow> CUnknown)
      | _ \<Rightarrow> CUnknown)"

text \<open>Shifts work on 32 bits; the other operations on the whole 64-bit constants. Addition,
  subtraction and multiplication wrap as compiled; \<open>a / b\<close> and \<open>a % b\<close> truncate.\<close>

definition foldIntArithmetic :: "hiropcode \<Rightarrow> i64 \<Rightarrow> i64 \<Rightarrow> const_value" where
  "foldIntArithmetic op a b =
     (if op = AddI64 then CInt (a + b)
      else if op = SubI64 then CInt (a - b)
      else if op = MulI64 then CInt (a * b)
      else if op = DivI64 then (if b = 0 then CUnknown else CInt (word_of_int (sint a sdiv sint b)))
      else if op = ModI64 then (if b = 0 then CUnknown else CInt (word_of_int (sint a smod sint b)))
      else if op = AndI64 then CInt (a AND b)
      else if op = OrI64 then CInt (a OR b)
      else if op = XorI64 then CInt (a XOR b)
      else if op = ShlI64 then CInt (sext64 (push_bit (unat (b AND 31)) (trunc32 a)))
      else if op = ShrI64 then CInt (sext64 (signed_drop_bit (unat (b AND 31)) (trunc32 a)))
      else if op = UShrI64 then CInt (zext64 (drop_bit (unat (b AND 31)) (trunc32 a)))
      else CUnknown)"

definition foldFloatArithmetic :: "hiropcode \<Rightarrow> f64 \<Rightarrow> f64 \<Rightarrow> const_value" where
  "foldFloatArithmetic op a b =
     (if op = AddF64 then CFloat (f64_add a b)
      else if op = SubF64 then CFloat (f64_sub a b)
      else if op = MulF64 then CFloat (f64_mul a b)
      else if op = DivF64 then CFloat (f64_div a b)
      else if op = ModF64 then CFloat (f64_fmod a b)
      else CUnknown)"

definition foldIntComparison :: "hiropcode \<Rightarrow> i64 \<Rightarrow> i64 \<Rightarrow> const_value" where
  "foldIntComparison op a b =
     (if op = CmpEqI64 then CBool (a = b)
      else if op = CmpNeI64 then CBool (a \<noteq> b)
      else if op = CmpLtI64 then CBool (sint a < sint b)
      else if op = CmpLeI64 then CBool (sint a \<le> sint b)
      else if op = CmpGtI64 then CBool (sint a > sint b)
      else if op = CmpGeI64 then CBool (sint a \<ge> sint b)
      else CUnknown)"

definition foldFloatComparison :: "hiropcode \<Rightarrow> f64 \<Rightarrow> f64 \<Rightarrow> const_value" where
  "foldFloatComparison op a b =
     (if op = CmpEqF64 then CBool (f64_eq a b)
      else if op = CmpNeF64 then CBool (\<not> f64_eq a b)
      else if op = CmpLtF64 then CBool (f64_lt a b)
      else if op = CmpLeF64 then CBool (f64_le a b)
      else if op = CmpGtF64 then CBool (f64_lt b a)
      else if op = CmpGeF64 then CBool (f64_le b a)
      else CUnknown)"

definition foldBooleanOp :: "hiropcode \<Rightarrow> bool \<Rightarrow> bool \<Rightarrow> const_value" where
  "foldBooleanOp op a b =
     (if op = LogicalAnd then CBool (a \<and> b)
      else if op = LogicalOr then CBool (a \<or> b)
      else CUnknown)"

definition foldStringConcat :: "string \<Rightarrow> string \<Rightarrow> const_value" where
  "foldStringConcat a b = CString (a @ b)"

lemma foldIntArithmetic_simps [simp]:
  "foldIntArithmetic AddI64 a b = CInt (a + b)"
  "foldIntArithmetic SubI64 a b = CInt (a - b)"
  "foldIntArithmetic MulI64 a b = CInt (a * b)"
  "foldIntArithmetic DivI64 a b = (if b = 0 then CUnknown else CInt (word_of_int (sint a sdiv sint b)))"
  "foldIntArithmetic ModI64 a b = (if b = 0 then CUnknown else CInt (word_of_int (sint a smod sint b)))"
  "foldIntArithmetic AndI64 a b = CInt (a AND b)"
  "foldIntArithmetic OrI64 a b = CInt (a OR b)"
  "foldIntArithmetic XorI64 a b = CInt (a XOR b)"
  "foldIntArithmetic ShlI64 a b = CInt (sext64 (push_bit (unat (b AND 31)) (trunc32 a)))"
  "foldIntArithmetic ShrI64 a b = CInt (sext64 (signed_drop_bit (unat (b AND 31)) (trunc32 a)))"
  "foldIntArithmetic UShrI64 a b = CInt (zext64 (drop_bit (unat (b AND 31)) (trunc32 a)))"
  by (simp_all add: foldIntArithmetic_def)

lemma foldFloatArithmetic_simps [simp]:
  "foldFloatArithmetic AddF64 a b = CFloat (f64_add a b)"
  "foldFloatArithmetic SubF64 a b = CFloat (f64_sub a b)"
  "foldFloatArithmetic MulF64 a b = CFloat (f64_mul a b)"
  "foldFloatArithmetic DivF64 a b = CFloat (f64_div a b)"
  "foldFloatArithmetic ModF64 a b = CFloat (f64_fmod a b)"
  by (simp_all add: foldFloatArithmetic_def)

lemma foldIntComparison_simps [simp]:
  "foldIntComparison CmpEqI64 a b = CBool (a = b)"
  "foldIntComparison CmpNeI64 a b = CBool (a \<noteq> b)"
  "foldIntComparison CmpLtI64 a b = CBool (sint a < sint b)"
  "foldIntComparison CmpLeI64 a b = CBool (sint a \<le> sint b)"
  "foldIntComparison CmpGtI64 a b = CBool (sint a > sint b)"
  "foldIntComparison CmpGeI64 a b = CBool (sint a \<ge> sint b)"
  by (simp_all add: foldIntComparison_def)

lemma foldFloatComparison_simps [simp]:
  "foldFloatComparison CmpEqF64 a b = CBool (f64_eq a b)"
  "foldFloatComparison CmpNeF64 a b = CBool (\<not> f64_eq a b)"
  "foldFloatComparison CmpLtF64 a b = CBool (f64_lt a b)"
  "foldFloatComparison CmpLeF64 a b = CBool (f64_le a b)"
  "foldFloatComparison CmpGtF64 a b = CBool (f64_lt b a)"
  "foldFloatComparison CmpGeF64 a b = CBool (f64_le b a)"
  by (simp_all add: foldFloatComparison_def)

lemma foldBooleanOp_simps [simp]:
  "foldBooleanOp LogicalAnd a b = CBool (a \<and> b)"
  "foldBooleanOp LogicalOr a b = CBool (a \<or> b)"
  by (simp_all add: foldBooleanOp_def)

text \<open>The replacement takes over the slot, and with it the address, of the instruction it
  frees; it carries no source location. The result's type is overwritten.\<close>

definition createConstInst ::
  "const_value \<Rightarrow> iref \<Rightarrow> vref option \<Rightarrow> hstore \<Rightarrow> (hinst \<times> hstore) option" where
  "createConstInst c a res st =
     (let put = (\<lambda>op xs k. Some ((mk_inst op a)\<lparr>operands := xs, result := res\<rparr>,
                    case res of Some r \<Rightarrow> set_type r (Some (mkType k)) st | None \<Rightarrow> st))
      in case c of
           CInt n \<Rightarrow> put ConstInt [OInt n] KInt64
         | CFloat d \<Rightarrow> put ConstFloat [OFloat d] KFloat64
         | CBool b \<Rightarrow> put ConstBool [OBool b] KBool
         | CString s \<Rightarrow> put ConstString [OStr s] KString
         | CNull \<Rightarrow> put ConstNull [] KAny
         | CUndefined \<Rightarrow> put ConstUndefined [] KAny
         | CUnknown \<Rightarrow> None)"

definition int_arith_ops :: "hiropcode set" where
  "int_arith_ops = {AddI64, SubI64, MulI64, DivI64, ModI64, AndI64, OrI64, XorI64,
     ShlI64, ShrI64, UShrI64}"
definition float_arith_ops :: "hiropcode set" where
  "float_arith_ops = {AddF64, SubF64, MulF64, DivF64, ModF64}"
definition int_cmp_ops :: "hiropcode set" where
  "int_cmp_ops = {CmpEqI64, CmpNeI64, CmpLtI64, CmpLeI64, CmpGtI64, CmpGeI64}"
definition float_cmp_ops :: "hiropcode set" where
  "float_cmp_ops = {CmpEqF64, CmpNeF64, CmpLtF64, CmpLeF64, CmpGtF64, CmpGeF64}"

text \<open>The constant \<open>tryFold\<close> finds, \<open>CUnknown\<close> where it returns a null pointer.\<close>

definition fold2 :: "hiropcode \<Rightarrow> const_value \<Rightarrow> const_value \<Rightarrow> const_value" where
  "fold2 op a b =
     (if op \<in> int_arith_ops then
        (case (a, b) of (CInt x, CInt y) \<Rightarrow> foldIntArithmetic op x y | _ \<Rightarrow> CUnknown)
      else if op \<in> float_arith_ops then
        (case (a, b) of (CFloat x, CFloat y) \<Rightarrow> foldFloatArithmetic op x y | _ \<Rightarrow> CUnknown)
      else if op \<in> int_cmp_ops then
        (case (a, b) of (CInt x, CInt y) \<Rightarrow> foldIntComparison op x y | _ \<Rightarrow> CUnknown)
      else if op \<in> float_cmp_ops then
        (case (a, b) of (CFloat x, CFloat y) \<Rightarrow> foldFloatComparison op x y | _ \<Rightarrow> CUnknown)
      else if op \<in> {LogicalAnd, LogicalOr} then
        (case (a, b) of (CBool x, CBool y) \<Rightarrow> foldBooleanOp op x y | _ \<Rightarrow> CUnknown)
      else if op = StringConcat then
        (case (a, b) of (CString x, CString y) \<Rightarrow> foldStringConcat x y | _ \<Rightarrow> CUnknown)
      else CUnknown)"

definition fold1 :: "hiropcode \<Rightarrow> const_value \<Rightarrow> const_value" where
  "fold1 op a =
     (if op = NegI64 then (case a of CInt x \<Rightarrow> CInt (- x) | _ \<Rightarrow> CUnknown)
      else if op = NotI64 then (case a of CInt x \<Rightarrow> CInt (NOT x) | _ \<Rightarrow> CUnknown)
      else if op = NegF64 then (case a of CFloat x \<Rightarrow> CFloat (f64_neg x) | _ \<Rightarrow> CUnknown)
      else if op = LogicalNot then (case a of CBool x \<Rightarrow> CBool (\<not> x) | _ \<Rightarrow> CUnknown)
      else if op = CastI64ToF64 then (case a of CInt x \<Rightarrow> CFloat (f64_of_int (sint x)) | _ \<Rightarrow> CUnknown)
      else if op = CastF64ToI64 then (case a of CFloat x \<Rightarrow> CInt (f64_to_i64 x) | _ \<Rightarrow> CUnknown)
      else if op = CastBoolToI64 then (case a of CBool x \<Rightarrow> CInt (if x then 1 else 0) | _ \<Rightarrow> CUnknown)
      else CUnknown)"

definition fold2_ops :: "hiropcode set" where
  "fold2_ops = int_arith_ops \<union> float_arith_ops \<union> int_cmp_ops \<union> float_cmp_ops \<union>
     {LogicalAnd, LogicalOr, StringConcat}"

definition fold_const :: "constants \<Rightarrow> hinst \<Rightarrow> const_value" where
  "fold_const cs i =
     (if opcode i \<in> fold2_ops then
        (case operands i of
           x # y # _ \<Rightarrow> fold2 (opcode i) (getConstant cs x) (getConstant cs y)
         | _ \<Rightarrow> CUnknown)
      else
        (case operands i of
           x # _ \<Rightarrow> fold1 (opcode i) (getConstant cs x)
         | _ \<Rightarrow> CUnknown))"

definition tryFold :: "constants \<Rightarrow> hinst \<Rightarrow> hstore \<Rightarrow> (hinst \<times> hstore) option" where
  "tryFold cs i st = createConstInst (fold_const cs i) (iaddr i) (result i) st"

text \<open>The two switches of \<open>runOnFunction\<close> that read the constant of an instruction: the second,
  on a replacement, has no cases for null and undefined. \<open>operands[0]\<close> of a constant without
  operands is outside the C++ semantics; here it is no match.\<close>

definition const_of :: "hinst \<Rightarrow> const_value" where
  "const_of i =
     (if opcode i = ConstInt then (case operands i of OInt n # _ \<Rightarrow> CInt n | _ \<Rightarrow> CUnknown)
      else if opcode i = ConstFloat then (case operands i of OFloat d # _ \<Rightarrow> CFloat d | _ \<Rightarrow> CUnknown)
      else if opcode i = ConstBool then (case operands i of OBool b # _ \<Rightarrow> CBool b | _ \<Rightarrow> CUnknown)
      else if opcode i = ConstString then (case operands i of OStr s # _ \<Rightarrow> CString s | _ \<Rightarrow> CUnknown)
      else CUnknown)"

definition const_of_orig :: "hinst \<Rightarrow> const_value" where
  "const_of_orig i =
     (if opcode i = ConstNull then CNull
      else if opcode i = ConstUndefined then CUndefined
      else const_of i)"

definition track :: "vref option \<Rightarrow> const_value \<Rightarrow> constants \<Rightarrow> constants" where
  "track r c cs = (case r of Some v \<Rightarrow> if isKnown c then cs(v \<mapsto> c) else cs | None \<Rightarrow> cs)"

record cf_state =
  cf_constants :: constants
  cf_store :: hstore
  cf_changed :: bool

definition cf_step :: "cf_state \<Rightarrow> hinst \<Rightarrow> cf_state \<times> hinst" where
  "cf_step s i =
     (let cs = track (result i) (const_of_orig i) (cf_constants s)
      in case tryFold cs i (cf_store s) of
           None \<Rightarrow> (s\<lparr>cf_constants := cs\<rparr>, i)
         | Some (j, st) \<Rightarrow>
             (\<lparr>cf_constants = track (result j) (const_of j) cs, cf_store = st, cf_changed = True\<rparr>, j))"

definition cf_start :: "hstore \<Rightarrow> cf_state" where
  "cf_start st = \<lparr>cf_constants = Map.empty, cf_store = st, cf_changed = False\<rparr>"

definition cf_runOnFunction :: function_pass where
  "cf_runOnFunction m fn st =
     (let (s, fn') = walk_fn cf_step (cf_start st) fn
      in (result_of (cf_changed s), fn', cf_store s))"


section \<open>Folded constants against lowered instructions\<close>

text \<open>A run-time value shows a constant. The bitwise opcodes lower to doubles, so an integer
  constant may be held by a double; no other opcode does this.\<close>

definition loads :: "runtime \<Rightarrow> const_value \<Rightarrow> rtval \<Rightarrow> bool" where
  "loads rt c v =
     (case c of
        CInt n \<Rightarrow> v = RI64 n \<or> (\<exists>d. v = RF64 d \<and> f64_holds d (sint n) \<and> \<bar>sint n\<bar> < 2 ^ 32)
      | CFloat d \<Rightarrow> v = RF64 d
      | CBool b \<Rightarrow> v = RI1 b
      | CString s \<Rightarrow> (\<exists>p. v = RPtr p \<and> rt_string rt p = Some s)
      | CNull \<Rightarrow> v = lowerConstNull
      | CUndefined \<Rightarrow> v = lowerConstUndefined
      | CUnknown \<Rightarrow> True)"

lemma loads_simps [simp]:
  "loads rt (CFloat d) v \<longleftrightarrow> v = RF64 d"
  "loads rt (CBool b) v \<longleftrightarrow> v = RI1 b"
  "loads rt CUnknown v"
  "loads rt (CInt n) (RI64 a) \<longleftrightarrow> a = n"
  "loads rt (CString s) v \<longleftrightarrow> (\<exists>p. v = RPtr p \<and> rt_string rt p = Some s)"
  by (auto simp: loads_def)

lemma loads_intE:
  assumes "loads rt (CInt n) v"
  obtains "v = RI64 n" | d where "v = RF64 d" "f64_holds d (sint n)" "\<bar>sint n\<bar> < 2 ^ 32"
  using assms by (auto simp: loads_def)

lemma coerce_loads:
  assumes "loads rt (CInt n) v"
  shows "coerceToI64Operand v = n" and "ensureI64ForBitwise v = n"
proof -
  have "f64_to_i64 d = n" if "f64_holds d (sint n)" for d
    using f64_to_i64_holds [OF that] by simp
  then show "coerceToI64Operand v = n" "ensureI64ForBitwise v = n"
    using assms by (auto elim!: loads_intE simp: coerceToI64Operand_def ensureI64ForBitwise_def)
qed

lemma i32_to_f64_loads: "i32_to_f64 w = Some v \<Longrightarrow> loads rt (CInt (sext64 w)) v"
proof -
  have b: "\<bar>sint w\<bar> < 2 ^ 32"
    using sint_ge [of w] sint_lt [of w] by simp
  then show "i32_to_f64 w = Some v \<Longrightarrow> loads rt (CInt (sext64 w)) v"
    using f64_of_int_holds [of "sint w"] by (auto simp: i32_to_f64_def loads_def sint_sext64)
qed

lemma sext_trunc:
  assumes "fits_i32 (sint a)"
  shows "sext64 (trunc32 a) = a"
proof -
  have "sint (trunc32 a) = sint a" using sint_of_int_32 [OF assms] by (simp only: trunc32_of_int)
  then have "sint (sext64 (trunc32 a)) = sint a" by (simp add: sint_sext64)
  then show ?thesis by (simp only: sint_eq_iff)
qed

lemma trunc32_bitwise:
  "trunc32 a AND trunc32 b = trunc32 (a AND b)" "trunc32 a OR trunc32 b = trunc32 (a OR b)"
  "trunc32 a XOR trunc32 b = trunc32 (a XOR b)" "NOT (trunc32 a) = trunc32 (NOT a)"
  by (rule bit_word_eqI; simp add: trunc32_def bit_simps)+

lemma sext64_bitwise:
  "sext64 (a AND b) = sext64 a AND sext64 b" "sext64 (a OR b) = sext64 a OR sext64 b"
  "sext64 (a XOR b) = sext64 a XOR sext64 b" "sext64 (NOT a) = NOT (sext64 a)"
  by (rule bit_word_eqI; auto simp: sext64_def bit_simps)+

text \<open>Binary opcodes: what \<open>fold2\<close> computes is what the lowered instruction loads.\<close>

definition bitwise_ops :: "hiropcode set" where
  "bitwise_ops = {AndI64, OrI64, XorI64, NotI64}"

lemma zext_loads: "loads rt (CInt (zext64 w)) (RF64 (f64_of_int (uint (zext64 w))))"
proof -
  have u: "uint (zext64 w) = uint w" by (simp add: zext64_def uint_up_ucast is_up)
  have b: "uint w < 2 ^ 32" using uint_bounded [of w] by simp
  then show ?thesis using f64_of_int_holds [of "uint w"] by (simp add: loads_def u sint_zext64)
qed

lemmas int_ops_defs = lowerAddI64_def lowerSubI64_def lowerMulI64_def lowerDivI64_def lowerModI64_def
  lowerAndI64_def lowerOrI64_def lowerXorI64_def lowerShlI64_def lowerShrI64_def lowerUShrI64_def

lemma fold_int_arith:
  assumes "loads rt (CInt a) l" and "loads rt (CInt b) r"
    and "op \<in> int_arith_ops" and "lower_binary rt k op l r = Some v"
    and "op \<in> bitwise_ops \<Longrightarrow> fits_i32 (sint a) \<and> fits_i32 (sint b)"
  shows "loads rt (foldIntArithmetic op a b) v"
proof -
  note c = coerce_loads [OF assms(1)] coerce_loads [OF assms(2)]
  note d = c int_ops_defs Let_def sdiv_undefined_def shamt_trunc
  have f: "sext64 (trunc32 x) = x" "sext64 (trunc32 y) = y"
    if "fits_i32 (sint x) \<and> fits_i32 (sint y)" for x y using that sext_trunc by auto
  consider "op \<in> {AddI64, SubI64, MulI64}" | "op \<in> {DivI64, ModI64}" | "op \<in> {AndI64, OrI64, XorI64}"
    | "op \<in> {ShlI64, ShrI64}" | "op = UShrI64"
    using assms(3) by (auto simp: int_arith_ops_def)
  then show ?thesis
  proof cases
    case 1
    then show ?thesis using assms(4) by (auto simp: d)
  next
    case 2
    then show ?thesis using assms(4) by (auto simp: d split: if_splits)
  next
    case 3
    then have "fits_i32 (sint a) \<and> fits_i32 (sint b)" using assms(5) by (auto simp: bitwise_ops_def)
    with 3 assms(4) show ?thesis
      by (auto simp: d f sext64_bitwise dest!: i32_to_f64_loads [where rt = rt])
  next
    case 4
    then show ?thesis using assms(4)
      by (auto simp: d dest!: i32_to_f64_loads [where rt = rt])
  next
    case 5
    then show ?thesis using assms(4)
      using zext_loads by (auto simp: d)
  qed
qed

text \<open>Comparisons: a constant held by a double compares like the integer it holds, with an
  integer of any size.\<close>

lemma normalize_ordering_simps [simp]:
  "normalize_ordering (RI64 a) (RI64 b) = Inr (RI64 a, RI64 b)"
  "normalize_ordering (RF64 x) (RF64 y) = Inl (x, y)"
  "normalize_ordering (RF64 x) (RI64 b) = Inl (x, f64_of_int (sint b))"
  "normalize_ordering (RI64 a) (RF64 y) = Inl (f64_of_int (sint a), y)"
  by (simp_all add: normalize_ordering_def)

lemma eq_loads:
  assumes "loads rt (CInt a) l" and "loads rt (CInt b) r"
  shows "lowerCmpEqI64 rt lk rk lnull rnull l r = Some (RI1 (a = b))"
    and "lowerCmpNeI64 rt lk rk lnull rnull l r = Some (RI1 (a \<noteq> b))"
  using assms
  by (auto elim!: loads_intE simp: lowerCmpEqI64_def lowerCmpNeI64_def eq_i64_operands_def
      eq_lowered_def f64_cmp_of_int f64_cmp_holds sint_eq_iff)

lemma order_loads:
  assumes "loads rt (CInt a) l" and "loads rt (CInt b) r"
    and "\<And>x y i j. f64_holds x i \<Longrightarrow> f64_holds y j \<Longrightarrow> fcmp x y = icmp i j"
    and "\<And>x i j. f64_holds x i \<Longrightarrow> \<bar>i\<bar> < 2 ^ 53 \<Longrightarrow>
      fcmp x (f64_of_int j) = icmp i j \<and> fcmp (f64_of_int j) x = icmp j i"
  shows "order_lowered fcmp icmp l r = Some (RI1 (icmp (sint a) (sint b)))"
  using assms(1,2) by (auto elim!: loads_intE simp: order_lowered_def assms(3,4))

lemma fold_int_cmp:
  assumes "loads rt (CInt a) l" and "loads rt (CInt b) r"
    and "op \<in> int_cmp_ops" and "lower_binary rt k op l r = Some v"
  shows "loads rt (foldIntComparison op a b) v"
proof -
  note o = order_loads [OF assms(1,2)]
  have "lowerCmpLtI64 l r = Some (RI1 (sint a < sint b))"
    and "lowerCmpLeI64 l r = Some (RI1 (sint a \<le> sint b))"
    and "lowerCmpGtI64 l r = Some (RI1 (sint a > sint b))"
    and "lowerCmpGeI64 l r = Some (RI1 (sint a \<ge> sint b))"
    unfolding lowerCmpLtI64_def lowerCmpLeI64_def lowerCmpGtI64_def lowerCmpGeI64_def
    by (rule o; simp add: f64_cmp_of_int f64_cmp_holds)+
  then show ?thesis
    using assms(3,4) eq_loads [OF assms(1,2)] by (auto simp: int_cmp_ops_def)
qed

lemma fold_float:
  assumes "lower_binary rt k op (RF64 a) (RF64 b) = Some v"
  shows "op \<in> float_arith_ops \<Longrightarrow> loads rt (foldFloatArithmetic op a b) v"
    and "op \<in> float_cmp_ops \<Longrightarrow> loads rt (foldFloatComparison op a b) v"
  using assms
  by (auto simp: float_arith_ops_def float_cmp_ops_def
      lowerAddF64_def lowerSubF64_def lowerMulF64_def lowerDivF64_def lowerModF64_def
      lowerCmpEqF64_def lowerCmpNeF64_def lowerCmpLtF64_def lowerCmpLeF64_def lowerCmpGtF64_def
      lowerCmpGeF64_def coerce_f64_def)

lemma fold_bool:
  "lower_binary rt k op (RI1 a) (RI1 b) = Some v \<Longrightarrow> op \<in> {LogicalAnd, LogicalOr} \<Longrightarrow>
   loads rt (foldBooleanOp op a b) v"
  by (auto simp: lowerLogicalAnd_def lowerLogicalOr_def)

lemma fold2_loads:
  assumes "loads rt a l" and "loads rt b r" and "lower_binary rt k op l r = Some v" and "op \<noteq> StringConcat"
    and "\<And>x. op \<in> bitwise_ops \<Longrightarrow> a = CInt x \<or> b = CInt x \<Longrightarrow> fits_i32 (sint x)"
  shows "loads rt (fold2 op a b) v"
proof -
  have small: "op \<in> bitwise_ops \<Longrightarrow> fits_i32 (sint x) \<and> fits_i32 (sint y)" if "a = CInt x" "b = CInt y" for x y
    using assms(5) that by blast
  consider x y where "a = CInt x" "b = CInt y" | x y where "a = CFloat x" "b = CFloat y"
    | x y where "a = CBool x" "b = CBool y" | "fold2 op a b = CUnknown"
    using assms(4) by (cases a; cases b) (simp_all add: fold2_def)
  then show ?thesis
  proof cases
    case (1 x y)
    then show ?thesis
      using fold_int_arith [of rt x l y r op k v] fold_int_cmp [of rt x l y r op k v] small assms
      by (simp add: fold2_def)
  next
    case (2 x y)
    then show ?thesis using fold_float [of rt k op x y v] assms by (simp add: fold2_def)
  next
    case (3 x y)
    then show ?thesis using fold_bool [of rt k op x y v] assms by (simp add: fold2_def)
  qed simp
qed

lemma fold1_loads:
  assumes "loads rt a l" and "lower_unary rt op l = Some v"
    and "\<And>x. op \<in> bitwise_ops \<Longrightarrow> a = CInt x \<Longrightarrow> fits_i32 (sint x)"
  shows "loads rt (fold1 op a) v"
proof -
  note defs = fold1_def lowerNegI64_def lowerNotI64_def lowerNegF64_def lowerLogicalNot_def
    lowerCastI64ToF64_def lowerCastF64ToI64_def lowerCastBoolToI64_def coerce_f64_def sitofp_def bool_i64_def
  show ?thesis
  proof (cases a)
    case (CInt x)
    have n: "sext64 (trunc32 (NOT x)) = NOT x" if "op = NotI64"
      using assms(3) [of x] that CInt sext_trunc [of x] by (simp add: bitwise_ops_def sext64_bitwise flip: trunc32_bitwise)
    have c: "loads rt (CFloat (f64_of_int (sint x))) v" if "op = CastI64ToF64"
      using assms(1,2) that unfolding CInt by (auto simp: defs elim!: loads_intE)
    show ?thesis
      using assms(1,2) coerce_loads [of rt x l] n c i32_to_f64_loads [of "trunc32 (NOT x)" v rt]
      by (auto simp: CInt fold1_def lowerNegI64_def lowerNotI64_def trunc32_bitwise)
  qed (use assms(1,2) in \<open>auto simp: defs\<close>)
qed

section \<open>The pass on every execution\<close>

text \<open>The recorded constants are right in an environment.\<close>

definition constants_hold :: "runtime \<Rightarrow> constants \<Rightarrow> env \<Rightarrow> bool" where
  "constants_hold rt cs env \<longleftrightarrow> (\<forall>v c x. cs v = Some c \<longrightarrow> env v = Some x \<longrightarrow> loads rt c x)"

lemma getConstant_loads:
  "constants_hold rt cs env \<Longrightarrow> getOperandValue env x = Some l \<Longrightarrow> loads rt (getConstant cs x) l"
  by (auto simp: constants_hold_def getOperandValue_def getConstant_def
      split: hoperand.splits option.splits)

text \<open>No bitwise instruction meets, in any run, an operand outside the int32 range.\<close>

definition bitwise_small :: "runtime \<Rightarrow> hinst list \<Rightarrow> bool" where
  "bitwise_small rt is \<longleftrightarrow>
     (\<forall>env i x l. reach rt is env \<longrightarrow> i \<in> set is \<longrightarrow> opcode i \<in> bitwise_ops \<longrightarrow>
        x \<in> set (operands i) \<longrightarrow> getOperandValue env x = Some l \<longrightarrow>
        fits_i32 (sint (ensureI64ForBitwise l)))"

lemma fold2_ops_iff: "op \<in> fold2_ops \<longleftrightarrow> op \<in> binary_ops \<or> op = StringConcat"
  unfolding fold2_ops_def binary_ops_def int_arith_ops_def float_arith_ops_def int_cmp_ops_def
    float_cmp_ops_def by blast

lemma const_ops_disjoint: "op \<in> const_ops \<Longrightarrow> op \<notin> fold2_ops \<and> op \<notin> unary_ops"
  unfolding const_ops_def fold2_ops_def unary_ops_def int_arith_ops_def float_arith_ops_def
    int_cmp_ops_def float_cmp_ops_def by auto

lemma fold1_not_unary: "op \<notin> unary_ops \<Longrightarrow> fold1 op a = CUnknown"
  by (simp add: fold1_def unary_ops_def)

lemma unary_not_fold2: "op \<in> unary_ops \<Longrightarrow> op \<notin> fold2_ops"
  unfolding fold2_ops_def unary_ops_def int_arith_ops_def float_arith_ops_def int_cmp_ops_def
    float_cmp_ops_def by auto

lemma fold_const_loads:
  assumes "computes rt i env v" and "constants_hold rt cs env"
    and "bitwise_small rt is" and "reach rt is env" and "i \<in> set is"
  shows "loads rt (fold_const cs i) v"
proof -
  have small: "fits_i32 (sint n)"
    if "opcode i \<in> bitwise_ops" "x \<in> set (operands i)" "getOperandValue env x = Some l"
      "getConstant cs x = CInt n" for x l n
    using assms(3-5) that getConstant_loads [OF assms(2) that(3)] coerce_loads(2) [of rt n l]
    unfolding bitwise_small_def by (metis)
  show ?thesis
    using assms(1)
  proof (rule computesE)
    assume "opcode i \<in> const_ops"
    then show ?thesis
      using const_ops_disjoint fold1_not_unary by (auto simp: fold_const_def split: list.split)
  next
    fix x y zs l r k
    assume i: "opcode i \<in> binary_ops" "operands i = x # y # zs"
      "getOperandValue env x = Some l" "getOperandValue env y = Some r"
      "lower_binary rt k (opcode i) l r = Some v"
    have "opcode i \<noteq> StringConcat" using i(1) by (auto simp: binary_ops_def)
    moreover have "fits_i32 (sint n)"
      if "opcode i \<in> bitwise_ops" "getConstant cs x = CInt n \<or> getConstant cs y = CInt n" for n
      using small that i by auto
    ultimately have "loads rt (fold2 (opcode i) (getConstant cs x) (getConstant cs y)) v"
      using fold2_loads [OF getConstant_loads [OF assms(2) i(3)] getConstant_loads [OF assms(2) i(4)] i(5)]
      by blast
    then show ?thesis using i by (simp add: fold_const_def fold2_ops_iff)
  next
    fix x zs l
    assume i: "opcode i \<in> unary_ops" "operands i = x # zs" "getOperandValue env x = Some l"
      "lower_unary rt (opcode i) l = Some v"
    have "loads rt (fold1 (opcode i) (getConstant cs x)) v"
      using small [of x l] i
      by (intro fold1_loads [OF getConstant_loads [OF assms(2) i(3)] i(4)]) simp
    then show ?thesis using i unary_not_fold2 by (simp add: fold_const_def)
  next
    fix x y zs l r
    assume i: "opcode i = StringConcat" "operands i = x # y # zs" "getOperandValue env x = Some l"
      "getOperandValue env y = Some r" "concat_loads rt l r v"
    have "fold_const cs i = fold2 StringConcat (getConstant cs x) (getConstant cs y)"
      using i by (simp add: fold_const_def fold2_ops_iff)
    then show ?thesis
      using getConstant_loads [OF assms(2) i(3)] getConstant_loads [OF assms(2) i(4)] i(5)
      by (auto simp: fold2_def int_arith_ops_def float_arith_ops_def int_cmp_ops_def float_cmp_ops_def
          foldStringConcat_def concat_loads_def split: const_value.split)
  next
    assume "opcode i \<notin> computed_ops"
    then show ?thesis
      using fold1_not_unary by (auto simp: computed_ops_def fold_const_def fold2_ops_iff split: list.split)
  qed
qed

lemma const_of_loads:
  assumes "computes rt i env v"
  shows "loads rt (const_of_orig i) v"
proof (cases "opcode i \<in> const_ops")
  case True
  with assms have "const_loads rt i v"
    by (rule_tac computesE) (use const_ops_disjoint fold2_ops_iff in \<open>auto simp: computed_ops_def\<close>)
  then show ?thesis
    by (auto simp: const_loads_def const_of_orig_def const_of_def lowerConstInt_def lowerConstFloat_def
        lowerConstBool_def getOperandInt_def getOperandString_def loads_def
        split: list.split hoperand.split)
next
  case False
  then show ?thesis by (simp add: const_of_orig_def const_of_def const_ops_def)
qed


text \<open>Constants that are right in every reachable environment stay so when an instruction's
  constant is recorded.\<close>

definition constants_sound :: "runtime \<Rightarrow> hinst list \<Rightarrow> constants \<Rightarrow> bool" where
  "constants_sound rt is cs \<longleftrightarrow> (\<forall>env. reach rt is env \<longrightarrow> constants_hold rt cs env)"

lemma constants_sound_track:
  assumes "constants_sound rt is cs" and "ssa is" and "i \<in> set is"
    and "\<And>env x. reach rt is env \<Longrightarrow> computes rt i env x \<Longrightarrow> loads rt c x"
  shows "constants_sound rt is (track (result i) c cs)"
proof -
  have "loads rt c x" if "result i = Some v" "reach rt is env" "env v = Some x" for v env x
    using reach_value [OF that(2) assms(2,3) that(1), where P = "loads rt c"] assms(4) that(3) by blast
  then show ?thesis
    using assms(1) by (auto simp: constants_sound_def constants_hold_def track_def split: option.split)
qed

lemma createConstInst_Some:
  "createConstInst c a r st = Some (j, st') \<Longrightarrow>
     isKnown c \<and> const_of_orig j = c \<and> opcode j \<in> const_ops \<and> result j = r \<and> iaddr j = a"
  by (cases c) (auto simp: createConstInst_def isKnown_def const_of_orig_def const_of_def const_ops_def hir_defs)

text \<open>What a step of the pass leaves in a slot: the instruction itself, or a constant load
  that agrees with every execution of it.\<close>

definition folded :: "runtime \<Rightarrow> hinst list \<Rightarrow> hinst \<Rightarrow> hinst \<Rightarrow> bool" where
  "folded rt is i j \<longleftrightarrow> j = i \<or>
     (opcode j \<in> const_ops \<and> isKnown (const_of_orig j) \<and> result j = result i \<and> iaddr j = iaddr i \<and>
      (\<exists>cs. const_of_orig j = fold_const cs i) \<and>
      (\<forall>env x. reach rt is env \<longrightarrow> computes rt i env x \<longrightarrow> loads rt (const_of_orig j) x))"

lemma folds_not_null:
  "foldIntArithmetic op a b \<notin> {CNull, CUndefined}" "foldFloatArithmetic op x y \<notin> {CNull, CUndefined}"
  "foldIntComparison op a b \<notin> {CNull, CUndefined}" "foldFloatComparison op x y \<notin> {CNull, CUndefined}"
  "foldBooleanOp op p q \<notin> {CNull, CUndefined}"
  by (simp_all add: foldIntArithmetic_def foldFloatArithmetic_def foldIntComparison_def
      foldFloatComparison_def foldBooleanOp_def)

lemma fold2_not_null: "fold2 op a b \<notin> {CNull, CUndefined}"
  unfolding fold2_def
  by (cases a; cases b) (simp_all add: foldStringConcat_def folds_not_null [simplified])

lemma fold1_not_null: "fold1 op a \<notin> {CNull, CUndefined}"
  unfolding fold1_def by (cases a) simp_all

lemma fold_not_null: "fold_const cs i \<noteq> CNull \<and> fold_const cs i \<noteq> CUndefined"
  using fold2_not_null fold1_not_null by (simp add: fold_const_def split: list.split)

lemma cf_step_sound:
  assumes "ssa is" and "bitwise_small rt is" and "i \<in> set is" and "constants_sound rt is (cf_constants s)"
  shows "constants_sound rt is (cf_constants (fst (cf_step s i))) \<and> folded rt is i (snd (cf_step s i))"
proof -
  define cs where "cs = track (result i) (const_of_orig i) (cf_constants s)"
  have cs: "constants_sound rt is cs"
    unfolding cs_def using assms(4,1,3) const_of_loads by (rule constants_sound_track)
  have ld: "loads rt (fold_const cs i) x" if "reach rt is env" "computes rt i env x" for env x
    using that cs assms(2,3) fold_const_loads by (auto simp: constants_sound_def)
  show ?thesis
  proof (cases "tryFold cs i (cf_store s)")
    case None
    then show ?thesis using cs by (simp add: cf_step_def cs_def folded_def)
  next
    case (Some p)
    obtain j st where p: "p = (j, st)" by force
    have "createConstInst (fold_const cs i) (iaddr i) (result i) (cf_store s) = Some (j, st)"
      using Some p by (simp add: tryFold_def)
    note j = createConstInst_Some [OF this]
    have "const_of j = fold_const cs i"
      using j fold_not_null [of cs i] by (auto simp: const_of_orig_def split: if_splits)
    moreover have "constants_sound rt is (track (result i) (fold_const cs i) cs)"
      using cs assms(1,3) ld by (rule constants_sound_track)
    ultimately show ?thesis
      using Some p j ld by (auto simp: cf_step_def folded_def simp flip: cs_def)
  qed
qed

lemma cf_runOnFunction_eq:
  "cf_runOnFunction m fn st = (r, fn', st') \<Longrightarrow> fn' = snd (walk_fn cf_step (cf_start st) fn)"
  by (auto simp: cf_runOnFunction_def split: prod.splits)

lemma cf_folded:
  assumes "cf_runOnFunction m fn st = (r, fn', st')" and "ssa (fn_insts fn)"
    and "bitwise_small rt (fn_insts fn)"
  shows "fn_rel (folded rt (fn_insts fn)) fn fn'"
proof -
  have "constants_sound rt (fn_insts fn) (cf_constants (cf_start st))"
    by (simp add: cf_start_def constants_sound_def constants_hold_def)
  with walk_fn_rel [of "\<lambda>s. constants_sound rt (fn_insts fn) (cf_constants s)" fn cf_step]
    cf_step_sound [OF assms(2,3)]
  show ?thesis unfolding cf_runOnFunction_eq [OF assms(1)] by blast
qed

text \<open>Without bitwise opcodes every replacement loads exactly the value.\<close>

definition bit_ops :: "hiropcode set" where
  "bit_ops = bitwise_ops \<union> {ShlI64, ShrI64, UShrI64}"

lemma folds_not_int:
  "foldFloatArithmetic op x y \<noteq> CInt n" "foldIntComparison op a b \<noteq> CInt n"
  "foldFloatComparison op x y \<noteq> CInt n" "foldBooleanOp op p q \<noteq> CInt n"
  by (simp_all add: foldFloatArithmetic_def foldIntComparison_def foldFloatComparison_def foldBooleanOp_def)

lemma fold2_int: "fold2 op a b = CInt n \<Longrightarrow> op \<in> int_arith_ops"
  unfolding fold2_def
  by (cases a; cases b) (simp_all add: folds_not_int foldStringConcat_def split: if_splits)

lemma fold1_int: "fold1 op a = CInt n \<Longrightarrow> op \<in> {NegI64, NotI64, CastF64ToI64, CastBoolToI64}"
  unfolding fold1_def by (cases a) (simp_all split: if_splits)

definition int_valued_ops :: "hiropcode set" where
  "int_valued_ops = {AddI64, SubI64, MulI64, DivI64, ModI64, NegI64, CastF64ToI64, CastBoolToI64}"

lemma int_valued_not_double:
  "op \<in> int_valued_ops \<Longrightarrow> op \<in> binary_ops \<Longrightarrow> lower_binary rt k op l r = Some x \<Longrightarrow> x \<noteq> RF64 d"
  "op \<in> int_valued_ops \<Longrightarrow> op \<in> unary_ops \<Longrightarrow> lower_unary rt op l = Some x \<Longrightarrow> x \<noteq> RF64 d"
proof -
  have "op \<in> int_valued_ops \<Longrightarrow> op \<in> binary_ops \<Longrightarrow> op \<in> {AddI64, SubI64, MulI64, DivI64, ModI64}"
    by (auto simp: int_valued_ops_def binary_ops_def)
  then show "op \<in> int_valued_ops \<Longrightarrow> op \<in> binary_ops \<Longrightarrow> lower_binary rt k op l r = Some x \<Longrightarrow> x \<noteq> RF64 d"
    by (auto simp: int_ops_defs Let_def split: if_splits)
  have "op \<in> int_valued_ops \<Longrightarrow> op \<in> unary_ops \<Longrightarrow> op \<in> {NegI64, CastF64ToI64, CastBoolToI64}"
    by (auto simp: int_valued_ops_def unary_ops_def)
  then show "op \<in> int_valued_ops \<Longrightarrow> op \<in> unary_ops \<Longrightarrow> lower_unary rt op l = Some x \<Longrightarrow> x \<noteq> RF64 d"
    by (auto simp: lowerNegI64_def lowerCastF64ToI64_def lowerCastBoolToI64_def split: rtval.splits)
qed

lemma int_valued_computed:
  "op \<in> int_valued_ops \<Longrightarrow> op \<in> computed_ops \<and> op \<notin> const_ops \<and> op \<noteq> StringConcat"
  by (auto simp: int_valued_ops_def computed_ops_def const_ops_def binary_ops_def unary_ops_def)

lemma fold_const_int_ops:
  assumes "fold_const cs i = CInt n" and "opcode i \<notin> bit_ops"
  shows "opcode i \<in> int_valued_ops"
proof -
  have "opcode i \<in> int_arith_ops \<union> {NegI64, NotI64, CastF64ToI64, CastBoolToI64}"
    using assms(1) fold2_int [of "opcode i" _ _ n] fold1_int [of "opcode i" _ n]
    unfolding fold_const_def by (auto simp del: insert_iff split: list.splits if_splits)
  with assms(2) show ?thesis
    unfolding int_arith_ops_def bit_ops_def bitwise_ops_def int_valued_ops_def by blast
qed

lemma fold_const_int_not_double:
  assumes "computes rt i env x" and "fold_const cs i = CInt n" and "opcode i \<notin> bit_ops"
  shows "x \<noteq> RF64 d"
  using assms(1) fold_const_int_ops [OF assms(2,3)] int_valued_computed int_valued_not_double
  by (blast elim: computesE)

lemma const_of_orig_cases:
  "const_of_orig j = CInt n \<Longrightarrow> opcode j = ConstInt \<and> operands j \<noteq> [] \<and> hd (operands j) = OInt n"
  "const_of_orig j = CFloat d \<Longrightarrow> opcode j = ConstFloat \<and> (\<exists>xs. operands j = OFloat d # xs)"
  "const_of_orig j = CBool b \<Longrightarrow> opcode j = ConstBool \<and> (\<exists>xs. operands j = OBool b # xs)"
  "const_of_orig j = CString s \<Longrightarrow> opcode j = ConstString \<and> operands j \<noteq> [] \<and> hd (operands j) = OStr s"
  "const_of_orig j = CNull \<Longrightarrow> opcode j = ConstNull"
  "const_of_orig j = CUndefined \<Longrightarrow> opcode j = ConstUndefined"
  by (simp_all add: const_of_orig_def const_of_def split: if_splits list.splits hoperand.splits)

lemma loads_const_loads:
  assumes "loads rt (const_of_orig j) x" and "isKnown (const_of_orig j)"
    and "\<And>n d. const_of_orig j = CInt n \<Longrightarrow> x \<noteq> RF64 d"
  shows "const_loads rt j x"
proof (cases "const_of_orig j")
  case CUnknown
  then show ?thesis using assms(2) by (simp add: isKnown_def)
qed (use assms const_of_orig_cases [of j] in
  \<open>auto simp: const_loads_def loads_def lowerConstInt_def lowerConstFloat_def lowerConstBool_def
     getOperandInt_def getOperandString_def\<close>)

lemma bitwise_small_trivial:
  "(\<And>i. i \<in> set is \<Longrightarrow> opcode i \<notin> bit_ops) \<Longrightarrow> bitwise_small rt is"
  by (auto simp: bitwise_small_def bit_ops_def)

lemma folded_computes:
  assumes "folded rt is i j" and "opcode i \<notin> bit_ops" and "reach rt is env" and "computes rt i env x"
  shows "computes rt j env x" and "result j = result i"
proof -
  have "computes rt j env x \<and> result j = result i"
  proof (cases "j = i")
    case False
    with assms obtain cs where j: "opcode j \<in> const_ops" "isKnown (const_of_orig j)" "result j = result i"
      "const_of_orig j = fold_const cs i" "loads rt (const_of_orig j) x"
      by (auto simp: folded_def)
    then have "x \<noteq> RF64 d" if "const_of_orig j = CInt n" for n d
      using fold_const_int_not_double [OF assms(4) _ assms(2), of cs n d] that by simp
    then have "const_loads rt j x" using j by (intro loads_const_loads) blast+
    then show ?thesis using j computes_const by blast
  qed (use assms in simp)
  then show "computes rt j env x" and "result j = result i" by blast+
qed

lemma folded_result: "folded rt is i j \<Longrightarrow> result j = result i"
  by (auto simp: folded_def)

lemma folded_results:
  assumes "list_all2 (folded rt is) xs ys"
  shows "results ys = results xs"
  using assms by (induction rule: list_all2_induct) (simp_all add: folded_result split: option.split)

lemma reach_folded:
  assumes "list_all2 (folded rt is) is js" and "\<And>i. i \<in> set is \<Longrightarrow> opcode i \<notin> bit_ops"
    and "reach rt is env"
  shows "reach rt js env"
  using assms(3)
proof induction
  case (reach_init env)
  then show ?case using folded_results [OF assms(1)] by (intro reach.reach_init) simp
next
  case (reach_step env i x)
  obtain j where j: "j \<in> set js" "folded rt is i j"
    using assms(1) reach_step.hyps(2) by (metis in_set_conv_nth list_all2_conv_all_nth)
  show ?case
    using reach.reach_step [OF reach_step.IH j(1)]
      folded_computes [OF j(2) assms(2) [OF reach_step.hyps(2)] reach_step.hyps(1,3)] by simp
qed

lemma cf_step_flag:
  "\<not> cf_changed (fst (cf_step s i)) \<Longrightarrow>
   snd (cf_step s i) = i \<and> \<not> cf_changed s \<and> cf_store (fst (cf_step s i)) = cf_store s"
  by (auto simp: cf_step_def Let_def split: option.splits prod.splits)

section \<open>Properties\<close>


definition cf_example :: hfunction where
  "cf_example = \<lparr>fn_name = ''f'', mangledName = ''f'', fn_returnType = None, fn_params = [],
     blocks = [\<lparr>baddr = 0, blk_label = ''entry'', blk_params = [],
       instructions = [(mk_inst ConstInt 0)\<lparr>result := Some 0, operands := [OInt 6]\<rparr>,
         (mk_inst AndI64 1)\<lparr>result := Some 1, operands := [OInt 12, OInt 10]\<rparr>,
         (mk_inst MulI64 2)\<lparr>result := Some 2, operands := [OVal (Some 0), OVal (Some 1)]\<rparr>,
         (mk_inst Return 3)\<lparr>operands := [OVal (Some 2)]\<rparr>],
       predecessors = [], successors = []\<rparr>],
     captures = [], isAsync = False, isGenerator = False, nextValueId = 3\<rparr>"

definition cf_example_store :: hstore where
  "cf_example_store = \<lparr>vals = (\<lambda>r. mk_value (of_nat r) (Some (mkType KInt64)) []), next_vref = 3, next_iaddr = 4\<rparr>"

lemma cf_example_insts: "fn_insts cf_example = [(mk_inst ConstInt 0)\<lparr>result := Some 0, operands := [OInt 6]\<rparr>,
    (mk_inst AndI64 1)\<lparr>result := Some 1, operands := [OInt 12, OInt 10]\<rparr>,
    (mk_inst MulI64 2)\<lparr>result := Some 2, operands := [OVal (Some 0), OVal (Some 1)]\<rparr>,
    (mk_inst Return 3)\<lparr>operands := [OVal (Some 2)]\<rparr>]"
  by (simp add: cf_example_def fn_insts_def)

lemma cf_example_small: "bitwise_small rt (fn_insts cf_example)"
  by (auto simp: bitwise_small_def cf_example_insts bitwise_ops_def mk_inst_def getOperandValue_def
      ensureI64ForBitwise_def fits_i32_def)

lemma cf_example_ssa: "ssa (fn_insts cf_example)"
  by (simp add: cf_example_insts ssa_def mk_inst_def)

lemma cf_example_run:
  "map (\<lambda>i. (opcode i, operands i)) (fn_insts (fst (snd (cf_runOnFunction m cf_example cf_example_store)))) =
    [(ConstInt, [OInt 6]), (ConstInt, [OInt 8]), (ConstInt, [OInt 48]), (Return, [OVal (Some 2)])]"
  by (simp add: cf_runOnFunction_def cf_example_def walk_fn_def walk_block_def cf_step_def mk_inst_def
      track_def const_of_orig_def const_of_def tryFold_def fold_const_def fold2_ops_def int_arith_ops_def
      float_arith_ops_def int_cmp_ops_def float_cmp_ops_def fold2_def fold1_def getConstant_def
      createConstInst_def isKnown_def cf_start_def fn_insts_def)

definition cf_example_module :: hmodule where
  "cf_example_module = \<lparr>mod_name = ''m'', mod_functions = [cf_example], mod_store = cf_example_store\<rparr>"


text \<open>
  A function without bitwise and shift opcodes keeps its executions exactly: every
  environment a run of the original function reaches is reached by the folded function.
\<close>

theorem constant_folding_preserves_runs:
  assumes "cf_runOnFunction m fn st = (r, fn', st')" and "ssa (fn_insts fn)"
    and "\<forall>i\<in>set (fn_insts fn). opcode i \<notin> bit_ops"
    and "reach rt (fn_insts fn) env"
  shows "reach rt (fn_insts fn') env"
proof -
  have "bitwise_small rt (fn_insts fn)" using assms(3) by (intro bitwise_small_trivial) blast
  note l = fn_rel_insts [OF cf_folded [OF assms(1,2) this]]
  show ?thesis using assms(3) by (intro reach_folded [OF l _ assms(4)]) blast
qed

definition cf_plain :: hfunction where
  "cf_plain = cf_example\<lparr>blocks := [(hd (blocks cf_example))\<lparr>instructions :=
     [(mk_inst ConstInt 0)\<lparr>result := Some 0, operands := [OInt 6]\<rparr>,
      (mk_inst AddI64 1)\<lparr>result := Some 1, operands := [OVal (Some 0), OInt 1]\<rparr>]\<rparr>]\<rparr>"

lemma cf_plain_insts: "fn_insts cf_plain = [(mk_inst ConstInt 0)\<lparr>result := Some 0, operands := [OInt 6]\<rparr>,
    (mk_inst AddI64 1)\<lparr>result := Some 1, operands := [OVal (Some 0), OInt 1]\<rparr>]"
  by (simp add: cf_plain_def fn_insts_def)

theorem constant_folding_preserves_runs_witness:
  "\<exists>r fn' st'. cf_runOnFunction cf_example_module cf_plain cf_example_store = (r, fn', st') \<and>
     (\<forall>rt. reach rt (fn_insts fn') Map.empty)"
proof -
  obtain r fn' st' where run: "cf_runOnFunction cf_example_module cf_plain cf_example_store = (r, fn', st')"
    by (rule prod_cases3)
  have ssa: "ssa (fn_insts cf_plain)" by (simp add: cf_plain_insts ssa_def mk_inst_def)
  have ops: "\<forall>i\<in>set (fn_insts cf_plain). opcode i \<notin> bit_ops"
    by (simp add: cf_plain_insts mk_inst_def bit_ops_def bitwise_ops_def)
  have "reach rt (fn_insts cf_plain) Map.empty" for rt by (rule reach_init) simp
  from constant_folding_preserves_runs [OF run ssa ops this] run show ?thesis by blast
qed



lemma cf_shape:
  "case cf_runOnFunction m fn st of (r, fn', st') \<Rightarrow>
     success r \<and> (changed r \<or> fn' = fn \<and> st' = st) \<and>
     fn_rel (\<lambda>i j. j = i \<or> opcode j \<in> const_ops \<and> result j = result i \<and> iaddr j = iaddr i) fn fn'"
proof -
  let ?w = "walk_fn cf_step (cf_start st) fn"
  have step: "snd (cf_step s i) = i \<or> opcode (snd (cf_step s i)) \<in> const_ops \<and>
      result (snd (cf_step s i)) = result i \<and> iaddr (snd (cf_step s i)) = iaddr i" for s i
    by (auto simp: cf_step_def Let_def tryFold_def split: option.splits dest!: createConstInst_Some)
  have "True \<and> fn_rel (\<lambda>i j. j = i \<or> opcode j \<in> const_ops \<and> result j = result i \<and> iaddr j = iaddr i) fn (snd ?w)"
    by (rule walk_fn_rel [of "\<lambda>_. True"]) (use step in simp_all)
  moreover have "cf_changed (fst ?w) \<or> snd ?w = fn \<and> cf_store (fst ?w) = st"
    using walk_fn_flag [of cf_changed cf_step cf_store "cf_start st" fn, OF cf_step_flag]
    by (auto simp: cf_start_def)
  ultimately show ?thesis by (auto simp: cf_runOnFunction_def split: prod.splits)
qed

interpretation constant_folding: honest_pass cf_runOnFunction
proof
  fix m fn st
  show "success (fst (cf_runOnFunction m fn st))"
    and "changed (fst (cf_runOnFunction m fn st)) \<or> snd (cf_runOnFunction m fn st) = (fn, st)"
    and "fn_name (fst (snd (cf_runOnFunction m fn st))) = fn_name fn"
    using cf_shape [where m = m and fn = fn and st = st] by (auto dest: fn_rel_name split: prod.splits)
qed

text \<open>
  The pass reports honestly and keeps the shape of the function: it never fails, when it
  reports no change the function and the shared values are the ones it was given, and in every
  case the blocks keep their identity and each slot keeps its result value and address.
\<close>

theorem constant_folding_shape:
  "case cf_runOnFunction m fn st of (r, fn', st') \<Rightarrow>
     success r \<and> (changed r \<or> fn' = fn \<and> st' = st) \<and>
     fn_rel (\<lambda>i j. j = i \<or> opcode j \<in> const_ops \<and> result j = result i \<and> iaddr j = iaddr i) fn fn'"
  by (rule cf_shape)

text \<open>
  C36. Outside the int32 range the folded And, Or, Xor and Not keep all 64 bits while the
  lowered instruction truncates to 32: \<open>4294967296 | 0\<close> folds to \<open>4294967296\<close> and runs to \<open>0\<close>.
\<close>

theorem fold_or_outside_int32:
  "foldIntArithmetic OrI64 4294967296 0 = CInt 4294967296 \<and>
   lowerOrI64 (RI64 4294967296) (RI64 0) = Some (RF64 f64_zero) \<and>
   \<not> loads rt (CInt 4294967296) (RF64 f64_zero)"
proof -
  have t: "trunc32 4294967296 = 0" by (simp add: trunc32_def)
  have z: "f64_of_int 0 = f64_zero"
    by (simp add: f64_of_int_def round_mag_def Let_def floorlog_def mk_f64_def f64_zero_def)
  have "f64_holds f64_zero 0" using f64_of_int_holds [of 0] z by simp
  then have "\<not> f64_holds f64_zero 4294967296" using f64_holds_inj [of f64_zero 0 4294967296] by force
  then show ?thesis
    by (simp add: lowerOrI64_def ensureI64ForBitwise_def t i32_to_f64_def sext64_def z loads_def
        trunc32_def)
qed

end
