(* ===== verification/ControlFlow.thy ===== *)
theory ControlFlow
  imports Execution
begin

text \<open>
  Runs of a function along its control flow, with what they show to the outside. A
  configuration holds the block control came from, the current block, the instructions left in
  it and the environment. Calls, stores, property accesses, suspensions and the ends of the
  function are observable: each emits an event with the instruction, the values of its
  operands and the value it delivers. A terminator ends its block; one that is not last is
  malformed and stuck here.
\<close>

definition find_block :: "hblock list \<Rightarrow> bref \<Rightarrow> hblock option" where
  "find_block bs t = find (\<lambda>b. baddr b = t) bs"

definition find_def :: "hinst list \<Rightarrow> vref \<Rightarrow> hinst option" where
  "find_def is v = find (\<lambda>i. result i = Some v) is"

text \<open>The blocks a terminator can pass control to.\<close>

definition op_block :: "hoperand \<Rightarrow> bref list" where
  "op_block x = (case x of OBlock (Some t) \<Rightarrow> [t] | _ \<Rightarrow> [])"

definition term_successors :: "hinst \<Rightarrow> bref list" where
  "term_successors i =
     (if opcode i = Branch then (case operands i of x # _ \<Rightarrow> op_block x | [] \<Rightarrow> [])
      else if opcode i = CondBranch then
        (case operands i of _ # x # y # _ \<Rightarrow> op_block x @ op_block y | _ \<Rightarrow> [])
      else if opcode i = Switch then
        (case switchDefault i of Some t \<Rightarrow> [t] | None \<Rightarrow> []) @ List.map_filter snd (switchCases i)
      else [])"

text \<open>Where a terminator goes in an environment: a boolean condition selects its branch; other
  conditions and switch values are over-approximated.\<close>

definition jumps :: "env \<Rightarrow> hinst \<Rightarrow> bref \<Rightarrow> bool" where
  "jumps env i t \<longleftrightarrow> t \<in> set (term_successors i) \<and>
     (opcode i = CondBranch \<longrightarrow>
        (\<forall>c x y zs. operands i = c # x # y # zs \<longrightarrow>
           (\<exists>v. getOperandValue env c = Some v \<and>
              (\<forall>b. v = RI1 b \<longrightarrow> t \<in> set (op_block (if b then x else y))))))"

definition exits :: "hinst \<Rightarrow> bool" where
  "exits i \<longleftrightarrow> opcode i \<in> {Return, ReturnVoid, Unreachable, Throw}"

text \<open>A phi takes the value that comes in from the block control came from.\<close>

definition runs :: "runtime \<Rightarrow> bref option \<Rightarrow> hinst \<Rightarrow> env \<Rightarrow> rtval \<Rightarrow> bool" where
  "runs rt prev i env x \<longleftrightarrow> computes rt i env x \<and>
     (opcode i = Phi \<longrightarrow> (\<exists>v. (Some v, prev) \<in> set (phiIncoming i) \<and> env v = Some x))"

definition observable_ops :: "hiropcode set" where
  "observable_ops =
     {Call, CallMethod, CallVirtual, CallIndirect, CallValueWithThis, ConstructFromValue,
      Store, GCStore, SetPropStatic, SetPropDynamic, SetElem, SetElemTyped, StoreCapture,
      StoreCaptureFromClosure, StoreGlobal, ArrayPush, SetupTry, Throw, PopHandler, ClearException,
      DeleteProp, Safepoint, SafepointPoll, Yield, YieldStar, Await}"

text \<open>Which instructions emit an event is a parameter \<open>obs\<close> of the runs, because for property
  reads it depends on the type of the receiver.\<close>

type_synonym event = "iref \<times> hiropcode \<times> rtval option list \<times> rtval option"

definition events :: "(hinst \<Rightarrow> bool) \<Rightarrow> hinst \<Rightarrow> env \<Rightarrow> rtval option \<Rightarrow> event list" where
  "events obs i env x =
     (if obs i then [(iaddr i, opcode i, map (getOperandValue env) (operands i), x)] else [])"

datatype config = Run "bref option" bref "hinst list" env | Halted

inductive step :: "runtime \<Rightarrow> (hinst \<Rightarrow> bool) \<Rightarrow> hfunction \<Rightarrow> config \<Rightarrow> event list \<Rightarrow> config \<Rightarrow> bool"
  for rt obs fn where
  step_inst: "\<not> isTerminator i \<Longrightarrow> runs rt prev i env x \<Longrightarrow>
    step rt obs fn (Run prev b (i # is) env) (events obs i env (Some x)) (Run prev b is (setValue env (result i) x))"
| step_jump: "isTerminator i \<Longrightarrow> jumps env i t \<Longrightarrow> find_block (blocks fn) t = Some blk \<Longrightarrow>
    step rt obs fn (Run prev b [i] env) [] (Run (Some b) t (instructions blk) env)"
| step_exit: "exits i \<Longrightarrow>
    step rt obs fn (Run prev b [i] env) [(iaddr i, opcode i, map (getOperandValue env) (operands i), None)] Halted"

inductive_cases step_RunE: "step rt obs fn (Run prev b is env) ev c"
inductive_cases step_HaltedE: "step rt obs fn Halted ev c"

inductive steps :: "runtime \<Rightarrow> (hinst \<Rightarrow> bool) \<Rightarrow> hfunction \<Rightarrow> config \<Rightarrow> event list \<Rightarrow> config \<Rightarrow> bool"
  for rt obs fn where
  steps_refl: "steps rt obs fn c [] c"
| steps_more: "steps rt obs fn c es c' \<Longrightarrow> step rt obs fn c' ev c'' \<Longrightarrow> steps rt obs fn c (es @ ev) c''"

definition start :: "hfunction \<Rightarrow> env \<Rightarrow> config \<Rightarrow> bool" where
  "start fn env c \<longleftrightarrow> blocks fn \<noteq> [] \<and>
     (\<forall>v\<in>set (results (fn_insts fn)). env v = None) \<and>
     c = Run None (baddr (hd (blocks fn))) (instructions (hd (blocks fn))) env"

text \<open>A run from the start shows the events \<open>es\<close> and is at \<open>c\<close>.\<close>

definition run_of :: "runtime \<Rightarrow> (hinst \<Rightarrow> bool) \<Rightarrow> hfunction \<Rightarrow> env \<Rightarrow> event list \<Rightarrow> config \<Rightarrow> bool" where
  "run_of rt obs fn env es c \<longleftrightarrow> (\<exists>c0. start fn env c0 \<and> steps rt obs fn c0 es c)"

section \<open>Where a run can be\<close>

lemma find_block_in: "find_block bs t = Some b \<Longrightarrow> b \<in> set bs \<and> baddr b = t"
  by (auto simp: find_block_def dest: find_Some_set)

lemma insts_in_fn: "b \<in> set (blocks fn) \<Longrightarrow> i \<in> set (instructions b) \<Longrightarrow> i \<in> set (fn_insts fn)"
  by (auto simp: fn_insts_def)

text \<open>A running configuration stays at the end of a block of the function.\<close>

fun in_block :: "hfunction \<Rightarrow> config \<Rightarrow> bool" where
  "in_block fn (Run prev b is env) \<longleftrightarrow>
     (\<exists>blk done. find_block (blocks fn) b = Some blk \<and> instructions blk = done @ is)"
| "in_block fn Halted \<longleftrightarrow> True"

lemma in_block_start: "start fn env c \<Longrightarrow> in_block fn c"
  by (cases "blocks fn") (auto simp: start_def find_block_def)

lemma in_block_step: "step rt obs fn c ev c' \<Longrightarrow> in_block fn c \<Longrightarrow> in_block fn c'"
  by (induction rule: step.induct) auto

lemma in_block_steps: "steps rt obs fn c es c' \<Longrightarrow> in_block fn c \<Longrightarrow> in_block fn c'"
  by (induction rule: steps.induct) (auto intro: in_block_step)

lemma in_block_insts:
  "in_block fn (Run prev b is env) \<Longrightarrow> set is \<subseteq> set (fn_insts fn)"
  by (auto dest!: find_block_in intro: insts_in_fn)

text \<open>Every environment of a run is reachable in the sense of \<open>Execution\<close>.\<close>

fun config_reach :: "runtime \<Rightarrow> hfunction \<Rightarrow> config \<Rightarrow> bool" where
  "config_reach rt fn (Run prev b is env) \<longleftrightarrow> reach rt (fn_insts fn) env"
| "config_reach rt fn Halted \<longleftrightarrow> True"

lemma config_reach_start: "start fn env c \<Longrightarrow> config_reach rt fn c"
  by (auto simp: start_def intro: reach_init)

lemma config_reach_step:
  assumes "step rt obs fn c ev c'" and "in_block fn c" and "config_reach rt fn c"
  shows "config_reach rt fn c'"
  using assms
proof (induction rule: step.induct)
  case (step_inst i prev env x b "is")
  then have "i \<in> set (fn_insts fn)" using in_block_insts by fastforce
  then show ?case using step_inst reach_step by (simp add: runs_def)
qed auto

section \<open>Transformations that preserve runs\<close>

text \<open>
  The interface of the code transformations: a function \<open>T\<close> on the functions that are \<open>ok\<close>,
  with a relation between configurations that holds at the start and that every step of the
  original function carries over to steps of the transformed one with the same events. It
  matches every run of the original function.
\<close>

lemma steps_trans: "steps rt obs fn c es d \<Longrightarrow> steps rt obs fn d fs e \<Longrightarrow> steps rt obs fn c (es @ fs) e"
proof (rotate_tac, induction rule: steps.induct)
  case (steps_more c fs c' ev c'')
  then show ?case using steps.steps_more by (metis append_assoc)
qed simp

lemma one_step: "step rt obs fn c ev d \<Longrightarrow> steps rt obs fn c ev d"
  using steps_more [OF steps_refl] by force

locale transformation =
  fixes rt :: runtime and obs :: "hinst \<Rightarrow> bool" and ok :: "hfunction \<Rightarrow> bool"
    and T :: "hfunction \<Rightarrow> hfunction" and R :: "hfunction \<Rightarrow> config \<Rightarrow> config \<Rightarrow> bool"
  assumes trans_start: "ok fn \<Longrightarrow> start fn env c \<Longrightarrow> \<exists>c'. start (T fn) env c' \<and> R fn c c'"
    and trans_step: "ok fn \<Longrightarrow> step rt obs fn c ev d \<Longrightarrow> in_block fn c \<Longrightarrow> config_reach rt fn c \<Longrightarrow> R fn c c' \<Longrightarrow>
      \<exists>d'. steps rt obs (T fn) c' ev d' \<and> R fn d d'"
    and trans_halted: "R fn Halted c' \<Longrightarrow> c' = Halted"
begin

lemma trans_steps:
  assumes "steps rt obs fn c es d" and "ok fn" and "in_block fn c" and "config_reach rt fn c" and "R fn c c'"
  shows "\<exists>d'. steps rt obs (T fn) c' es d' \<and> R fn d d'"
  using assms
proof (induction rule: steps.induct)
  case (steps_refl c)
  then show ?case using steps.steps_refl by blast
next
  case (steps_more c es d ev e)
  then obtain d' where d: "steps rt obs (T fn) c' es d'" "R fn d d'" by blast
  have "in_block fn d" using in_block_steps steps_more by blast
  moreover have "config_reach rt fn d"
    using steps_more.hyps(1) steps_more.prems(2,3)
    by (induction rule: steps.induct) (auto intro: config_reach_step in_block_steps)
  ultimately obtain e' where "steps rt obs (T fn) d' ev e'" "R fn e e'"
    using trans_step steps_more.hyps(2) steps_more.prems(1) d(2) by blast
  then show ?case using steps_trans d(1) by blast
qed

lemma trans_run:
  assumes "ok fn" and "run_of rt obs fn env es d"
  shows "\<exists>d'. run_of rt obs (T fn) env es d' \<and> (d = Halted \<longrightarrow> d' = Halted)"
proof -
  obtain c where c: "start fn env c" "steps rt obs fn c es d"
    using assms by (auto simp: run_of_def)
  then obtain c' where "start (T fn) env c'" "R fn c c'" using trans_start assms(1) by blast
  then show ?thesis
    using trans_steps [OF c(2) assms(1) in_block_start [OF c(1)] config_reach_start [OF c(1)], of c']
      trans_halted unfolding run_of_def by blast
qed

end

text \<open>What an instruction computes depends on its operands only.\<close>

lemma getOperandValue_cong:
  "(\<And>v. op_val x = Some v \<Longrightarrow> env v = env' v) \<Longrightarrow> getOperandValue env x = getOperandValue env' x"
  by (auto simp: getOperandValue_def split: hoperand.split option.split)

lemma uses_operand: "x \<in> set (operands i) \<Longrightarrow> op_val x = Some v \<Longrightarrow> v \<in> set (inst_uses i)"
  by (force simp: inst_uses_def List.map_filter_def)

lemma uses_phi: "(Some v, p) \<in> set (phiIncoming i) \<Longrightarrow> v \<in> set (inst_uses i)"
  by (force simp: inst_uses_def List.map_filter_def)

lemma operands_cong:
  assumes "\<And>v. v \<in> set (inst_uses i) \<Longrightarrow> env v = env' v" and "x \<in> set (operands i)"
  shows "getOperandValue env x = getOperandValue env' x"
  using assms uses_operand by (intro getOperandValue_cong) blast

lemma computes_cong:
  assumes "computes rt i env x" and "\<And>v. v \<in> set (inst_uses i) \<Longrightarrow> env v = env' v"
  shows "computes rt i env' x"
  using assms(1) operands_cong [of i env env', OF assms(2)]
  by (auto elim!: computesE intro: computes.intros)

lemma runs_cong:
  assumes "runs rt prev i env x" and "\<And>v. v \<in> set (inst_uses i) \<Longrightarrow> env v = env' v"
  shows "runs rt prev i env' x"
  using assms computes_cong [of rt i env x env'] uses_phi [of _ prev i]
  by (auto simp: runs_def)

lemma events_cong:
  "(\<And>v. v \<in> set (inst_uses i) \<Longrightarrow> env v = env' v) \<Longrightarrow>
   map (getOperandValue env) (operands i) = map (getOperandValue env') (operands i)"
  using operands_cong [of i env env'] by simp

end
