(* ===== verification/Worklist.thy ===== *)
theory Worklist
  imports Main
begin

text \<open>
  The worklist searches of the passes: a queue, a set of nodes already seen, and for each node
  taken from the queue its successors, each of which is inserted and queued when it is new.
  The graph is a table of successor lists, first entry first. The search terminates because
  every queued node is new, and it finds exactly the nodes reachable from the start.
\<close>

type_synonym 'a graph = "('a \<times> 'a list) list"

definition succs :: "'a graph \<Rightarrow> 'a \<Rightarrow> 'a list" where
  "succs g x = (case map_of g x of None \<Rightarrow> [] | Some ys \<Rightarrow> ys)"

definition edges :: "'a graph \<Rightarrow> ('a \<times> 'a) set" where
  "edges g = {(x, y). y \<in> set (succs g x)}"

text \<open>\<open>for (succ : successors) if (seen.insert(succ)) worklist.push(succ)\<close>\<close>

fun visit :: "'a list \<Rightarrow> 'a set \<Rightarrow> 'a list \<Rightarrow> 'a set \<times> 'a list" where
  "visit [] seen q = (seen, q)"
| "visit (y # ys) seen q = (if y \<in> seen then visit ys seen q else visit ys (insert y seen) (q @ [y]))"

definition targets :: "'a graph \<Rightarrow> 'a set" where
  "targets g = (\<Union>(_, ys)\<in>set g. set ys)"

lemma finite_targets: "finite (targets g)"
  by (auto simp: targets_def)

lemma succs_targets: "set (succs g x) \<subseteq> targets g"
  by (cases "map_of g x") (force simp: succs_def targets_def dest: map_of_SomeD)+

lemma visit_props:
  "visit ys seen q = (seen', q') \<Longrightarrow>
     seen' = seen \<union> set ys \<and> (\<exists>new. q' = q @ new \<and> set new = set ys - seen \<and> (new = [] \<longrightarrow> seen' = seen))"
proof (induction ys arbitrary: seen q)
  case (Cons y ys)
  show ?case
  proof (cases "y \<in> seen")
    case True
    with Cons.IH [of seen q] Cons.prems show ?thesis by auto
  next
    case False
    with Cons.IH [of "insert y seen" "q @ [y]"] Cons.prems obtain new where
      "seen' = insert y seen \<union> set ys" "q' = q @ y # new" "set new = set ys - insert y seen" by auto
    with False show ?thesis by (intro conjI exI [of _ "y # new"]) auto
  qed
qed auto

function worklist :: "'a graph \<Rightarrow> 'a list \<Rightarrow> 'a set \<Rightarrow> 'a set" where
  "worklist g [] seen = seen"
| "worklist g (x # q) seen =
     (let (seen', q') = visit (succs g x) seen q in worklist g q' seen')"
  by pat_completeness auto

termination
proof (relation "measures [\<lambda>(g, q, seen). card (targets g - seen), \<lambda>(g, q, seen). length q]", goal_cases)
  case 1
  then show ?case by simp
next
  case (2 g x q seen s seen' q')
  then have v: "visit (succs g x) seen q = (seen', q')" by simp
  from visit_props [OF this] obtain new where n: "seen' = seen \<union> set (succs g x)"
    "q' = q @ new" "set new = set (succs g x) - seen" by auto
  show ?case
  proof (cases "new = []")
    case True
    then have "seen' = seen" using n by auto
    then show ?thesis using n True by simp
  next
    case False
    then obtain y where "y \<in> set (succs g x)" "y \<notin> seen"
      using n(3) by (metis Diff_iff list.set_intros(1) neq_Nil_conv)
    then have "targets g - seen' \<subset> targets g - seen"
      using n(1) succs_targets [of g x] by blast
    then have "card (targets g - seen') < card (targets g - seen)"
      using finite_targets [of g] by (intro psubset_card_mono) auto
    then show ?thesis by simp
  qed
qed

lemma worklist_correct:
  assumes "set q \<subseteq> seen" and "\<And>x y. x \<in> seen - set q \<Longrightarrow> (x, y) \<in> edges g \<Longrightarrow> y \<in> seen"
  shows "worklist g q seen = seen \<union> (edges g)\<^sup>* `` set q"
  using assms
proof (induction g q seen rule: worklist.induct)
  case (2 g x q seen)
  obtain seen' q' where v: "visit (succs g x) seen q = (seen', q')" by force
  from visit_props [OF this] obtain new where n: "seen' = seen \<union> set (succs g x)"
    "q' = q @ new" "set new = set (succs g x) - seen" by auto
  have sub: "set q' \<subseteq> seen'" using n "2.prems"(1) by auto
  have cl: "y \<in> seen'" if "z \<in> seen' - set q'" "(z, y) \<in> edges g" for z y
  proof (cases "z = x")
    case True
    then show ?thesis using that n by (auto simp: edges_def)
  next
    case False
    then have "z \<in> seen - set (x # q)" using that n by auto
    then show ?thesis using "2.prems"(2) that n by blast
  qed
  have "worklist g q' seen' = seen' \<union> (edges g)\<^sup>* `` set q'"
    by (rule "2.IH" [OF v [symmetric] refl sub]) (use cl in blast)
  moreover have "seen' \<union> (edges g)\<^sup>* `` set q' = seen \<union> (edges g)\<^sup>* `` set (x # q)" (is "?l = ?r")
  proof
    have s: "set (succs g x) \<subseteq> (edges g)\<^sup>* `` {x}" by (auto simp: edges_def)
    have "(edges g)\<^sup>* `` set new \<subseteq> (edges g)\<^sup>* `` {x}"
      using n(3) by (auto simp: edges_def intro: converse_rtrancl_into_rtrancl)
    with s n show "?l \<subseteq> ?r" by auto
    have closed: "z \<in> ?l" if "y \<in> ?l" "(y, z) \<in> edges g" for y z
      using that cl by (cases "y \<in> set q'") (auto intro: rtrancl_into_rtrancl)
    have "z \<in> ?l" if "(y, z) \<in> (edges g)\<^sup>*" "y \<in> ?l" for y z
      using that(1,2)
    proof (induction rule: rtrancl_induct)
      case (step u w)
      then show ?case using closed [of u w] by blast
    qed
    moreover have "set (x # q) \<subseteq> ?l" using "2.prems"(1) n by auto
    ultimately show "?r \<subseteq> ?l" using n by blast
  qed
  ultimately show ?case using v by simp
qed simp

text \<open>A search from scratch: the start nodes are queued once each and seen.\<close>

definition search :: "'a graph \<Rightarrow> 'a list \<Rightarrow> 'a set" where
  "search g xs = (let (seen, q) = visit xs {} [] in worklist g q seen)"

lemma search_reachable: "search g xs = (edges g)\<^sup>* `` set xs"
proof -
  obtain seen q where v: "visit xs {} [] = (seen, q)" by force
  from visit_props [OF this] have s: "seen = set xs" "set q = set xs" by auto
  then have "worklist g q seen = seen \<union> (edges g)\<^sup>* `` set q" by (intro worklist_correct) auto
  with v s show ?thesis by (auto simp: search_def)
qed

lemma search_step: "x \<in> search g xs \<Longrightarrow> y \<in> set (succs g x) \<Longrightarrow> y \<in> search g xs"
  by (auto simp: search_reachable edges_def intro: rtrancl_into_rtrancl)

lemma search_start: "set xs \<subseteq> search g xs"
  by (auto simp: search_reachable)

text \<open>\<open>search\<close> is the least set that holds the start nodes and is closed under successors.\<close>

lemma search_least:
  assumes "set xs \<subseteq> S" and "\<And>x y. x \<in> S \<Longrightarrow> y \<in> set (succs g x) \<Longrightarrow> y \<in> S"
  shows "search g xs \<subseteq> S"
proof -
  have "y \<in> S" if "(x, y) \<in> (edges g)\<^sup>*" "x \<in> S" for x y
    using that by (induction rule: rtrancl_induct) (auto simp: edges_def intro: assms(2))
  then show ?thesis using assms(1) by (auto simp: search_reachable)
qed

end
