(* ===== verification/DeadCode.thy ===== *)
theory DeadCode
  imports ControlFlow Worklist PassContract
begin

text \<open>
  Dead code elimination, \<open>src/src/compiler/hir/passes/DeadCodeEliminationPass.cpp\<close>: constant
  conditional branches become branches, blocks that the entry does not reach are removed, and
  so are instructions that neither have effects nor feed one that is kept. A null block
  pointer in a conditional branch, which the C++ code would dereference, is no match here.
\<close>

section \<open>Constant conditional branches\<close>

text \<open>The branch taken and the branch dropped when the condition is a constant.\<close>

definition const_cond_target :: "hinst list \<Rightarrow> hinst \<Rightarrow> (bref \<times> bref) option" where
  "const_cond_target is i =
     (if opcode i \<noteq> CondBranch then None
      else case operands i of
        OVal (Some v) # OBlock (Some t) # OBlock (Some e) # _ \<Rightarrow>
          (case find_def is v of
             None \<Rightarrow> None
           | Some d \<Rightarrow>
               if opcode d \<noteq> ConstBool then None
               else (case operands d of OBool b # _ \<Rightarrow> Some (if b then (t, e) else (e, t)) | _ \<Rightarrow> None))
      | _ \<Rightarrow> None)"

definition simplify_at :: "nat \<Rightarrow> hblock list \<times> bool \<Rightarrow> hblock list \<times> bool" where
  "simplify_at k s =
     (let (bs, ch) = s; blk = bs ! k
      in if instructions blk = [] then (bs, ch)
         else let i = last (instructions blk)
              in case const_cond_target (concat (map instructions bs)) i of
                   None \<Rightarrow> (bs, ch)
                 | Some (t, d) \<Rightarrow>
                     let blk' = blk\<lparr>instructions := butlast (instructions blk) @
                                      [i\<lparr>opcode := Branch, operands := [OBlock (Some t)]\<rparr>],
                                    successors := [t]\<rparr>
                     in (map (\<lambda>b. if baddr b = d
                                   then b\<lparr>predecessors := removeAll (baddr blk) (predecessors b)\<rparr> else b)
                           (bs[k := blk']), True))"

definition simplifyConstantCondBranches :: "hblock list \<Rightarrow> hblock list \<times> bool" where
  "simplifyConstantCondBranches bs = fold simplify_at [0..<length bs] (bs, False)"

section \<open>Uses, reachable blocks, live instructions\<close>

definition buildUseMap :: "hinst list \<Rightarrow> vref \<Rightarrow> iref set" where
  "buildUseMap is v = set (map iaddr (filter (\<lambda>i. v \<in> set (inst_uses i)) is))"

definition block_successors :: "hblock \<Rightarrow> bref list" where
  "block_successors b = (if instructions b = [] then [] else term_successors (last (instructions b)))"

definition cfg :: "hblock list \<Rightarrow> bref graph" where
  "cfg bs = map (\<lambda>b. (baddr b, block_successors b)) bs"

definition findReachableBlocks :: "hblock list \<Rightarrow> bref set" where
  "findReachableBlocks bs = (case bs of [] \<Rightarrow> {} | b # _ \<Rightarrow> search (cfg bs) [baddr b])"

text \<open>Receiver kinds whose property reads cannot run user code.\<close>

definition primitive_kind :: "htkind \<Rightarrow> bool" where
  "primitive_kind k \<longleftrightarrow> k \<in> {KString, KInt64, KFloat64, KBool, KBigInt, KSymbol, KPtr}"

definition safe_for_concat :: "htype option \<Rightarrow> bool" where
  "safe_for_concat t \<longleftrightarrow> (case t of None \<Rightarrow> False | Some u \<Rightarrow> kind u \<in> {KString, KInt64, KFloat64, KBool})"

definition side_effect_ops :: "hiropcode set" where
  "side_effect_ops =
     {Call, CallMethod, CallVirtual, CallIndirect, CallValueWithThis, ConstructFromValue,
      Store, GCStore, SetPropStatic, SetPropDynamic, SetElem, SetElemTyped, StoreCapture,
      StoreCaptureFromClosure, StoreGlobal,
      ArrayPush,
      SetupTry, Throw, PopHandler, ClearException,
      DeleteProp,
      Safepoint, SafepointPoll,
      Yield, YieldStar,
      Await}"

definition hasSideEffects :: "hstore \<Rightarrow> hinst \<Rightarrow> bool" where
  "hasSideEffects st i =
     (if opcode i \<in> side_effect_ops then True
      else if opcode i \<in> {GetPropStatic, GetPropDynamic, GetElem} then
        (case operands i of
           OVal (Some v) # _ \<Rightarrow>
             (case type_of st v of Some t \<Rightarrow> \<not> primitive_kind (kind t) | None \<Rightarrow> True)
         | _ \<Rightarrow> True)
      else if opcode i = StringConcat then
        (case operands i of
           OVal (Some a) # OVal (Some b) # _ \<Rightarrow>
             \<not> (safe_for_concat (type_of st a) \<and> safe_for_concat (type_of st b))
         | _ \<Rightarrow> True)
      else False)"

definition def_graph :: "hinst list \<Rightarrow> iref graph" where
  "def_graph is =
     map (\<lambda>i. (iaddr i, List.map_filter (\<lambda>v. map_option iaddr (find_def is v)) (inst_uses i))) is"

definition live_roots :: "hstore \<Rightarrow> bref set \<Rightarrow> hblock list \<Rightarrow> iref list" where
  "live_roots st R bs =
     map iaddr (filter (\<lambda>i. isTerminator i \<or> hasSideEffects st i)
       (concat (map instructions (filter (\<lambda>b. baddr b \<in> R) bs))))"

definition markLiveInstructions :: "hstore \<Rightarrow> bref set \<Rightarrow> hblock list \<Rightarrow> iref set" where
  "markLiveInstructions st R bs = search (def_graph (concat (map instructions bs))) (live_roots st R bs)"

section \<open>Removal\<close>

definition redirect :: "bref set \<Rightarrow> bref \<Rightarrow> bref \<Rightarrow> bref" where
  "redirect U entry t = (if t \<in> U then entry else t)"

definition fix_operand :: "bref set \<Rightarrow> bref \<Rightarrow> hoperand \<Rightarrow> hoperand" where
  "fix_operand U entry x = (case x of OBlock (Some t) \<Rightarrow> OBlock (Some (redirect U entry t)) | _ \<Rightarrow> x)"

definition fix_terminator :: "bref set \<Rightarrow> bref \<Rightarrow> hinst \<Rightarrow> hinst" where
  "fix_terminator U entry i =
     i\<lparr>operands := map (fix_operand U entry) (operands i),
       switchDefault := map_option (redirect U entry) (switchDefault i),
       switchCases := map (\<lambda>(n, t). (n, map_option (redirect U entry) t)) (switchCases i)\<rparr>"

definition fix_block :: "bref set \<Rightarrow> bref \<Rightarrow> hblock \<Rightarrow> hblock" where
  "fix_block U entry b =
     (if instructions b = [] \<or> \<not> isTerminator (last (instructions b)) then b
      else b\<lparr>instructions := butlast (instructions b) @ [fix_terminator U entry (last (instructions b))],
             successors := map (redirect U entry) (successors b)\<rparr>)"

definition removeUnreachableBlocks :: "bref set \<Rightarrow> hblock list \<Rightarrow> hblock list \<times> bool" where
  "removeUnreachableBlocks R bs =
     (let U = set (map baddr (filter (\<lambda>b. baddr b \<notin> R) bs));
          kept = map (\<lambda>b. b\<lparr>predecessors := filter (\<lambda>p. p \<notin> U) (predecessors b)\<rparr>)
                   (filter (\<lambda>b. baddr b \<notin> U) bs);
          fixed = (if U \<noteq> {} \<and> kept \<noteq> [] then map (fix_block U (baddr (hd kept))) kept else kept)
      in (fixed, U \<noteq> {}))"

definition removeDeadInstructions :: "bref set \<Rightarrow> iref set \<Rightarrow> hblock list \<Rightarrow> hblock list \<times> bool" where
  "removeDeadInstructions R L bs =
     (map (\<lambda>b. if baddr b \<in> R then b\<lparr>instructions := filter (\<lambda>i. iaddr i \<in> L) (instructions b)\<rparr> else b) bs,
      \<exists>b\<in>set bs. baddr b \<in> R \<and> (\<exists>i\<in>set (instructions b). iaddr i \<notin> L))"

definition dce_runOnFunction :: function_pass where
  "dce_runOnFunction m fn st =
     (let (bs1, c1) = simplifyConstantCondBranches (blocks fn);
          R = findReachableBlocks bs1;
          L = markLiveInstructions st R bs1;
          (bs2, c2) = removeUnreachableBlocks R bs1;
          (bs3, c3) = removeDeadInstructions R L bs2
      in (result_of (c1 \<or> c2 \<or> c3), fn\<lparr>blocks := bs3\<rparr>, st))"

section \<open>Simplified branches: same runs\<close>

definition simp_inst :: "hinst list \<Rightarrow> hinst \<Rightarrow> hinst \<Rightarrow> bool" where
  "simp_inst is i i' \<longleftrightarrow> i' = i \<or>
     (\<exists>v t e zs d b ds. opcode i = CondBranch \<and> operands i = OVal (Some v) # OBlock (Some t) # OBlock (Some e) # zs \<and>
        d \<in> set is \<and> result d = Some v \<and> opcode d = ConstBool \<and> operands d = OBool b # ds \<and>
        i' = i\<lparr>opcode := Branch, operands := [OBlock (Some (if b then t else e))]\<rparr>)"

definition simp_block :: "hinst list \<Rightarrow> hblock \<Rightarrow> hblock \<Rightarrow> bool" where
  "simp_block is b b' \<longleftrightarrow> baddr b' = baddr b \<and> list_all2 (simp_inst is) (instructions b) (instructions b')"

lemma simp_inst_refl [simp]: "simp_inst is i i"
  by (simp add: simp_inst_def)

lemma simp_inst_keeps: "simp_inst is i i' \<Longrightarrow> result i' = result i \<and> iaddr i' = iaddr i \<and> isTerminator i' = isTerminator i"
  by (auto simp: simp_inst_def isTerminator_def)

lemma simp_inst_not_branch: "simp_inst is i i' \<Longrightarrow> opcode i' \<noteq> Branch \<Longrightarrow> i' = i"
  by (auto simp: simp_inst_def)

lemma simp_inst_not_condbranch: "simp_inst is i i' \<Longrightarrow> opcode i \<noteq> CondBranch \<Longrightarrow> i' = i"
  by (auto simp: simp_inst_def)

lemma simp_blocks_insts:
  "list_all2 (simp_block is) bs bs' \<Longrightarrow>
   list_all2 (simp_inst is) (concat (map instructions bs)) (concat (map instructions bs'))"
  by (intro list_all2_concat) (auto simp: simp_block_def elim!: list_all2_mono)

lemma const_cond_target_simp:
  assumes "const_cond_target cur i = Some (t, d)" and "list_all2 (simp_inst is) is cur" and "simp_inst is i0 i"
  shows "simp_inst is i0 (i\<lparr>opcode := Branch, operands := [OBlock (Some t)]\<rparr>)"
proof -
  from assms(1) obtain v t1 e1 zs c b ds where c: "opcode i = CondBranch"
    "operands i = OVal (Some v) # OBlock (Some t1) # OBlock (Some e1) # zs"
    "find_def cur v = Some c" "opcode c = ConstBool" "operands c = OBool b # ds" "t = (if b then t1 else e1)"
    unfolding const_cond_target_def
    by (auto split: if_splits list.splits hoperand.splits option.splits) (metis (full_types))+
  then have "c \<in> set cur" "result c = Some v" by (auto simp: find_def_def dest: find_Some_set)
  then obtain c0 where c0: "c0 \<in> set is" "simp_inst is c0 c"
    using assms(2) by (metis in_set_conv_nth list_all2_conv_all_nth)
  then have "c = c0" using simp_inst_not_branch c(4) by auto
  moreover have "i = i0" using assms(3) simp_inst_not_branch c(1) by auto
  ultimately show ?thesis using c c0 \<open>result c = Some v\<close> unfolding simp_inst_def by blast
qed

lemma simplify_at_inv:
  assumes "list_all2 (simp_block is) bs0 (fst s)" and "is = concat (map instructions bs0)" and "k < length (fst s)"
  shows "list_all2 (simp_block is) bs0 (fst (simplify_at k s)) \<and> length (fst (simplify_at k s)) = length (fst s)"
proof -
  obtain bs ch where s: "s = (bs, ch)" by force
  let ?blk = "bs ! k" and ?i = "last (instructions (bs ! k))"
  show ?thesis
  proof (cases "instructions ?blk = [] \<or> const_cond_target (concat (map instructions bs)) ?i = None")
    case True
    then show ?thesis using assms s by (auto simp: simplify_at_def Let_def)
  next
    case False
    then obtain t d where td: "const_cond_target (concat (map instructions bs)) ?i = Some (t, d)" by auto
    let ?i' = "?i\<lparr>opcode := Branch, operands := [OBlock (Some t)]\<rparr>"
    let ?blk' = "?blk\<lparr>instructions := butlast (instructions ?blk) @ [?i'], successors := [t]\<rparr>"
    have bk: "simp_block is (bs0 ! k) ?blk" and l: "k < length bs0" "k < length bs"
      using assms s by (auto simp: list_all2_conv_all_nth)
    have "list_all2 (simp_inst is) (instructions (bs0 ! k)) (butlast (instructions ?blk) @ [?i])"
      using bk False by (simp add: simp_block_def)
    then obtain xs i0 where x: "instructions (bs0 ! k) = xs @ [i0]"
      "list_all2 (simp_inst is) xs (butlast (instructions ?blk))" "simp_inst is i0 ?i"
      by (auto simp: list_all2_append2 list_all2_Cons2)
    have "simp_inst is i0 ?i'"
      using const_cond_target_simp [OF td _ x(3)] simp_blocks_insts assms(1,2) s by auto
    then have "simp_block is (bs0 ! k) ?blk'"
      using x bk by (simp add: simp_block_def list_all2_appendI)
    then have "list_all2 (simp_block is) bs0 (bs[k := ?blk'])"
      using assms(1) s l by (auto simp: list_all2_conv_all_nth nth_list_update)
    then show ?thesis
      using False td s by (auto simp: simplify_at_def Let_def list_all2_conv_all_nth simp_block_def)
  qed
qed

lemma simplify_inv:
  "list_all2 (simp_block (concat (map instructions bs))) bs (fst (simplifyConstantCondBranches bs))"
proof -
  let ?is = "concat (map instructions bs)"
  have "list_all2 (simp_block ?is) bs (fst (fold simplify_at ks s)) \<and>
      length (fst (fold simplify_at ks s)) = length bs"
    if "\<forall>k\<in>set ks. k < length bs" "list_all2 (simp_block ?is) bs (fst s)" for ks s
    using that
  proof (induction ks arbitrary: s)
    case (Cons k ks)
    have len: "length (fst s) = length bs" using Cons.prems(2) by (simp add: list_all2_lengthD)
    then show ?case using simplify_at_inv [OF Cons.prems(2) refl, of k] Cons by simp
  qed (simp add: list_all2_lengthD)
  from this [of "[0..<length bs]" "(bs, False)"] show ?thesis
    by (simp add: simplifyConstantCondBranches_def list_all2_same simp_block_def)
qed

lemma find_block_simp:
  assumes "list_all2 (simp_block is) bs bs'" and "find_block bs t = Some b"
  shows "\<exists>b'. find_block bs' t = Some b' \<and> simp_block is b b'"
  using assms
  by (induction rule: list_all2_induct) (auto simp: find_block_def simp_block_def split: if_splits)

fun simp_config :: "hinst list \<Rightarrow> config \<Rightarrow> config \<Rightarrow> bool" where
  "simp_config is (Run p b xs env) (Run p' b' xs' env') \<longleftrightarrow>
     p' = p \<and> b' = b \<and> env' = env \<and> list_all2 (simp_inst is) xs xs'"
| "simp_config is Halted Halted \<longleftrightarrow> True"
| "simp_config is _ _ \<longleftrightarrow> False"

lemma const_cond_value:
  assumes "ssa is" and "reach rt is env" and "d \<in> set is" "result d = Some v"
    and "opcode d = ConstBool" "operands d = OBool b # ds" and "env v = Some x"
  shows "x = RI1 b"
proof -
  have "x = RI1 b" if "computes rt d e x" for e x
    using that assms(5,6) computes_const_iff [of d]
    by (simp add: const_ops_def const_loads_def lowerConstBool_def)
  then show ?thesis using reach_value [OF assms(2,1,3,4), of "\<lambda>x. x = RI1 b" x] assms(7) by blast
qed

lemma simp_jump:
  assumes "simp_inst is i i'" and "jumps env i t" and "ssa is" and "reach rt is env"
  shows "jumps env i' t"
proof (cases "i' = i")
  case False
  with assms(1) obtain v t1 e1 zs d b ds where c: "opcode i = CondBranch"
    "operands i = OVal (Some v) # OBlock (Some t1) # OBlock (Some e1) # zs"
    "d \<in> set is" "result d = Some v" "opcode d = ConstBool" "operands d = OBool b # ds"
    "i' = i\<lparr>opcode := Branch, operands := [OBlock (Some (if b then t1 else e1))]\<rparr>"
    unfolding simp_inst_def by blast
  have "\<exists>x. env v = Some x \<and>
      (\<forall>b. x = RI1 b \<longrightarrow> t \<in> set (op_block (if b then OBlock (Some t1) else OBlock (Some e1))))"
    using assms(2) unfolding jumps_def by (simp add: c(1,2) getOperandValue_def)
  then obtain x where x: "env v = Some x"
    "\<forall>b. x = RI1 b \<longrightarrow> t \<in> set (op_block (if b then OBlock (Some t1) else OBlock (Some e1)))"
    by blast
  have "x = RI1 b" by (rule const_cond_value [OF assms(3,4) c(3-6) x(1)])
  then have "t = (if b then t1 else e1)" using x(2) by (simp add: op_block_def split: if_splits)
  then show ?thesis using c(7) by (simp add: jumps_def term_successors_def op_block_def)
qed (use assms in simp)

lemma simp_insts_results: "list_all2 (simp_inst is) xs ys \<Longrightarrow> results ys = results xs"
  by (induction rule: list_all2_induct) (simp_all add: simp_inst_keeps split: option.split)

text \<open>What a run shows: calls, stores, exceptions, suspensions, and property reads unless the
  receiver's type is known to be a primitive or a raw pointer.\<close>

definition observable :: "hstore \<Rightarrow> hinst \<Rightarrow> bool" where
  "observable st i \<longleftrightarrow> opcode i \<in> observable_ops \<or>
     opcode i \<in> {GetPropStatic, GetPropDynamic, GetElem} \<and>
     \<not> (\<exists>v t xs. operands i = OVal (Some v) # xs \<and> type_of st v = Some t \<and> primitive_kind (kind t))"

lemma branch_not_observable: "opcode i \<in> {Branch, CondBranch} \<Longrightarrow> \<not> observable st i"
  by (elim insertE; simp add: observable_def observable_ops_def)

definition simplified :: "hfunction \<Rightarrow> hfunction" where
  "simplified fn = fn\<lparr>blocks := fst (simplifyConstantCondBranches (blocks fn))\<rparr>"

interpretation simplify: transformation rt "observable st" "\<lambda>fn. ssa (fn_insts fn)" simplified
  "\<lambda>fn. simp_config (fn_insts fn)" for rt st
proof
  fix fn env c
  assume s: "start fn env c"
  let ?bs' = "blocks (simplified fn)"
  have bs: "list_all2 (simp_block (fn_insts fn)) (blocks fn) ?bs'"
    using simplify_inv by (simp add: simplified_def fn_insts_def)
  have r: "results (fn_insts (simplified fn)) = results (fn_insts fn)"
    using simp_insts_results [OF simp_blocks_insts [OF bs]] by (simp add: fn_insts_def)
  show "\<exists>c'. start (simplified fn) env c' \<and> simp_config (fn_insts fn) c c'"
    using s bs r by (cases "blocks fn"; cases ?bs') (auto simp: start_def simp_block_def)
next
  fix fn c c'
  show "simp_config (fn_insts fn) Halted c' \<Longrightarrow> c' = Halted" by (cases c') simp_all
next
  fix fn c ev d c'
  assume ssa: "ssa (fn_insts fn)" and st: "step rt (observable st) fn c ev d"
    and r: "config_reach rt fn c" and R: "simp_config (fn_insts fn) c c'"
  let ?tgt = "simplified fn" and ?obs = "observable st"
  have bs: "list_all2 (simp_block (fn_insts fn)) (blocks fn) (blocks ?tgt)"
    using simplify_inv by (simp add: simplified_def fn_insts_def)
  from st have "\<exists>d'. step rt ?obs ?tgt c' ev d' \<and> simp_config (fn_insts fn) d d'"
    using r R
  proof (cases rule: step.cases)
    case (step_inst i prev env x b "is")
    then obtain is' where c': "c' = Run prev b (i # is') env" "list_all2 (simp_inst (fn_insts fn)) is is'"
      using R simp_inst_not_condbranch
      by (cases c') (auto simp: list_all2_Cons1 isTerminator_def)
    have "step rt ?obs ?tgt c' ev (Run prev b is' (setValue env (result i) x))"
      unfolding c'(1) step_inst(2) using step_inst(4,5) by (rule step.step_inst)
    then show ?thesis using c'(2) step_inst(3) by auto
  next
    case (step_jump i env t blk prev b)
    then obtain i' where c': "c' = Run prev b [i'] env" "simp_inst (fn_insts fn) i i'"
      using R by (cases c') (auto simp: list_all2_Cons1)
    obtain blk' where b: "find_block (blocks ?tgt) t = Some blk'" "simp_block (fn_insts fn) blk blk'"
      using find_block_simp [OF bs] step_jump by blast
    have "jumps env i' t" using simp_jump [OF c'(2) _ ssa] step_jump r by auto
    moreover have "isTerminator i'" using simp_inst_keeps [OF c'(2)] step_jump by simp
    ultimately show ?thesis using step.step_jump [of i' env t ?tgt blk' rt ?obs prev b] b c' step_jump
      by (auto simp: simp_block_def)
  next
    case (step_exit i prev b env)
    then have "c' = Run prev b [i] env"
      using R simp_inst_not_condbranch by (cases c') (auto simp: list_all2_Cons1 exits_def)
    then have "step rt ?obs ?tgt c' ev Halted"
      unfolding step_exit(2) using step_exit(4) by (simp only: step.step_exit)
    then show ?thesis using step_exit(3) by auto
  qed
  then show "\<exists>d'. steps rt ?obs ?tgt c' ev d' \<and> simp_config (fn_insts fn) d d'" using one_step by blast
qed

section \<open>Removal of blocks and instructions: same runs\<close>

lemma succs_cfg: "find_block bs t = Some b \<Longrightarrow> succs (cfg bs) t = block_successors b"
  by (induction bs) (auto simp: find_block_def succs_def cfg_def split: if_splits)

lemma entry_reachable: "bs \<noteq> [] \<Longrightarrow> baddr (hd bs) \<in> findReachableBlocks bs"
  using search_start [of "[baddr (hd bs)]" "cfg bs"] by (cases bs) (auto simp: findReachableBlocks_def)

lemma reachable_successor:
  "b \<in> findReachableBlocks bs \<Longrightarrow> find_block bs b = Some blk \<Longrightarrow> t \<in> set (block_successors blk) \<Longrightarrow>
   t \<in> findReachableBlocks bs"
  using search_step succs_cfg by (cases bs) (fastforce simp: findReachableBlocks_def)+

definition distinct_addrs :: "hblock list \<Rightarrow> bool" where
  "distinct_addrs bs \<longleftrightarrow> distinct (map baddr bs) \<and> distinct (map iaddr (concat (map instructions bs)))"

lemma succs_def_graph:
  assumes "distinct (map iaddr is)" and "i \<in> set is"
  shows "succs (def_graph is) (iaddr i) = List.map_filter (\<lambda>v. map_option iaddr (find_def is v)) (inst_uses i)"
proof -
  let ?f = "\<lambda>i. List.map_filter (\<lambda>v. map_option iaddr (find_def is v)) (inst_uses i)"
  have "map_of (map (\<lambda>i. (iaddr i, ?f i)) is) (iaddr i) = Some (?f i)"
    using assms by (intro map_of_is_SomeI) (auto simp: comp_def)
  then show ?thesis by (simp add: succs_def def_graph_def)
qed

lemma find_def_ssa: "ssa is \<Longrightarrow> d \<in> set is \<Longrightarrow> result d = Some v \<Longrightarrow> find_def is v = Some d"
  unfolding find_def_def
  by (cases "find (\<lambda>i. result i = Some v) is")
    (auto simp: find_None_set dest: find_Some_set ssa_unique)

text \<open>Liveness: observable instructions and terminators of reachable blocks are live, and so is
  the definition of every value a live instruction uses.\<close>

lemma live_root:
  assumes "b \<in> set bs" and "baddr b \<in> R" and "i \<in> set (instructions b)"
    and "isTerminator i \<or> hasSideEffects st i"
  shows "iaddr i \<in> markLiveInstructions st R bs"
  using assms search_start [of "live_roots st R bs"] by (force simp: markLiveInstructions_def live_roots_def)

lemma live_use:
  assumes "ssa (concat (map instructions bs))" and "distinct (map iaddr (concat (map instructions bs)))"
    and "i \<in> set (concat (map instructions bs))" and "iaddr i \<in> markLiveInstructions st R bs"
    and "v \<in> set (inst_uses i)" and "d \<in> set (concat (map instructions bs))" and "result d = Some v"
  shows "iaddr d \<in> markLiveInstructions st R bs"
proof -
  let ?is = "concat (map instructions bs)"
  have "find_def ?is v = Some d" using find_def_ssa assms(1,6,7) by blast
  then have "iaddr d \<in> set (succs (def_graph ?is) (iaddr i))"
    unfolding succs_def_graph [OF assms(2,3)] using assms(5) by (force simp: List.map_filter_def)
  then show ?thesis using assms(4) search_step unfolding markLiveInstructions_def by fast
qed

text \<open>Terminators of kept blocks only jump to kept blocks, so redirecting dangling targets
  changes nothing they do.\<close>

lemma fix_operand_value [simp]: "getOperandValue env (fix_operand U e x) = getOperandValue env x"
  by (auto simp: fix_operand_def getOperandValue_def split: hoperand.split option.split)

lemma fix_terminator_sel [simp]:
  "opcode (fix_terminator U e i) = opcode i" "iaddr (fix_terminator U e i) = iaddr i"
  "result (fix_terminator U e i) = result i" "isTerminator (fix_terminator U e i) = isTerminator i"
  by (simp_all add: fix_terminator_def isTerminator_def)

lemma op_block_fix: "set (op_block x) \<inter> U = {} \<Longrightarrow> op_block (fix_operand U e x) = op_block x"
  by (auto simp: op_block_def fix_operand_def redirect_def split: hoperand.split option.split)

lemma map_filter_redirect:
  "set (List.map_filter snd cs) \<inter> U = {} \<Longrightarrow>
   map (\<lambda>(n, t). (n, map_option (redirect U e) t)) cs = cs"
proof (rule map_idI)
  fix p
  assume e: "set (List.map_filter snd cs) \<inter> U = {}" and "p \<in> set cs"
  then have "snd p = Some t \<Longrightarrow> t \<notin> U" for t by (force simp: List.map_filter_def)
  then show "(\<lambda>(n, t). (n, map_option (redirect U e) t)) p = p"
    by (cases p; cases "snd p") (auto simp: redirect_def)
qed

lemma jumps_fix:
  assumes "jumps env i t" and "set (term_successors i) \<inter> U = {}"
  shows "jumps env (fix_terminator U e i) t"
proof -
  consider "opcode i = Branch" | "opcode i = CondBranch" | "opcode i = Switch"
    using assms(1) by (auto simp: jumps_def term_successors_def split: if_splits)
  then show ?thesis
  proof cases
    case 1
    with assms show ?thesis
      by (cases "operands i") (auto simp: jumps_def term_successors_def fix_terminator_def op_block_fix)
  next
    case 2
    obtain c x y zs where o: "operands i = c # x # y # zs"
    proof (cases "operands i")
      case (Cons c os)
      with 2 assms(1) that show ?thesis
        by (cases os; cases "tl os") (auto simp: jumps_def term_successors_def)
    qed (use 2 assms(1) in \<open>simp add: jumps_def term_successors_def\<close>)
    with 2 assms(2) have "set (op_block x) \<inter> U = {}" "set (op_block y) \<inter> U = {}"
      by (auto simp: term_successors_def)
    with 2 o assms(1) show ?thesis
      by (simp add: jumps_def term_successors_def fix_terminator_def op_block_fix if_distrib cong: if_cong)
  next
    case 3
    with assms(2) have "set (List.map_filter snd (switchCases i)) \<inter> U = {}"
      "\<And>d. switchDefault i = Some d \<Longrightarrow> d \<notin> U"
      by (auto simp: term_successors_def)
    then have "switchCases (fix_terminator U e i) = switchCases i"
      "switchDefault (fix_terminator U e i) = switchDefault i"
      by (simp_all add: fix_terminator_def map_filter_redirect)
        (cases "switchDefault i"; simp add: redirect_def)
    with 3 assms(1) show ?thesis by (simp add: jumps_def term_successors_def)
  qed
qed

text \<open>An instruction and a block after the removal.\<close>

definition fixed_inst :: "bref set \<Rightarrow> bref \<Rightarrow> hinst \<Rightarrow> hinst \<Rightarrow> bool" where
  "fixed_inst U e i i' \<longleftrightarrow> i' = i \<or> isTerminator i \<and> i' = fix_terminator U e i"

definition removed_block :: "bref set \<Rightarrow> bref \<Rightarrow> iref set \<Rightarrow> hblock \<Rightarrow> hblock \<Rightarrow> bool" where
  "removed_block U e L b b' \<longleftrightarrow> baddr b' = baddr b \<and>
     list_all2 (fixed_inst U e) (filter (\<lambda>i. iaddr i \<in> L) (instructions b)) (instructions b')"

lemma fixed_inst_refl [simp]: "fixed_inst U e i i"
  by (simp add: fixed_inst_def)

lemma fix_block_removed:
  "baddr b \<in> R \<Longrightarrow> removed_block U e L b
     ((if baddr (fix_block U e b') \<in> R then (fix_block U e b')\<lparr>instructions :=
         filter (\<lambda>i. iaddr i \<in> L) (instructions (fix_block U e b'))\<rparr> else fix_block U e b'))"
  if "b' = b\<lparr>predecessors := ps\<rparr>" for b b' ps
proof -
  assume R: "baddr b \<in> R"
  have "list_all2 (fixed_inst U e) (instructions b) (instructions (fix_block U e b'))"
  proof (cases "instructions b = [] \<or> \<not> isTerminator (last (instructions b))")
    case True
    then show ?thesis using that by (simp add: fix_block_def list_all2_same)
  next
    case False
    then obtain xs i where x: "instructions b = xs @ [i]" "isTerminator i"
      by (metis append_butlast_last_id)
    then show ?thesis using that
      by (simp add: fix_block_def list_all2_appendI list_all2_same fixed_inst_def)
  qed
  then have "list_all2 (fixed_inst U e) (filter (\<lambda>i. iaddr i \<in> L) (instructions b))
      (filter (\<lambda>i. iaddr i \<in> L) (instructions (fix_block U e b')))"
    by (induction rule: list_all2_induct) (auto simp: fixed_inst_def)
  moreover have "baddr (fix_block U e b') = baddr b" using that by (simp add: fix_block_def)
  ultimately show ?thesis using R by (simp add: removed_block_def)
qed

definition removed :: "hblock list \<Rightarrow> bref set" where
  "removed bs = set (map baddr (filter (\<lambda>b. baddr b \<notin> findReachableBlocks bs) bs))"

definition swept :: "hstore \<Rightarrow> hblock list \<Rightarrow> hblock list" where
  "swept st bs =
     (let R = findReachableBlocks bs
      in fst (removeDeadInstructions R (markLiveInstructions st R bs) (fst (removeUnreachableBlocks R bs))))"

lemma removed_disjoint: "removed bs \<inter> findReachableBlocks bs = {}"
  by (auto simp: removed_def)

lemma swept_blocks:
  "\<exists>e. list_all2 (removed_block (removed bs) e (markLiveInstructions st (findReachableBlocks bs) bs))
     (filter (\<lambda>b. baddr b \<in> findReachableBlocks bs) bs) (swept st bs)"
proof -
  let ?R = "findReachableBlocks bs"
  let ?L = "markLiveInstructions st ?R bs"
  let ?U = "removed bs"
  let ?g = "\<lambda>b. b\<lparr>predecessors := filter (\<lambda>p. p \<notin> ?U) (predecessors b)\<rparr>"
  let ?bs = "filter (\<lambda>b. baddr b \<in> ?R) bs"
  let ?e = "baddr (hd (map ?g ?bs))"
  let ?sweep = "\<lambda>b. if baddr b \<in> ?R then b\<lparr>instructions := filter (\<lambda>i. iaddr i \<in> ?L) (instructions b)\<rparr> else b"
  have f: "filter (\<lambda>b. baddr b \<notin> ?U) bs = ?bs" by (rule filter_cong) (auto simp: removed_def)
  have "swept st bs = map ?sweep (if ?U \<noteq> {} \<and> map ?g ?bs \<noteq> [] then map (fix_block ?U ?e) (map ?g ?bs) else map ?g ?bs)"
    unfolding swept_def removeUnreachableBlocks_def removeDeadInstructions_def Let_def fst_conv
      removed_def [symmetric] f by simp
  then have "swept st bs = map (\<lambda>b. ?sweep (fix_block ?U ?e (?g b))) ?bs \<or> swept st bs = map (\<lambda>b. ?sweep (?g b)) ?bs"
    by (cases "?U \<noteq> {} \<and> map ?g ?bs \<noteq> []") (simp_all only: if_True if_False map_map comp_def simp_thms)
  then show ?thesis
  proof
    assume 1: "swept st bs = map (\<lambda>b. ?sweep (fix_block ?U ?e (?g b))) ?bs"
    have "removed_block ?U ?e ?L b (?sweep (fix_block ?U ?e (?g b)))" if "b \<in> set ?bs" for b
      using fix_block_removed [OF refl, of b ?R ?U ?e ?L] that by (simp del: if_split)
    then show ?thesis unfolding 1 by (intro exI [of _ ?e]) (simp only: list_all2_map2 list_all2_same, blast)
  next
    assume 2: "swept st bs = map (\<lambda>b. ?sweep (?g b)) ?bs"
    have "removed_block ?U ?e ?L b (?sweep (?g b))" if "b \<in> set ?bs" for b
      using that by (simp add: removed_block_def list_all2_same)
    then show ?thesis unfolding 2 by (intro exI [of _ ?e]) (simp only: list_all2_map2 list_all2_same, blast)
  qed
qed

lemma find_block_filter: "find_block bs t = Some b \<Longrightarrow> t \<in> R \<Longrightarrow> find_block (filter (\<lambda>b. baddr b \<in> R) bs) t = Some b"
  by (induction bs) (auto simp: find_block_def split: if_splits)

lemma find_block_removed:
  assumes "list_all2 (removed_block U e L) bs bs'" and "find_block bs t = Some b"
  shows "\<exists>b'. find_block bs' t = Some b' \<and> removed_block U e L b b'"
  using assms
  by (induction rule: list_all2_induct) (auto simp: find_block_def removed_block_def split: if_splits)

lemma removed_insts:
  assumes "list_all2 (removed_block U e L) bs bs'" and "v \<in> set (results (concat (map instructions bs')))"
  shows "v \<in> set (results (concat (map instructions bs)))"
proof -
  obtain b' i' where i': "b' \<in> set bs'" "i' \<in> set (instructions b')" "result i' = Some v"
    using assms(2) by (auto simp: in_results)
  then obtain b where b: "b \<in> set bs" "removed_block U e L b b'"
    using assms(1) by (metis in_set_conv_nth list_all2_conv_all_nth)
  then obtain i where "i \<in> set (filter (\<lambda>i. iaddr i \<in> L) (instructions b))" "fixed_inst U e i i'"
    using i'(2) unfolding removed_block_def by (metis in_set_conv_nth list_all2_conv_all_nth)
  then have "i \<in> set (instructions b)" "fixed_inst U e i i'" by simp_all
  moreover from this have "result i = Some v" using i'(3) by (auto simp: fixed_inst_def)
  ultimately show ?thesis using b(1) by (auto simp: in_results)
qed

lemma in_block_last:
  "in_block fn (Run prev b [i] env) \<Longrightarrow> find_block (blocks fn) b = Some blk \<Longrightarrow>
   set (block_successors blk) = set (term_successors i)"
  by (auto simp: block_successors_def)

text \<open>The relation between a run before and after the removal: the same place, the live rest of
  the block, and the same values where they are still computed.\<close>

definition live_set :: "hstore \<Rightarrow> hblock list \<Rightarrow> iref set" where
  "live_set st bs = markLiveInstructions st (findReachableBlocks bs) bs"

definition kept_value :: "hstore \<Rightarrow> hblock list \<Rightarrow> vref \<Rightarrow> bool" where
  "kept_value st bs v \<longleftrightarrow>
     (\<forall>d\<in>set (concat (map instructions bs)). result d = Some v \<longrightarrow> iaddr d \<in> live_set st bs)"

fun dead_config :: "hstore \<Rightarrow> hblock list \<Rightarrow> bref \<Rightarrow> config \<Rightarrow> config \<Rightarrow> bool" where
  "dead_config st bs e (Run p b xs env) (Run p' b' xs' env') \<longleftrightarrow>
     p' = p \<and> b' = b \<and> b \<in> findReachableBlocks bs \<and> (\<forall>v. kept_value st bs v \<longrightarrow> env' v = env v) \<and>
     list_all2 (fixed_inst (removed bs) e) (filter (\<lambda>i. iaddr i \<in> live_set st bs) xs) xs'"
| "dead_config st bs e Halted c \<longleftrightarrow> c = Halted"
| "dead_config st bs e (Run p b xs env) Halted \<longleftrightarrow> False"

lemma dead_config_RunE:
  assumes "dead_config st bs e (Run p b xs env) c'"
  obtains xs' env' where "c' = Run p b xs' env'" "b \<in> findReachableBlocks bs"
    "\<forall>v. kept_value st bs v \<longrightarrow> env v = env' v"
    "list_all2 (fixed_inst (removed bs) e) (filter (\<lambda>i. iaddr i \<in> live_set st bs) xs) xs'"
  using assms by (cases c') auto

definition sweepable :: "hfunction \<Rightarrow> bool" where
  "sweepable fn \<longleftrightarrow> ssa (fn_insts fn) \<and> distinct_addrs (blocks fn)"

lemma kept_uses:
  assumes "sweepable fn" and "i \<in> set (fn_insts fn)" and "iaddr i \<in> live_set st (blocks fn)"
    and "v \<in> set (inst_uses i)"
  shows "kept_value st (blocks fn) v"
  using live_use [of "blocks fn" i st "findReachableBlocks (blocks fn)" v] assms
  by (auto simp: sweepable_def distinct_addrs_def fn_insts_def kept_value_def live_set_def)

text \<open>The place of a running configuration: its instruction is one of the function, live when it
  is a terminator or observable.\<close>

lemma in_block_place:
  assumes "in_block fn (Run prev b (i # is) env)" and "b \<in> findReachableBlocks (blocks fn)"
  shows "i \<in> set (fn_insts fn)"
    and "isTerminator i \<or> hasSideEffects st i \<Longrightarrow> iaddr i \<in> live_set st (blocks fn)"
proof -
  obtain blk where blk: "blk \<in> set (blocks fn)" "baddr blk = b" "i \<in> set (instructions blk)"
    using assms(1) by (auto dest!: find_block_in)
  then show "i \<in> set (fn_insts fn)" by (auto intro: insts_in_fn)
  show "isTerminator i \<or> hasSideEffects st i \<Longrightarrow> iaddr i \<in> live_set st (blocks fn)"
    unfolding live_set_def using live_root [OF blk(1) _ blk(3)] blk(2) assms(2) by blast
qed

lemma dead_step_inst:
  assumes fn: "sweepable fn" and obs: "obs i \<Longrightarrow> hasSideEffects st i"
    and st: "\<not> isTerminator i" "runs rt prev i env x"
    and inb: "in_block fn (Run prev b (i # is) env)"
    and rel: "dead_config st (blocks fn) e (Run prev b (i # is) env) c'"
  shows "\<exists>d'. steps rt obs tgt c' (events obs i env (Some x)) d' \<and>
    dead_config st (blocks fn) e (Run prev b is (setValue env (result i) x)) d'"
proof -
  obtain xs' env' where c': "c' = Run prev b xs' env'" "b \<in> findReachableBlocks (blocks fn)"
    "\<forall>v. kept_value st (blocks fn) v \<longrightarrow> env v = env' v"
    "list_all2 (fixed_inst (removed (blocks fn)) e) (filter (\<lambda>i. iaddr i \<in> live_set st (blocks fn)) (i # is)) xs'"
    using rel by (rule dead_config_RunE)
  note i = in_block_place [OF inb c'(2)]
  show ?thesis
  proof (cases "iaddr i \<in> live_set st (blocks fn)")
    case True
    then obtain xs where xs: "xs' = i # xs"
      "list_all2 (fixed_inst (removed (blocks fn)) e) (filter (\<lambda>i. iaddr i \<in> live_set st (blocks fn)) is) xs"
      using c'(4) st(1) by (auto simp: list_all2_Cons1 fixed_inst_def)
    have same: "env v = env' v" if "v \<in> set (inst_uses i)" for v
      using kept_uses [OF fn i(1) True that] c'(3) by simp
    have "step rt obs tgt c' (events obs i env' (Some x)) (Run prev b xs (setValue env' (result i) x))"
      unfolding c'(1) xs(1) by (rule step.step_inst [OF st(1) runs_cong [OF st(2) same]])
    moreover have "events obs i env (Some x) = events obs i env' (Some x)"
      using events_cong [of i env env', OF same] by (simp add: events_def)
    moreover have "dead_config st (blocks fn) e (Run prev b is (setValue env (result i) x))
        (Run prev b xs (setValue env' (result i) x))"
      using c' xs(2) by (auto simp: setValue_def split: option.split)
    ultimately show ?thesis using one_step by metis
  next
    case False
    then have "events obs i env (Some x) = []" using i(2) obs by (auto simp: events_def)
    moreover have "env' v = setValue env (result i) x v" if "kept_value st (blocks fn) v" for v
    proof -
      have "result i \<noteq> Some v" using that i(1) False by (auto simp: kept_value_def fn_insts_def)
      then show ?thesis using c'(3) that by (auto simp: setValue_def split: option.split)
    qed
    ultimately show ?thesis
      using c' False steps_refl [of rt obs tgt c'] by (intro exI [of _ c']) simp
  qed
qed

text \<open>At the end of a block the terminator is live, reads the same operands and, redirected or
  not, does the same.\<close>

lemma dead_terminator:
  assumes fn: "sweepable fn" and "isTerminator i" and inb: "in_block fn (Run prev b [i] env)"
    and rel: "dead_config st (blocks fn) e (Run prev b [i] env) c'"
  obtains i' env' where "c' = Run prev b [i'] env'" "fixed_inst (removed (blocks fn)) e i i'"
    "\<forall>v. kept_value st (blocks fn) v \<longrightarrow> env v = env' v"
    "\<forall>x\<in>set (operands i). getOperandValue env x = getOperandValue env' x"
    "set (term_successors i) \<subseteq> findReachableBlocks (blocks fn)"
proof -
  obtain xs' env' where c': "c' = Run prev b xs' env'" "b \<in> findReachableBlocks (blocks fn)"
    "\<forall>v. kept_value st (blocks fn) v \<longrightarrow> env v = env' v"
    "list_all2 (fixed_inst (removed (blocks fn)) e) (filter (\<lambda>i. iaddr i \<in> live_set st (blocks fn)) [i]) xs'"
    using rel by (rule dead_config_RunE)
  have L: "iaddr i \<in> live_set st (blocks fn)" using in_block_place(2) [OF inb c'(2)] assms(2) by blast
  then obtain i' where i': "xs' = [i']" "fixed_inst (removed (blocks fn)) e i i'"
    using c'(4) by (auto simp: list_all2_Cons1)
  have "env v = env' v" if "v \<in> set (inst_uses i)" for v
    using kept_uses [OF fn in_block_place(1) [OF inb c'(2)] L that] c'(3) by simp
  then have ops: "\<forall>x\<in>set (operands i). getOperandValue env x = getOperandValue env' x"
    using operands_cong [of i env env'] by blast
  obtain cur where cur: "find_block (blocks fn) b = Some cur" using inb by auto
  have "set (term_successors i) \<subseteq> findReachableBlocks (blocks fn)"
    using reachable_successor [OF c'(2) cur] in_block_last [OF inb cur] by blast
  then show ?thesis using that c' i' ops by blast
qed

lemma dead_step_jump:
  assumes fn: "sweepable fn" and st: "isTerminator i" "jumps env i t" "find_block (blocks fn) t = Some blk"
    and inb: "in_block fn (Run prev b [i] env)"
    and rel: "dead_config st (blocks fn) e (Run prev b [i] env) c'"
    and sw: "list_all2 (removed_block (removed (blocks fn)) e (live_set st (blocks fn)))
      (filter (\<lambda>b. baddr b \<in> findReachableBlocks (blocks fn)) (blocks fn)) (blocks tgt)"
  shows "\<exists>d'. steps rt obs tgt c' [] d' \<and>
    dead_config st (blocks fn) e (Run (Some b) t (instructions blk) env) d'"
proof -
  obtain i' env' where c': "c' = Run prev b [i'] env'" "fixed_inst (removed (blocks fn)) e i i'"
    "\<forall>v. kept_value st (blocks fn) v \<longrightarrow> env v = env' v"
    "\<forall>x\<in>set (operands i). getOperandValue env x = getOperandValue env' x"
    "set (term_successors i) \<subseteq> findReachableBlocks (blocks fn)"
    using dead_terminator [OF fn st(1) inb rel] by blast
  have "jumps env' i t" using st(2) c'(4) by (auto simp: jumps_def)
  moreover have "set (term_successors i) \<inter> removed (blocks fn) = {}"
    using c'(5) removed_disjoint by blast
  ultimately have "jumps env' i' t" using c'(2) jumps_fix by (auto simp: fixed_inst_def)
  moreover have "isTerminator i'" using c'(2) st(1) by (auto simp: fixed_inst_def)
  moreover have t: "t \<in> findReachableBlocks (blocks fn)" using c'(5) st(2) by (auto simp: jumps_def)
  moreover obtain blk' where blk: "find_block (blocks tgt) t = Some blk'"
    "removed_block (removed (blocks fn)) e (live_set st (blocks fn)) blk blk'"
    using find_block_removed [OF sw find_block_filter [OF st(3) t]] by blast
  ultimately have "step rt obs tgt c' [] (Run (Some b) t (instructions blk') env')"
    using c'(1) step.step_jump by simp
  moreover have "dead_config st (blocks fn) e (Run (Some b) t (instructions blk) env)
      (Run (Some b) t (instructions blk') env')"
    using t c'(3) blk(2) by (simp add: removed_block_def)
  ultimately show ?thesis using one_step by blast
qed

lemma dead_step_exit:
  assumes fn: "sweepable fn" and st: "exits i" and inb: "in_block fn (Run prev b [i] env)"
    and rel: "dead_config st (blocks fn) e (Run prev b [i] env) c'"
  shows "steps rt obs tgt c' [(iaddr i, opcode i, map (getOperandValue env) (operands i), None)] Halted"
proof -
  have "isTerminator i" using st by (auto simp: exits_def isTerminator_def)
  then obtain i' env' where c': "c' = Run prev b [i'] env'" "fixed_inst (removed (blocks fn)) e i i'"
    "\<forall>x\<in>set (operands i). getOperandValue env x = getOperandValue env' x"
    using dead_terminator [OF fn _ inb rel] by blast
  have "map (getOperandValue env') (operands i') = map (getOperandValue env) (operands i)"
    using c'(2,3) by (auto simp: fixed_inst_def fix_terminator_def)
  moreover have "opcode i' = opcode i" "iaddr i' = iaddr i" using c'(2) by (auto simp: fixed_inst_def)
  ultimately show ?thesis
    using one_step [OF step.step_exit [of i' rt obs tgt prev b env']] c'(1) st by (simp add: exits_def)
qed

lemma dead_start:
  assumes s: "start fn env c"
    and sw: "list_all2 (removed_block (removed (blocks fn)) e (live_set st (blocks fn)))
      (filter (\<lambda>b. baddr b \<in> findReachableBlocks (blocks fn)) (blocks fn)) (blocks tgt)"
  shows "\<exists>c'. start tgt env c' \<and> dead_config st (blocks fn) e c c'"
proof -
  obtain b0 bs0 where b0: "blocks fn = b0 # bs0" using s by (cases "blocks fn") (auto simp: start_def)
  have en: "baddr b0 \<in> findReachableBlocks (blocks fn)" using entry_reachable [of "blocks fn"] b0 by simp
  then obtain b0' bs' where b': "blocks tgt = b0' # bs'"
    "removed_block (removed (blocks fn)) e (live_set st (blocks fn)) b0 b0'"
    using sw b0 by (auto simp: list_all2_Cons1)
  have "v \<in> set (results (fn_insts fn))" if "v \<in> set (results (fn_insts tgt))" for v
    using removed_insts [OF sw, of v] that by (auto simp: fn_insts_def in_results)
  then have "start tgt env (Run None (baddr b0') (instructions b0') env)"
    using s b' by (auto simp: start_def)
  moreover have "dead_config st (blocks fn) e c (Run None (baddr b0') (instructions b0') env)"
    using s b0 b' en by (simp add: start_def removed_block_def)
  ultimately show ?thesis by blast
qed

lemma observable_effect:
  assumes "observable st i"
  shows "hasSideEffects st i"
proof -
  have e: "observable_ops = side_effect_ops" unfolding observable_ops_def side_effect_ops_def by blast
  show ?thesis
  proof (cases "opcode i \<in> side_effect_ops")
    case False
    with assms e have "opcode i \<in> {GetPropStatic, GetPropDynamic, GetElem}"
      "\<nexists>v t xs. operands i = OVal (Some v) # xs \<and> type_of st v = Some t \<and> primitive_kind (kind t)"
      by (simp_all add: observable_def)
    then show ?thesis
      using False unfolding hasSideEffects_def by (auto split: list.split hoperand.split option.split)
  qed (simp add: hasSideEffects_def)
qed

definition sweep :: "hstore \<Rightarrow> hfunction \<Rightarrow> hfunction" where
  "sweep st fn = fn\<lparr>blocks := swept st (blocks fn)\<rparr>"

definition sweep_config :: "hstore \<Rightarrow> hfunction \<Rightarrow> config \<Rightarrow> config \<Rightarrow> bool" where
  "sweep_config st fn c c' \<longleftrightarrow> (\<exists>e. dead_config st (blocks fn) e c c' \<and>
     list_all2 (removed_block (removed (blocks fn)) e (live_set st (blocks fn)))
       (filter (\<lambda>b. baddr b \<in> findReachableBlocks (blocks fn)) (blocks fn)) (blocks (sweep st fn)))"

interpretation sweep: transformation rt "observable st" sweepable "sweep st" "sweep_config st" for rt st
proof
  fix fn env c
  assume s: "start fn env c"
  obtain e where sw: "list_all2 (removed_block (removed (blocks fn)) e (live_set st (blocks fn)))
      (filter (\<lambda>b. baddr b \<in> findReachableBlocks (blocks fn)) (blocks fn)) (blocks (sweep st fn))"
    using swept_blocks [of "blocks fn" st] by (auto simp: live_set_def sweep_def)
  with dead_start [OF s sw] show "\<exists>c'. start (sweep st fn) env c' \<and> sweep_config st fn c c'"
    unfolding sweep_config_def by blast
next
  fix fn c'
  show "sweep_config st fn Halted c' \<Longrightarrow> c' = Halted" by (simp add: sweep_config_def)
next
  fix fn c ev d c'
  assume ok: "sweepable fn" and st: "step rt (observable st) fn c ev d" and inb: "in_block fn c"
    and "sweep_config st fn c c'"
  then obtain e where rel: "dead_config st (blocks fn) e c c'"
    and sw: "list_all2 (removed_block (removed (blocks fn)) e (live_set st (blocks fn)))
      (filter (\<lambda>b. baddr b \<in> findReachableBlocks (blocks fn)) (blocks fn)) (blocks (sweep st fn))"
    unfolding sweep_config_def by blast
  have "\<exists>d'. steps rt (observable st) (sweep st fn) c' ev d' \<and> dead_config st (blocks fn) e d d'"
    using st
  proof (cases rule: step.cases)
    case step_inst
    then show ?thesis
      using dead_step_inst [where tgt = "sweep st fn" and obs = "observable st"] ok observable_effect inb rel by simp
  next
    case step_jump
    then show ?thesis using dead_step_jump [OF ok _ _ _ _ _ sw] inb rel by simp
  next
    case step_exit
    then show ?thesis using dead_step_exit [OF ok] inb rel by auto
  qed
  then show "\<exists>d'. steps rt (observable st) (sweep st fn) c' ev d' \<and> sweep_config st fn d d'"
    using sw unfolding sweep_config_def by blast
qed

section \<open>Properties\<close>

lemma succs_cfg_None: "find_block bs t = None \<Longrightarrow> succs (cfg bs) t = []"
  by (induction bs) (auto simp: find_block_def succs_def cfg_def split: if_splits)

lemma distinct_addrs_simp:
  assumes "list_all2 (simp_block is) bs bs'" and "distinct_addrs bs"
  shows "distinct_addrs bs'"
proof -
  have "map baddr bs' = map baddr bs"
    using assms(1) by (induction rule: list_all2_induct) (simp_all add: simp_block_def)
  moreover have "map iaddr (concat (map instructions bs')) = map iaddr (concat (map instructions bs))"
    using simp_blocks_insts [OF assms(1)]
    by (induction rule: list_all2_induct) (simp_all add: simp_inst_keeps)
  ultimately show ?thesis using assms(2) by (simp add: distinct_addrs_def)
qed

lemma dce_stages:
  assumes "dce_runOnFunction m fn st = (r, fn', st')"
  shows "fn' = sweep st (simplified fn)" and "st' = st"
    and "list_all2 (simp_block (fn_insts fn)) (blocks fn) (blocks (simplified fn))"
  using assms simplify_inv [of "blocks fn"]
  by (auto simp: dce_runOnFunction_def sweep_def swept_def simplified_def Let_def fn_insts_def split: prod.splits)

lemma sweepable_simp:
  assumes "ssa (fn_insts fn)" and "distinct_addrs (blocks fn)"
  shows "sweepable (simplified fn)"
proof -
  have "list_all2 (simp_block (fn_insts fn)) (blocks fn) (blocks (simplified fn))"
    using simplify_inv by (simp add: simplified_def fn_insts_def)
  then show ?thesis
    using simp_insts_results [OF simp_blocks_insts] distinct_addrs_simp assms
    by (fastforce simp: sweepable_def ssa_def fn_insts_def)
qed

text \<open>
  C2. Dead code elimination loses no behaviour: for a function in single-assignment form, every
  run of it, from any values of its parameters, is matched by a run of the result that shows
  the same calls, stores, property reads, suspensions and exits in the same order with the same
  operand values, and ends when it ends.
\<close>

theorem dce_preserves_runs:
  assumes "dce_runOnFunction m fn st = (r, fn', st')" and "ssa (fn_insts fn)"
    and "distinct_addrs (blocks fn)" and "run_of rt (observable st) fn env es c"
  shows "\<exists>c'. run_of rt (observable st) fn' env es c' \<and> (c = Halted \<longrightarrow> c' = Halted)"
  unfolding dce_stages(1) [OF assms(1)]
  using simplify.trans_run [OF assms(2,4)] sweep.trans_run [OF sweepable_simp [OF assms(2,3)]] by metis

text \<open>
  C19. The blocks that survive are exactly those the entry reaches along the terminators (after
  constant conditions are resolved), in their old order; every other block is gone.
\<close>

theorem dce_keeps_reachable_blocks:
  "case dce_runOnFunction m fn st of (r, fn', st') \<Rightarrow>
     (let bs = fst (simplifyConstantCondBranches (blocks fn))
      in map baddr (blocks fn') =
         filter (\<lambda>a. (baddr (hd bs), a) \<in> {(x, y). \<exists>b. find_block bs x = Some b \<and> y \<in> set (block_successors b)}\<^sup>*)
           (map baddr (blocks fn)))"
proof -
  obtain r fn' st' where run: "dce_runOnFunction m fn st = (r, fn', st')" by (rule prod_cases3)
  let ?fn1 = "simplified fn" and ?bs = "blocks (simplified fn)"
  note fn1 = dce_stages [OF run]
  have "succs (cfg ?bs) x = (case find_block ?bs x of Some b \<Rightarrow> block_successors b | None \<Rightarrow> [])" for x
    using succs_cfg [of ?bs x] succs_cfg_None [of ?bs x] by (cases "find_block ?bs x") simp_all
  then have ed: "edges (cfg ?bs) = {(x, y). \<exists>b. find_block ?bs x = Some b \<and> y \<in> set (block_successors b)}"
    by (simp add: edges_def set_eq_iff split: option.split) metis
  obtain e where "list_all2 (removed_block (removed ?bs) e (live_set st ?bs))
      (filter (\<lambda>b. baddr b \<in> findReachableBlocks ?bs) ?bs) (blocks fn')"
    using swept_blocks [of ?bs st] fn1(1) by (auto simp: live_set_def sweep_def)
  then have "map baddr (blocks fn') = map baddr (filter (\<lambda>b. baddr b \<in> findReachableBlocks ?bs) ?bs)"
    by (induction rule: list_all2_induct) (simp_all add: removed_block_def)
  also have "\<dots> = filter (\<lambda>a. a \<in> findReachableBlocks ?bs) (map baddr ?bs)"
    by (simp add: filter_map comp_def)
  also have "map baddr ?bs = map baddr (blocks fn)"
    using fn1(3) by (induction rule: list_all2_induct) (simp_all add: simp_block_def)
  also have "filter (\<lambda>a. a \<in> findReachableBlocks ?bs) (map baddr (blocks fn)) =
      filter (\<lambda>a. (baddr (hd ?bs), a) \<in> (edges (cfg ?bs))\<^sup>*) (map baddr (blocks fn))"
  proof (cases ?bs)
    case Nil
    then have "blocks fn = []" using fn1(3) by simp
    then show ?thesis by simp
  qed (simp add: findReachableBlocks_def search_reachable)
  finally show ?thesis unfolding run ed by (simp add: simplified_def)
qed

text \<open>A function whose entry branches on a constant, with a dead instruction and a dead block.\<close>

definition dce_example :: hfunction where
  "dce_example =
     (let inst = (\<lambda>op a r ops. (mk_inst op a)\<lparr>result := r, operands := ops\<rparr>);
          blk = (\<lambda>a is. \<lparr>baddr = a, blk_label = [], blk_params = [], instructions = is,
                    predecessors = [], successors = []\<rparr>)
      in \<lparr>fn_name = ''f'', mangledName = ''f'', fn_returnType = None, fn_params = [],
         blocks = [blk 0 [inst ConstBool 0 (Some 0) [OBool True], inst ConstInt 1 (Some 1) [OInt 7],
                          inst CondBranch 2 None [OVal (Some 0), OBlock (Some 1), OBlock (Some 2)]],
                   blk 1 [inst ReturnVoid 3 None []],
                   blk 2 [inst Unreachable 4 None []]],
         captures = [], isAsync = False, isGenerator = False, nextValueId = 2\<rparr>)"

lemma dce_example_insts:
  "fn_insts dce_example =
     [(mk_inst ConstBool 0)\<lparr>result := Some 0, operands := [OBool True]\<rparr>,
      (mk_inst ConstInt 1)\<lparr>result := Some 1, operands := [OInt 7]\<rparr>,
      (mk_inst CondBranch 2)\<lparr>operands := [OVal (Some 0), OBlock (Some 1), OBlock (Some 2)]\<rparr>,
      mk_inst ReturnVoid 3, mk_inst Unreachable 4]"
  by (simp add: dce_example_def fn_insts_def mk_inst_def)

lemma dce_example_ok: "ssa (fn_insts dce_example)" "distinct_addrs (blocks dce_example)"
  by (simp_all add: dce_example_insts ssa_def distinct_addrs_def flip: fn_insts_def)
    (simp_all add: mk_inst_def dce_example_def)

lemma dce_example_steps:
  "run_of rt obs dce_example Map.empty
     (events obs (fn_insts dce_example ! 0) Map.empty (Some (RI1 True)) @
      events obs (fn_insts dce_example ! 1) [0 \<mapsto> RI1 True] (Some (RI64 7)) @ [(3, ReturnVoid, [], None)]) Halted"
  (is "run_of rt obs ?fn _ (?e0 @ ?e1 @ ?e2) _")
proof -
  let ?is = "fn_insts ?fn"
  let ?env = "[0 \<mapsto> RI1 True, 1 \<mapsto> RI64 7] :: env"
  note ex = dce_example_insts mk_inst_def isTerminator_def
  have b: "find_block (blocks ?fn) 1 = Some (blocks ?fn ! 1)" "instructions (blocks ?fn ! 1) = [?is ! 3]"
    "instructions (hd (blocks ?fn)) = [?is ! 0, ?is ! 1, ?is ! 2]" "blocks ?fn \<noteq> []" "baddr (hd (blocks ?fn)) = 0"
    by (simp_all add: dce_example_def find_block_def fn_insts_def)
  have c: "runs rt None (?is ! 0) Map.empty (RI1 True)" "runs rt None (?is ! 1) [0 \<mapsto> RI1 True] (RI64 7)"
    by (auto simp: runs_def computes_const_iff ex const_ops_def const_loads_def lowerConstBool_def
        lowerConstInt_def getOperandInt_def)
  have j: "jumps ?env (?is ! 2) 1"
    by (simp add: jumps_def ex term_successors_def op_block_def getOperandValue_def)
  let ?c0 = "Run None 0 [?is ! 0, ?is ! 1, ?is ! 2] Map.empty"
  have s: "start ?fn Map.empty ?c0" using b by (simp add: start_def)
  have s1: "step rt obs ?fn ?c0 ?e0 (Run None 0 [?is ! 1, ?is ! 2] [0 \<mapsto> RI1 True])"
    using step_inst [of "?is ! 0", OF _ c(1)] by (simp add: ex)
  have s2: "step rt obs ?fn (Run None 0 [?is ! 1, ?is ! 2] [0 \<mapsto> RI1 True]) ?e1 (Run None 0 [?is ! 2] ?env)"
    using step_inst [of "?is ! 1", OF _ c(2)] by (simp add: ex)
  have s3: "step rt obs ?fn (Run None 0 [?is ! 2] ?env) [] (Run (Some 0) 1 [?is ! 3] ?env)"
    using step_jump [of "?is ! 2", OF _ j b(1)] b(2) by (simp add: ex)
  have s4: "step rt obs ?fn (Run (Some 0) 1 [?is ! 3] ?env) ?e2 Halted"
    using step_exit [of "?is ! 3"] by (simp add: ex exits_def)
  from steps_more [OF steps_more [OF steps_more [OF steps_more [OF steps_refl s1] s2] s3] s4]
  have "steps rt obs ?fn ?c0 (?e0 @ ?e1 @ ?e2) Halted" by simp
  then show ?thesis using s unfolding run_of_def by auto
qed

theorem dce_preserves_runs_witness:
  "\<forall>m st rt. \<exists>r fn' st'. dce_runOnFunction m dce_example st = (r, fn', st') \<and>
     run_of rt (observable st) fn' Map.empty [(3, ReturnVoid, [], None)] Halted"
proof (intro allI)
  fix m st rt
  obtain r fn' st' where run: "dce_runOnFunction m dce_example st = (r, fn', st')"
    by (rule prod_cases3)
  have "\<not> observable st (fn_insts dce_example ! k)" if "k < 2" for k
    using that by (auto simp: dce_example_insts less_2_cases_iff observable_def observable_ops_def mk_inst_def)
  then have "run_of rt (observable st) dce_example Map.empty [(3, ReturnVoid, [], None)] Halted"
    using dce_example_steps [of rt "observable st"] by (simp add: events_def)
  from dce_preserves_runs [OF run dce_example_ok this] run
  show "\<exists>r fn' st'. dce_runOnFunction m dce_example st = (r, fn', st') \<and>
      run_of rt (observable st) fn' Map.empty [(3, ReturnVoid, [], None)] Halted" by blast
qed

lemma simplify_unchanged:
  assumes "\<not> snd (simplifyConstantCondBranches bs)"
  shows "fst (simplifyConstantCondBranches bs) = bs"
proof -
  have at: "\<not> snd (simplify_at k s) \<Longrightarrow> simplify_at k s = s" for k s
    by (auto simp: simplify_at_def Let_def split: prod.splits if_splits option.splits)
  have "\<not> snd (fold simplify_at ks s) \<Longrightarrow> fold simplify_at ks s = s" for ks s
  proof (induction ks arbitrary: s)
    case (Cons k ks)
    then have "fold simplify_at ks (simplify_at k s) = simplify_at k s" by simp
    with Cons.prems at show ?case by simp
  qed simp
  from this [of "[0..<length bs]" "(bs, False)"] show ?thesis
    using assms by (simp add: simplifyConstantCondBranches_def)
qed

lemma removeDead_unchanged:
  assumes "\<not> snd (removeDeadInstructions R L bs)"
  shows "fst (removeDeadInstructions R L bs) = bs"
proof -
  have "b\<lparr>instructions := filter (\<lambda>i. iaddr i \<in> L) (instructions b)\<rparr> = b"
    if "b \<in> set bs" "baddr b \<in> R" for b
  proof -
    have "filter (\<lambda>i. iaddr i \<in> L) (instructions b) = instructions b"
      using assms that by (auto simp: removeDeadInstructions_def filter_id_conv)
    then show ?thesis by simp
  qed
  then show ?thesis by (auto simp: removeDeadInstructions_def intro!: map_idI)
qed

lemma dce_contract:
  "case dce_runOnFunction m fn st of (r, fn', st') \<Rightarrow> success r \<and> st' = st \<and> (changed r \<or> fn' = fn)"
proof -
  let ?s = "simplifyConstantCondBranches (blocks fn)"
  let ?R = "findReachableBlocks (fst ?s)" and ?L = "markLiveInstructions st (findReachableBlocks (fst ?s)) (fst ?s)"
  let ?u = "removeUnreachableBlocks ?R (fst ?s)"
  let ?d = "removeDeadInstructions ?R ?L (fst ?u)"
  have "fst ?s = blocks fn" if "\<not> snd ?s" using that simplify_unchanged by metis
  moreover have "fst ?u = fst ?s" if "\<not> snd ?u"
    using that by (auto simp: removeUnreachableBlocks_def Let_def filter_empty_conv)
  moreover have "fst ?d = fst ?u" if "\<not> snd ?d" using that removeDead_unchanged by metis
  ultimately have "snd ?s \<or> snd ?u \<or> snd ?d \<or> fst ?d = blocks fn" by metis
  then show ?thesis
    by (auto simp: dce_runOnFunction_def Let_def result_of_def success_def unchanged_def modified_def split: prod.split)
qed

interpretation dead_code: honest_pass dce_runOnFunction
proof
  fix m fn st
  show "success (fst (dce_runOnFunction m fn st))"
    and "changed (fst (dce_runOnFunction m fn st)) \<or> snd (dce_runOnFunction m fn st) = (fn, st)"
    using dce_contract [where m = m and fn = fn and st = st] by (auto split: prod.splits)
  show "fn_name (fst (snd (dce_runOnFunction m fn st))) = fn_name fn"
    by (simp add: dce_runOnFunction_def Let_def split: prod.split)
qed

text \<open>
  The pass reports honestly: it never fails, it does not touch the shared values, and when
  it reports no change the function is the one it was given.
\<close>

theorem dce_honest:
  "case dce_runOnFunction m fn st of (r, fn', st') \<Rightarrow> success r \<and> st' = st \<and> (changed r \<or> fn' = fn)"
  by (rule dce_contract)

text \<open>A well-formed control-flow graph: blocks have distinct addresses, end in their only
  terminator, and name only blocks of the function.\<close>

definition wf_block :: "hblock \<Rightarrow> bool" where
  "wf_block b \<longleftrightarrow> instructions b \<noteq> [] \<and> isTerminator (last (instructions b)) \<and>
     (\<forall>i\<in>set (butlast (instructions b)). \<not> isTerminator i)"

definition wf_cfg :: "hblock list \<Rightarrow> bool" where
  "wf_cfg bs \<longleftrightarrow> distinct (map baddr bs) \<and>
     (\<forall>b\<in>set bs. wf_block b \<and> set (block_successors b) \<subseteq> set (map baddr bs))"

lemma wf_blockE:
  assumes "wf_block b"
  obtains xs i where "instructions b = xs @ [i]" "isTerminator i" "\<forall>x\<in>set xs. \<not> isTerminator x"
    "block_successors b = term_successors i"
  using assms that [of "butlast (instructions b)" "last (instructions b)"]
  by (simp add: wf_block_def block_successors_def)

lemma wf_blockI:
  "instructions b = xs @ [i] \<Longrightarrow> isTerminator i \<Longrightarrow> \<forall>x\<in>set xs. \<not> isTerminator x \<Longrightarrow> wf_block b"
  by (simp add: wf_block_def)

lemma all2_same_terminators:
  assumes "list_all2 (\<lambda>x y. isTerminator y = isTerminator x) xs ys" and "\<forall>x\<in>set xs. \<not> isTerminator x"
  shows "\<forall>y\<in>set ys. \<not> isTerminator y"
  using assms by (induction rule: list_all2_induct) auto

lemma simp_block_wf:
  assumes "simp_block is b b'" and "wf_block b"
  shows "wf_block b' \<and> set (block_successors b') \<subseteq> set (block_successors b)"
proof -
  obtain xs i where x: "instructions b = xs @ [i]" "isTerminator i" "\<forall>x\<in>set xs. \<not> isTerminator x"
    "block_successors b = term_successors i" using assms(2) by (rule wf_blockE)
  then obtain ys i' where y: "instructions b' = ys @ [i']" "list_all2 (simp_inst is) xs ys" "simp_inst is i i'"
    using assms(1) by (auto simp: simp_block_def list_all2_append1 list_all2_Cons1)
  have "\<forall>y\<in>set ys. \<not> isTerminator y"
    by (rule all2_same_terminators [OF list_all2_mono [OF y(2)] x(3)]) (simp add: simp_inst_keeps)
  moreover have "set (term_successors i') \<subseteq> set (term_successors i)"
    using y(3) by (auto simp: simp_inst_def term_successors_def op_block_def)
  ultimately show ?thesis
    using y(1,3) x(2,4) simp_inst_keeps [OF y(3)] wf_blockI [OF y(1)] by (simp add: block_successors_def)
qed

lemma wf_cfg_rel:
  assumes "wf_cfg bs" and "list_all2 P bs bs'"
    and "\<And>b b'. b \<in> set bs \<Longrightarrow> P b b' \<Longrightarrow> baddr b' = baddr b \<and> wf_block b' \<and>
      set (block_successors b') \<subseteq> set (block_successors b)"
  shows "wf_cfg bs'"
proof -
  have "list_all2 (\<lambda>b b'. b \<in> set bs \<and> P b b') bs bs'"
    using assms(2) by (auto simp: list_all2_conv_all_nth)
  then have rel: "list_all2 (\<lambda>b b'. b \<in> set bs \<and> baddr b' = baddr b \<and> wf_block b' \<and>
      set (block_successors b') \<subseteq> set (block_successors b)) bs bs'"
    by (rule list_all2_mono) (use assms(3) in blast)
  then have addr: "map baddr bs' = map baddr bs" by (auto simp: list_all2_conv_all_nth list_eq_iff_nth_eq)
  have "wf_block b' \<and> set (block_successors b') \<subseteq> set (map baddr bs)" if "b' \<in> set bs'" for b'
    using rel that assms(1) unfolding wf_cfg_def
    by (metis (no_types, lifting) in_set_conv_nth list_all2_conv_all_nth subset_trans)
  then show ?thesis using assms(1) addr unfolding wf_cfg_def by simp
qed

lemma find_block_distinct: "distinct (map baddr bs) \<Longrightarrow> b \<in> set bs \<Longrightarrow> find_block bs (baddr b) = Some b"
  by (induction bs) (auto simp: find_block_def image_iff)

lemma wf_reachable:
  assumes "wf_cfg bs"
  shows "wf_cfg (filter (\<lambda>b. baddr b \<in> findReachableBlocks bs) bs)"
proof -
  have "t \<in> findReachableBlocks bs" if "b \<in> set bs" "baddr b \<in> findReachableBlocks bs" "t \<in> set (block_successors b)" for b t
    using reachable_successor [OF that(2) find_block_distinct that(3)] assms that(1) by (simp add: wf_cfg_def)
  then show ?thesis
    using assms unfolding wf_cfg_def by (fastforce simp: distinct_map inj_on_def)
qed

lemma term_successors_fix: "set (term_successors i) \<inter> U = {} \<Longrightarrow> term_successors (fix_terminator U e i) = term_successors i"
proof -
  assume d: "set (term_successors i) \<inter> U = {}"
  consider "opcode i = Branch" | "opcode i = CondBranch" | "opcode i = Switch"
    | "opcode i \<notin> {Branch, CondBranch, Switch}" by blast
  then show ?thesis
  proof cases
    case 1
    with d show ?thesis
      by (cases "operands i") (simp_all add: term_successors_def fix_terminator_def op_block_fix)
  next
    case 2
    with d show ?thesis
      by (simp add: term_successors_def fix_terminator_def split: list.split)
        (auto simp: Int_Un_distrib2 op_block_fix Collect_disj_eq)
  next
    case 3
    with d have "set (List.map_filter snd (switchCases i)) \<inter> U = {}" by (auto simp: term_successors_def)
    with 3 d show ?thesis
      by (auto simp: term_successors_def fix_terminator_def map_filter_redirect redirect_def split: option.split)
  qed (simp add: term_successors_def)
qed

lemma removed_block_wf:
  assumes r: "removed_block U e L b b'" and "wf_block b" and "iaddr (last (instructions b)) \<in> L"
    and "set (block_successors b) \<inter> U = {}"
  shows "wf_block b' \<and> set (block_successors b') \<subseteq> set (block_successors b)"
proof -
  obtain xs i where x: "instructions b = xs @ [i]" "isTerminator i" "\<forall>x\<in>set xs. \<not> isTerminator x"
    "block_successors b = term_successors i" using assms(2) by (rule wf_blockE)
  let ?k = "filter (\<lambda>i. iaddr i \<in> L) xs"
  obtain ys i' where y: "instructions b' = ys @ [i']" "list_all2 (fixed_inst U e) ?k ys" "fixed_inst U e i i'"
    using r x(1) assms(3) by (auto simp: removed_block_def list_all2_append1 list_all2_Cons1)
  have "list_all2 (\<lambda>x y. isTerminator y = isTerminator x) ?k ys"
    by (rule list_all2_mono [OF y(2)]) (auto simp: fixed_inst_def)
  then have "\<forall>y\<in>set ys. \<not> isTerminator y" by (rule all2_same_terminators) (use x(3) in simp)
  moreover have "isTerminator i'" "set (term_successors i') \<subseteq> set (term_successors i)"
    using y(3) x(2,4) assms(4) term_successors_fix [of i U e] by (auto simp: fixed_inst_def)
  ultimately show ?thesis using x(4) y(1) wf_blockI [OF y(1)] by (simp add: block_successors_def)
qed

text \<open>
  C20. The pass keeps the control-flow graph well-formed: in its result, too, block addresses are
  distinct, every block ends in its only terminator, and every jump names a block of the function.
\<close>

theorem dce_keeps_well_formed:
  assumes "dce_runOnFunction m fn st = (r, fn', st')" and "wf_cfg (blocks fn)"
  shows "wf_cfg (blocks fn')"
proof -
  let ?bs = "blocks (simplified fn)"
  note fn1 = dce_stages [OF assms(1)]
  have 1: "wf_cfg ?bs"
  proof (rule wf_cfg_rel [OF assms(2) fn1(3)])
    fix b b' assume "b \<in> set (blocks fn)" and "simp_block (fn_insts fn) b b'"
    then show "baddr b' = baddr b \<and> wf_block b' \<and> set (block_successors b') \<subseteq> set (block_successors b)"
      using simp_block_wf assms(2) by (auto simp: wf_cfg_def simp_block_def)
  qed
  obtain e where e: "list_all2 (removed_block (removed ?bs) e (live_set st ?bs))
      (filter (\<lambda>b. baddr b \<in> findReachableBlocks ?bs) ?bs) (blocks fn')"
    using swept_blocks [of ?bs st] fn1(1) by (auto simp: live_set_def sweep_def)
  show ?thesis
  proof (rule wf_cfg_rel [OF wf_reachable [OF 1] e])
    fix b b' assume b: "b \<in> set (filter (\<lambda>b. baddr b \<in> findReachableBlocks ?bs) ?bs)"
      and r: "removed_block (removed ?bs) e (live_set st ?bs) b b'"
    have w: "wf_block b" "set (block_successors b) \<subseteq> findReachableBlocks ?bs"
      using wf_reachable [OF 1] b by (auto simp: wf_cfg_def)
    have "iaddr (last (instructions b)) \<in> live_set st ?bs"
      unfolding live_set_def using w(1) b by (intro live_root) (auto simp: wf_block_def)
    then show "baddr b' = baddr b \<and> wf_block b' \<and> set (block_successors b') \<subseteq> set (block_successors b)"
      using removed_block_wf [OF r w(1)] w(2) removed_disjoint [of ?bs] r by (auto simp: removed_block_def)
  qed
qed

theorem dce_keeps_well_formed_witness:
  "\<forall>m st. \<exists>r fn' st'. dce_runOnFunction m dce_example st = (r, fn', st') \<and> wf_cfg (blocks fn')"
proof (intro allI)
  fix m st
  obtain r fn' st' where run: "dce_runOnFunction m dce_example st = (r, fn', st')"
    by (rule prod_cases3)
  have "wf_cfg (blocks dce_example)"
    by (auto simp: wf_cfg_def wf_block_def dce_example_def block_successors_def term_successors_def
        op_block_def isTerminator_def mk_inst_def)
  from dce_keeps_well_formed [OF run this] run
  show "\<exists>r fn' st'. dce_runOnFunction m dce_example st = (r, fn', st') \<and> wf_cfg (blocks fn')" by blast
qed

end
