(* ===== verification/MiddleEnd.thy ===== *)
theory MiddleEnd
  imports ConstFold DeadCode
begin

text \<open>
  Constant folding followed by dead code elimination, the two neighbours in the list of passes
  of \<open>compiler/Driver.cpp\<close>. Folding is an interpretation of the \<open>transformation\<close> interface of
  runs, like the stages of dead code elimination, so that their results compose.
\<close>

section \<open>Constant folding keeps the runs\<close>

text \<open>Only instructions that compute a value from their operands are folded: they end no block
  and show nothing.\<close>

lemma fold_const_computed: "isKnown (fold_const cs i) \<Longrightarrow> opcode i \<in> computed_ops"
  using fold1_not_unary
  by (auto simp: fold_const_def isKnown_def computed_ops_def fold2_ops_iff split: if_splits list.splits)

lemma computed_silent:
  assumes "opcode i \<in> computed_ops"
  shows "\<not> isTerminator i" and "opcode i \<noteq> Phi" and "\<not> observable st i" and "\<not> exits i"
proof -
  note defs = computed_ops_def const_ops_def binary_ops_def unary_ops_def
  show "\<not> isTerminator i" using assms unfolding isTerminator_def defs by (elim UnE insertE emptyE) simp_all
  then show "\<not> exits i" by (simp add: isTerminator_def exits_def)
  show "opcode i \<noteq> Phi" using assms unfolding defs by (elim UnE insertE emptyE) simp_all
  show "\<not> observable st i"
    using assms unfolding defs by (elim UnE insertE emptyE) (simp_all add: observable_def observable_ops_def)
qed

lemma folded_silent:
  assumes "folded rt is i j" and "j \<noteq> i"
  shows "opcode i \<in> computed_ops" and "opcode j \<in> computed_ops"
  using assms fold_const_computed const_ops_separate [of "opcode j"] by (auto simp: folded_def)

text \<open>A terminator is never folded.\<close>

lemma folded_terminator: "folded rt is i j \<Longrightarrow> isTerminator i \<Longrightarrow> j = i"
  using folded_silent computed_silent(1) by blast

lemma folded_runs:
  assumes "folded rt is i j" and "opcode i \<notin> bit_ops" and "reach rt is env" and "runs rt prev i env x"
  shows "runs rt prev j env x"
proof (cases "j = i")
  case False
  have "opcode j \<noteq> Phi" by (rule computed_silent(2) [OF folded_silent(2) [OF assms(1) False]])
  then show ?thesis using folded_computes(1) [OF assms(1-3)] assms(4) by (simp add: runs_def)
qed (use assms in simp)

lemma folded_events: "folded rt is i j \<Longrightarrow> events (observable st) j env x = events (observable st) i env x"
  using folded_silent [of rt "is" i j] computed_silent(3) by (cases "j = i") (simp_all add: events_def)

definition folded_fn :: "hstore \<Rightarrow> hfunction \<Rightarrow> hfunction" where
  "folded_fn st fn = snd (walk_fn cf_step (cf_start st) fn)"

definition foldable :: "hfunction \<Rightarrow> bool" where
  "foldable fn \<longleftrightarrow> ssa (fn_insts fn) \<and> (\<forall>i\<in>set (fn_insts fn). opcode i \<notin> bit_ops)"

lemma cf_run_eq: "fst (snd (cf_runOnFunction m fn st)) = folded_fn st fn"
  by (simp add: cf_runOnFunction_def folded_fn_def split: prod.split)

lemma folded_fn_rel: "foldable fn \<Longrightarrow> fn_rel (folded rt (fn_insts fn)) fn (folded_fn st fn)"
  using cf_folded [of m fn st _ "folded_fn st fn"] bitwise_small_trivial [of "fn_insts fn" rt]
  by (metis cf_run_eq foldable_def prod.collapse)

lemma folded_blocks:
  assumes "foldable fn"
  shows "list_all2 (block_rel (folded rt (fn_insts fn))) (blocks fn) (blocks (folded_fn st fn))"
    and "results (fn_insts (folded_fn st fn)) = results (fn_insts fn)"
  using folded_fn_rel [OF assms] folded_results [OF fn_rel_insts [OF folded_fn_rel [OF assms]]]
  by (auto simp: fn_rel_def)

lemma block_rel_addr: "block_rel R b b' \<Longrightarrow> baddr b' = baddr b"
  unfolding block_rel_def by (cases b; cases b') simp

lemma block_rel_insts: "block_rel R b b' \<Longrightarrow> list_all2 R (instructions b) (instructions b')"
  by (simp add: block_rel_def)

lemma find_block_rel:
  assumes "list_all2 (block_rel R) bs bs'" and "find_block bs t = Some b"
  shows "\<exists>b'. find_block bs' t = Some b' \<and> block_rel R b b'"
  using assms
  by (induction rule: list_all2_induct) (auto simp: find_block_def block_rel_addr split: if_splits)

fun fold_config :: "runtime \<Rightarrow> hinst list \<Rightarrow> config \<Rightarrow> config \<Rightarrow> bool" where
  "fold_config rt is (Run p b xs env) (Run p' b' xs' env') \<longleftrightarrow>
     p' = p \<and> b' = b \<and> env' = env \<and> list_all2 (folded rt is) xs xs'"
| "fold_config rt is Halted Halted \<longleftrightarrow> True"
| "fold_config rt is _ _ \<longleftrightarrow> False"

lemma fold_config_Run:
  "fold_config rt is (Run p b xs env) c \<longleftrightarrow> (\<exists>xs'. c = Run p b xs' env \<and> list_all2 (folded rt is) xs xs')"
  by (cases c) auto

interpretation folding: transformation rt "observable st'" foldable "folded_fn st"
  "\<lambda>fn. fold_config rt (fn_insts fn)" for rt st st'
proof
  fix fn env c
  assume ok: "foldable fn" and s: "start fn env c"
  note l = folded_blocks [OF ok]
  show "\<exists>c'. start (folded_fn st fn) env c' \<and> fold_config rt (fn_insts fn) c c'"
    using s l(1) [of rt st] l(2) [of st]
    by (cases "blocks fn"; cases "blocks (folded_fn st fn)") (auto simp: start_def dest: block_rel_addr block_rel_insts)
next
  fix fn c'
  show "fold_config rt (fn_insts fn) Halted c' \<Longrightarrow> c' = Halted" by (cases c') simp_all
next
  fix fn c ev d c'
  assume ok: "foldable fn" and st: "step rt (observable st') fn c ev d" and inb: "in_block fn c"
    and r: "config_reach rt fn c" and R: "fold_config rt (fn_insts fn) c c'"
  let ?is = "fn_insts fn" and ?obs = "observable st'"
  from st have "\<exists>d'. step rt ?obs (folded_fn st fn) c' ev d' \<and> fold_config rt ?is d d'"
  proof (cases rule: step.cases)
    case (step_inst i prev env x b xs)
    obtain j xs' where c': "c' = Run prev b (j # xs') env" "folded rt ?is i j" "list_all2 (folded rt ?is) xs xs'"
      using R unfolding step_inst(1) fold_config_Run list_all2_Cons1 by blast
    have "i \<in> set ?is" using in_block_insts [of fn prev b "i # xs" env] inb step_inst(1) by auto
    then have "runs rt prev j env x"
      using folded_runs [OF c'(2)] ok r step_inst by (simp add: foldable_def)
    moreover have "\<not> isTerminator j"
      using step_inst(4) folded_silent(2) [OF c'(2)] computed_silent(1) by (cases "j = i") blast+
    ultimately have "step rt ?obs (folded_fn st fn) c' (events ?obs j env (Some x))
        (Run prev b xs' (setValue env (result j) x))"
      unfolding c'(1) by (intro step.step_inst)
    then show ?thesis
      using c'(3) unfolding step_inst(2,3) folded_events [OF c'(2)] folded_result [OF c'(2)] by auto
  next
    case (step_jump i env t blk prev b)
    then have c': "c' = Run prev b [i] env"
      using R folded_terminator unfolding step_jump(1) fold_config_Run list_all2_Cons1 by auto
    obtain blk' where b: "find_block (blocks (folded_fn st fn)) t = Some blk'"
      "block_rel (folded rt ?is) blk blk'"
      using find_block_rel [OF folded_blocks(1) [OF ok]] step_jump by blast
    have "step rt ?obs (folded_fn st fn) c' [] (Run (Some b) t (instructions blk') env)"
      unfolding c' using step_jump(4,5) b(1) by (rule step.step_jump)
    then show ?thesis using b(2) step_jump by (auto simp: block_rel_def)
  next
    case (step_exit i prev b env)
    then have "isTerminator i" by (auto simp: exits_def isTerminator_def)
    then have "c' = Run prev b [i] env"
      using R folded_terminator unfolding step_exit(1) fold_config_Run list_all2_Cons1 by auto
    then show ?thesis using step.step_exit [OF step_exit(4)] step_exit by fastforce
  qed
  then show "\<exists>d'. steps rt ?obs (folded_fn st fn) c' ev d' \<and> fold_config rt ?is d d'"
    using one_step by blast
qed

section \<open>Both passes\<close>

lemma foldable_kept:
  assumes "foldable fn" and "distinct_addrs (blocks fn)"
  shows "ssa (fn_insts (folded_fn st fn))" and "distinct_addrs (blocks (folded_fn st fn))"
proof -
  show "ssa (fn_insts (folded_fn st fn))"
    using assms folded_blocks(2) [OF assms(1)] by (simp add: foldable_def ssa_def)
  fix rt :: runtime
  note l = folded_blocks(1) [OF assms(1), where rt = rt and st = st]
  have "map baddr (blocks (folded_fn st fn)) = map baddr (blocks fn)"
    using l by (induction rule: list_all2_induct) (simp_all add: block_rel_addr)
  moreover have "map (\<lambda>b. map iaddr (instructions b)) (blocks (folded_fn st fn)) =
      map (\<lambda>b. map iaddr (instructions b)) (blocks fn)"
    by (rule fn_rel_map_blocks [OF folded_fn_rel [OF assms(1)]]) (auto simp: folded_def)
  ultimately show "distinct_addrs (blocks (folded_fn st fn))"
    using assms(2) by (simp add: distinct_addrs_def map_concat comp_def)
qed

lemma fold_and_sweep:
  assumes "cf_runOnFunction m fn st = (r1, fn1, st1)" and "dce_runOnFunction m' fn1 st1 = (r2, fn2, st2)"
    and "foldable fn" and "distinct_addrs (blocks fn)" and "run_of rt (observable st1) fn env es c"
  shows "\<exists>c'. run_of rt (observable st1) fn2 env es c' \<and> (c = Halted \<longrightarrow> c' = Halted)"
proof -
  have fn1: "fn1 = folded_fn st fn" using cf_run_eq [of m fn st] assms(1) by simp
  obtain c1 where c1: "run_of rt (observable st1) fn1 env es c1" "c = Halted \<longrightarrow> c1 = Halted"
    using folding.trans_run [OF assms(3,5)] unfolding fn1 by blast
  note kept = foldable_kept [OF assms(3,4), of st, folded fn1]
  obtain c2 where "run_of rt (observable st1) (simplified fn1) env es c2" "c1 = Halted \<longrightarrow> c2 = Halted"
    using simplify.trans_run [OF kept(1) c1(1)] by blast
  then show ?thesis
    using sweep.trans_run [OF sweepable_simp [OF kept]] c1(2) unfolding dce_stages(1) [OF assms(2)] by blast
qed


text \<open>A comparison of constants that decides the branch behind it.\<close>

definition both_inst :: "hiropcode \<Rightarrow> iref \<Rightarrow> vref option \<Rightarrow> hoperand list \<Rightarrow> hinst" where
  "both_inst op a r xs = (mk_inst op a)\<lparr>result := r, operands := xs\<rparr>"

lemma both_inst_sel [simp]:
  "opcode (both_inst op a r xs) = op" "iaddr (both_inst op a r xs) = a"
  "result (both_inst op a r xs) = r" "operands (both_inst op a r xs) = xs"
  by (simp_all add: both_inst_def mk_inst_def)

definition both_entry :: "hinst list" where
  "both_entry = [both_inst ConstInt 0 (Some 0) [OInt 3],
     both_inst CmpLtI64 1 (Some 1) [OVal (Some 0), OVal (Some 0)],
     both_inst CondBranch 2 None [OVal (Some 1), OBlock (Some 1), OBlock (Some 2)]]"

definition both_block :: "bref \<Rightarrow> hinst list \<Rightarrow> hblock" where
  "both_block a is = \<lparr>baddr = a, blk_label = [], blk_params = [], instructions = is,
     predecessors = [], successors = []\<rparr>"

definition both_fn :: hfunction where
  "both_fn = \<lparr>fn_name = ''f'', mangledName = ''f'', fn_returnType = None, fn_params = [],
     blocks = [both_block 0 both_entry, both_block 1 [both_inst Unreachable 3 None []],
       both_block 2 [both_inst ReturnVoid 4 None []]],
     captures = [], isAsync = False, isGenerator = False, nextValueId = 2\<rparr>"

lemma both_insts: "fn_insts both_fn = both_entry @ [both_inst Unreachable 3 None [], both_inst ReturnVoid 4 None []]"
  by (simp add: both_fn_def both_block_def fn_insts_def)

lemma both_ok:
  "ssa (fn_insts both_fn)" "\<forall>i\<in>set (fn_insts both_fn). opcode i \<notin> bit_ops" "distinct_addrs (blocks both_fn)"
proof -
  show "ssa (fn_insts both_fn)" by (simp add: both_insts both_entry_def ssa_def)
  show "\<forall>i\<in>set (fn_insts both_fn). opcode i \<notin> bit_ops"
    by (simp add: both_insts both_entry_def bit_ops_def bitwise_ops_def)
  show "distinct_addrs (blocks both_fn)"
    by (simp add: distinct_addrs_def both_fn_def both_block_def both_entry_def)
qed

lemma both_run: "run_of rt (observable st) both_fn Map.empty [(4, ReturnVoid, [], None)] Halted"
proof -
  let ?obs = "observable st" and ?e1 = "[0 \<mapsto> RI64 3] :: env" and ?e2 = "[0 \<mapsto> RI64 3, 1 \<mapsto> RI1 False] :: env"
  have silent: "events ?obs (both_inst op a r xs) env x = []" if "op \<in> computed_ops" for op a r xs env x
    using computed_silent(3) [of "both_inst op a r xs"] that by (simp add: events_def)
  have ops: "ConstInt \<in> const_ops" "CmpLtI64 \<in> binary_ops" by (simp_all add: const_ops_def binary_ops_def)
  note computed = const_ops_separate [OF ops(1)] binary_ops_separate [OF ops(2)]
  have r: "runs rt None (both_inst ConstInt 0 (Some 0) [OInt 3]) Map.empty (RI64 3)"
    "runs rt None (both_inst CmpLtI64 1 (Some 1) [OVal (Some 0), OVal (Some 0)]) ?e1 (RI1 False)"
    using ops
    by (auto simp: runs_def computes_const_iff const_loads_def lowerConstInt_def getOperandInt_def)
      (auto intro!: computes_binary simp: getOperandValue_def lowerCmpLtI64_def order_lowered_def)
  have f: "find_block (blocks both_fn) 2 = Some (both_block 2 [both_inst ReturnVoid 4 None []])"
    by (simp add: both_fn_def both_block_def find_block_def)
  have j: "jumps ?e2 (both_inst CondBranch 2 None [OVal (Some 1), OBlock (Some 1), OBlock (Some 2)]) 2"
    by (simp add: jumps_def term_successors_def op_block_def getOperandValue_def)
  have "step rt ?obs both_fn (Run None 0 both_entry Map.empty)
      (events ?obs (both_inst ConstInt 0 (Some 0) [OInt 3]) Map.empty (Some (RI64 3))) (Run None 0 (tl both_entry) ?e1)"
    using step_inst [OF _ r(1), of ?obs both_fn 0 "tl both_entry"] by (simp add: both_entry_def isTerminator_def)
  then have "steps rt ?obs both_fn (Run None 0 both_entry Map.empty) [] (Run None 0 (tl both_entry) ?e1)"
    using silent computed one_step by metis
  moreover have "step rt ?obs both_fn (Run None 0 (tl both_entry) ?e1)
      (events ?obs (both_inst CmpLtI64 1 (Some 1) [OVal (Some 0), OVal (Some 0)]) ?e1 (Some (RI1 False)))
      (Run None 0 (tl (tl both_entry)) ?e2)"
    using step_inst [OF _ r(2), of ?obs both_fn 0 "tl (tl both_entry)"] by (simp add: both_entry_def isTerminator_def)
  then have "steps rt ?obs both_fn (Run None 0 (tl both_entry) ?e1) [] (Run None 0 (tl (tl both_entry)) ?e2)"
    using silent computed one_step by metis
  moreover have "steps rt ?obs both_fn (Run None 0 (tl (tl both_entry)) ?e2) []
      (Run (Some 0) 2 [both_inst ReturnVoid 4 None []] ?e2)"
    using one_step [OF step_jump [OF _ j f, of rt ?obs None 0]] by (simp add: both_entry_def isTerminator_def both_block_def)
  moreover have "steps rt ?obs both_fn (Run (Some 0) 2 [both_inst ReturnVoid 4 None []] ?e2)
      [(4, ReturnVoid, [], None)] Halted"
    using one_step [OF step_exit [of "both_inst ReturnVoid 4 None []" rt ?obs both_fn "Some 0" 2 ?e2]] by (simp add: exits_def)
  ultimately have "steps rt ?obs both_fn (Run None 0 both_entry Map.empty) [(4, ReturnVoid, [], None)] Halted"
    by (metis steps_trans append_Nil)
  moreover have "start both_fn Map.empty (Run None 0 both_entry Map.empty)"
    by (simp add: start_def both_fn_def both_block_def)
  ultimately show ?thesis unfolding run_of_def by blast
qed


end
