(* ===== verification/Specialization.thy ===== *)
theory Specialization
  imports Execution FloatOrder PassContract
begin

text \<open>
  Type specialization, \<open>src/src/compiler/hir/passes/SpecializationPass.cpp\<close>: the generic
  arithmetic, comparison and property opcodes become typed opcodes, dynamic property accesses
  or calls of runtime helpers, by the HIR types of the operands and of the result. The result
  value is shared, so its type is written in the store.
\<close>

section \<open>Types of operands\<close>

definition operandType :: "hstore \<Rightarrow> hoperand \<Rightarrow> htype option" where
  "operandType st x = (case x of OVal (Some v) \<Rightarrow> type_of st v | _ \<Rightarrow> None)"

definition is_kind :: "htkind \<Rightarrow> htype option \<Rightarrow> bool" where
  "is_kind k t = (case t of None \<Rightarrow> False | Some u \<Rightarrow> kind u = k)"

definition isString :: "htype option \<Rightarrow> bool" where "isString t = is_kind KString t"
definition isFloat64 :: "htype option \<Rightarrow> bool" where "isFloat64 t = is_kind KFloat64 t"
definition isInt64 :: "htype option \<Rightarrow> bool" where "isInt64 t = is_kind KInt64 t"
definition isBigInt :: "htype option \<Rightarrow> bool" where "isBigInt t = is_kind KBigInt t"

definition isAny :: "htype option \<Rightarrow> bool" where
  "isAny t = (case t of None \<Rightarrow> True | Some u \<Rightarrow> kind u = KAny)"

definition resultType :: "hstore \<Rightarrow> hinst \<Rightarrow> htype option" where
  "resultType st i = (case result i of None \<Rightarrow> None | Some v \<Rightarrow> type_of st v)"

definition setResultType :: "hinst \<Rightarrow> htype \<Rightarrow> hstore \<Rightarrow> hstore" where
  "setResultType i t st = (case result i of None \<Rightarrow> st | Some v \<Rightarrow> set_type v (Some t) st)"

section \<open>Replacements\<close>

definition with_source :: "hinst \<Rightarrow> hinst \<Rightarrow> hinst" where
  "with_source i j = j\<lparr>sourceFileIdx := sourceFileIdx i, sourceLine := sourceLine i, sourceColumn := sourceColumn i\<rparr>"

definition holds_value :: "hoperand \<Rightarrow> bool" where
  "holds_value x = (case x of OVal _ \<Rightarrow> True | _ \<Rightarrow> False)"

definition makeCall :: "string \<Rightarrow> hinst \<Rightarrow> htype \<Rightarrow> hstore \<Rightarrow> hinst \<times> hstore" where
  "makeCall nm i rty st =
     (with_source i ((mk_inst Call (iaddr i))\<lparr>result := result i,
        operands := OStr nm # filter holds_value (operands i)\<rparr>),
      setResultType i rty st)"

definition makeTypedBinary :: "hiropcode \<Rightarrow> hinst \<Rightarrow> htype \<Rightarrow> hstore \<Rightarrow> hinst \<times> hstore" where
  "makeTypedBinary newOpcode i rty st =
     (with_source i ((mk_inst newOpcode (iaddr i))\<lparr>result := result i, operands := operands i\<rparr>),
      setResultType i rty st)"

section \<open>Arithmetic\<close>

text \<open>The \<open>switch\<close> statements on the opcode, as tables.\<close>

definition bigint_arith :: "hiropcode \<Rightarrow> string option" where
  "bigint_arith = map_of [(Add, ''ts_bigint_add''), (Sub, ''ts_bigint_sub''), (Mul, ''ts_bigint_mul''),
     (Div, ''ts_bigint_div''), (Mod, ''ts_bigint_mod'')]"

definition value_arith :: "hiropcode \<Rightarrow> string option" where
  "value_arith = map_of [(Add, ''ts_value_add''), (Sub, ''ts_value_sub''), (Mul, ''ts_value_mul''),
     (Div, ''ts_value_div''), (Mod, ''ts_value_mod'')]"

definition float_arith :: "hiropcode \<Rightarrow> hiropcode option" where
  "float_arith = map_of [(Add, AddF64), (Sub, SubF64), (Mul, MulF64), (Div, DivF64), (Mod, ModF64)]"

definition int_arith :: "hiropcode \<Rightarrow> hiropcode option" where
  "int_arith = map_of [(Add, AddI64), (Sub, SubI64), (Mul, MulI64), (Div, DivI64), (Mod, ModI64)]"

definition specializeArithmetic :: "hstore \<Rightarrow> hinst \<Rightarrow> (hinst \<times> hstore) option" where
  "specializeArithmetic st i =
     (case operands i of
        x # y # _ \<Rightarrow>
          (let lhs = operandType st x; rhs = operandType st y; res = resultType st i;
               useString = (isString res \<or> isString lhs \<or> isString rhs);
               useBigInt = (isBigInt res \<or> (isBigInt lhs \<and> isBigInt rhs));
               useFloat = (isFloat64 res \<or> isFloat64 lhs \<or> isFloat64 rhs);
               useInt = (isInt64 res \<or> (isInt64 lhs \<and> isInt64 rhs));
               eitherAny = ((isAny lhs \<or> isAny rhs) \<and> isAny res)
           in if opcode i = Add \<and> useString then Some (makeTypedBinary StringConcat i (mkType KString) st)
              else if useBigInt then
                map_option (\<lambda>fn. makeCall fn i (mkType KBigInt) st) (bigint_arith (opcode i))
              else if eitherAny then
                map_option (\<lambda>fn. makeCall fn i (mkType KAny) st) (value_arith (opcode i))
              else if useFloat then
                map_option (\<lambda>op. makeTypedBinary op i (mkType KFloat64) st) (float_arith (opcode i))
              else if useInt then
                map_option (\<lambda>op. makeTypedBinary op i (mkType KInt64) st) (int_arith (opcode i))
              else None)
      | _ \<Rightarrow> None)"

definition specializeNeg :: "hstore \<Rightarrow> hinst \<Rightarrow> (hinst \<times> hstore) option" where
  "specializeNeg st i =
     (case operands i of
        [] \<Rightarrow> None
      | x # _ \<Rightarrow>
          (let t = operandType st x; res = resultType st i
           in if isBigInt res \<or> isBigInt t then Some (makeCall ''ts_bigint_neg'' i (mkType KBigInt) st)
              else if isFloat64 res \<or> isFloat64 t \<or> isAny t then Some (makeTypedBinary NegF64 i (mkType KFloat64) st)
              else if isInt64 res \<and> isInt64 t then Some (makeTypedBinary NegI64 i (mkType KInt64) st)
              else if isAny res \<and> isAny t then Some (makeTypedBinary NegF64 i (mkType KFloat64) st)
              else None))"

section \<open>Comparison\<close>

definition bigint_cmp :: "hiropcode \<Rightarrow> string option" where
  "bigint_cmp = map_of [(CmpEq, ''ts_bigint_eq''), (CmpNe, ''ts_bigint_ne''), (CmpLt, ''ts_bigint_lt''),
     (CmpLe, ''ts_bigint_le''), (CmpGt, ''ts_bigint_gt''), (CmpGe, ''ts_bigint_ge'')]"

definition value_cmp :: "hiropcode \<Rightarrow> string option" where
  "value_cmp = map_of [(CmpEq, ''ts_value_eq''), (CmpNe, ''ts_value_ne''), (CmpLt, ''ts_value_lt''),
     (CmpLe, ''ts_value_lte''), (CmpGt, ''ts_value_gt''), (CmpGe, ''ts_value_gte'')]"

definition float_cmp :: "hiropcode \<Rightarrow> hiropcode option" where
  "float_cmp = map_of [(CmpEq, CmpEqF64), (CmpNe, CmpNeF64), (CmpLt, CmpLtF64), (CmpLe, CmpLeF64),
     (CmpGt, CmpGtF64), (CmpGe, CmpGeF64)]"

definition int_cmp :: "hiropcode \<Rightarrow> hiropcode option" where
  "int_cmp = map_of [(CmpEq, CmpEqI64), (CmpNe, CmpNeI64), (CmpLt, CmpLtI64), (CmpLe, CmpLeI64),
     (CmpGt, CmpGtI64), (CmpGe, CmpGeI64)]"

definition specializeComparison :: "hstore \<Rightarrow> hinst \<Rightarrow> (hinst \<times> hstore) option" where
  "specializeComparison st i =
     (case operands i of
        x # y # _ \<Rightarrow>
          (let lhs = operandType st x; rhs = operandType st y;
               useBigInt = (isBigInt lhs \<and> isBigInt rhs);
               eitherBigInt = (isBigInt lhs \<or> isBigInt rhs);
               eitherAny = (isAny lhs \<or> isAny rhs \<or> (eitherBigInt \<and> \<not> useBigInt));
               useFloat = (\<not> eitherAny \<and> (isFloat64 lhs \<or> isFloat64 rhs));
               useInt = (\<not> eitherAny \<and> \<not> useFloat \<and> isInt64 lhs \<and> isInt64 rhs)
           in if useBigInt then
                map_option (\<lambda>fn. makeCall fn i (mkType KBool) st) (bigint_cmp (opcode i))
              else if eitherAny then
                map_option (\<lambda>fn. makeCall fn i (mkType KAny) st) (value_cmp (opcode i))
              else if useFloat then
                map_option (\<lambda>op. makeTypedBinary op i (mkType KBool) st) (float_cmp (opcode i))
              else if useInt then
                map_option (\<lambda>op. makeTypedBinary op i (mkType KBool) st) (int_cmp (opcode i))
              else None)
      | _ \<Rightarrow> None)"

section \<open>Property access\<close>

text \<open>Both branches on the key's type build the same instruction; neither sets a type.\<close>

definition specializeGetProp :: "hstore \<Rightarrow> hinst \<Rightarrow> (hinst \<times> hstore) option" where
  "specializeGetProp st i =
     (case operands i of
        x # y # _ \<Rightarrow>
          Some (with_source i ((mk_inst GetPropDynamic (iaddr i))\<lparr>result := result i, operands := [x, y]\<rparr>), st)
      | _ \<Rightarrow> None)"

definition specializeSetProp :: "hstore \<Rightarrow> hinst \<Rightarrow> (hinst \<times> hstore) option" where
  "specializeSetProp st i =
     (case operands i of
        x # y # z # _ \<Rightarrow>
          Some (with_source i ((mk_inst SetPropDynamic (iaddr i))\<lparr>operands := [x, y, z]\<rparr>), st)
      | _ \<Rightarrow> None)"

section \<open>The pass\<close>

definition specializeInstruction :: "hstore \<Rightarrow> hinst \<Rightarrow> (hinst \<times> hstore) option" where
  "specializeInstruction st i =
     (if opcode i \<in> {Add, Sub, Mul, Div, Mod} then specializeArithmetic st i
      else if opcode i = Neg then specializeNeg st i
      else if opcode i \<in> {CmpEq, CmpNe, CmpLt, CmpLe, CmpGt, CmpGe} then specializeComparison st i
      else if opcode i = GetProp then specializeGetProp st i
      else if opcode i = SetProp then specializeSetProp st i
      else None)"

definition sp_step :: "hstore \<times> bool \<Rightarrow> hinst \<Rightarrow> (hstore \<times> bool) \<times> hinst" where
  "sp_step s i =
     (case specializeInstruction (fst s) i of
        None \<Rightarrow> (s, i)
      | Some (j, st) \<Rightarrow> ((st, True), j))"

definition sp_runOnFunction :: function_pass where
  "sp_runOnFunction m fn st =
     (let ((st', ch), fn') = walk_fn sp_step (st, False) fn in (result_of ch, fn', st'))"

section \<open>The shape of the pass\<close>

definition generic_ops :: "hiropcode set" where
  "generic_ops = {Add, Sub, Mul, Div, Mod, Neg, CmpEq, CmpNe, CmpLt, CmpLe, CmpGt, CmpGe, GetProp, SetProp}"

lemma with_source_sel [simp]:
  "opcode (with_source i j) = opcode j" "result (with_source i j) = result j"
  "operands (with_source i j) = operands j" "iaddr (with_source i j) = iaddr j"
  "sourceLine (with_source i j) = sourceLine i"
  by (simp_all add: with_source_def)

lemma makeTyped_sel [simp]:
  "opcode (fst (makeTypedBinary op i t st)) = op" "result (fst (makeTypedBinary op i t st)) = result i"
  "operands (fst (makeTypedBinary op i t st)) = operands i" "iaddr (fst (makeTypedBinary op i t st)) = iaddr i"
  "sourceLine (fst (makeTypedBinary op i t st)) = sourceLine i"
  "snd (makeTypedBinary op i t st) = setResultType i t st"
  by (simp_all add: makeTypedBinary_def)

lemma makeCall_sel [simp]:
  "opcode (fst (makeCall nm i t st)) = Call" "result (fst (makeCall nm i t st)) = result i"
  "operands (fst (makeCall nm i t st)) = OStr nm # filter holds_value (operands i)"
  "iaddr (fst (makeCall nm i t st)) = iaddr i" "sourceLine (fst (makeCall nm i t st)) = sourceLine i"
  "snd (makeCall nm i t st) = setResultType i t st"
  by (simp_all add: makeCall_def)

text \<open>What a replacement is: a typed opcode with the operands of the original, a call of a
  runtime helper with its values, or a dynamic property access.\<close>

definition typed_ops :: "hiropcode set" where
  "typed_ops = {StringConcat, NegF64, NegI64} \<union> ran float_arith \<union> ran int_arith \<union> ran float_cmp \<union> ran int_cmp"

definition replacement :: "hstore \<Rightarrow> hinst \<Rightarrow> hinst \<times> hstore \<Rightarrow> bool" where
  "replacement st i r \<longleftrightarrow>
     (\<exists>op t. op \<in> typed_ops \<and> r = makeTypedBinary op i t st) \<or>
     (\<exists>fn t. r = makeCall fn i t st) \<or>
     opcode i \<in> {GetProp, SetProp} \<and> opcode (fst r) \<in> {GetPropDynamic, SetPropDynamic} \<and> snd r = st \<and> iaddr (fst r) = iaddr i \<and>
       sourceLine (fst r) = sourceLine i \<and> operands (fst r) = take (length (operands (fst r))) (operands i) \<and>
       (opcode i = GetProp \<longrightarrow> result (fst r) = result i)"

lemma repl_typed: "op \<in> typed_ops \<Longrightarrow> replacement st i (makeTypedBinary op i t st)"
  unfolding replacement_def by blast

lemma repl_call: "replacement st i (makeCall fn i t st)"
  unfolding replacement_def by blast

lemma typed_tables:
  "StringConcat \<in> typed_ops" "NegF64 \<in> typed_ops" "NegI64 \<in> typed_ops"
  "float_arith op = Some op' \<Longrightarrow> op' \<in> typed_ops" "int_arith op = Some op' \<Longrightarrow> op' \<in> typed_ops"
  "float_cmp op = Some op' \<Longrightarrow> op' \<in> typed_ops" "int_cmp op = Some op' \<Longrightarrow> op' \<in> typed_ops"
  unfolding typed_ops_def by (auto simp: ran_def)

lemma arithmetic_replacement: "specializeArithmetic st i = Some r \<Longrightarrow> replacement st i r"
  unfolding specializeArithmetic_def Let_def
  by (auto split: if_split_asm list.split_asm intro: repl_typed repl_call typed_tables)

lemma neg_replacement: "specializeNeg st i = Some r \<Longrightarrow> replacement st i r"
  unfolding specializeNeg_def Let_def
  by (auto split: if_split_asm list.split_asm intro: repl_typed repl_call typed_tables)

lemma comparison_replacement: "specializeComparison st i = Some r \<Longrightarrow> replacement st i r"
  unfolding specializeComparison_def Let_def
  by (auto split: if_split_asm list.split_asm intro: repl_typed repl_call typed_tables)

lemma prop_replacement:
  "opcode i = GetProp \<Longrightarrow> specializeGetProp st i = Some r \<Longrightarrow> replacement st i r"
  "opcode i = SetProp \<Longrightarrow> specializeSetProp st i = Some r \<Longrightarrow> replacement st i r"
  unfolding specializeGetProp_def specializeSetProp_def replacement_def
  by (auto split: list.splits)

lemma specialize_replacement:
  "specializeInstruction st i = Some r \<Longrightarrow> opcode i \<in> generic_ops \<and> replacement st i r"
  unfolding specializeInstruction_def
  by (auto simp: generic_ops_def arithmetic_replacement neg_replacement comparison_replacement prop_replacement
      split: if_splits)

lemma replacement_keeps:
  assumes "replacement st i (j, st')"
  shows "iaddr j = iaddr i" and "sourceLine j = sourceLine i"
  using assms unfolding replacement_def
  by (metis fst_conv makeTyped_sel(4,5) makeCall_sel(4,5))+

lemma typed_not_generic: "op \<in> typed_ops \<Longrightarrow> op \<notin> generic_ops"
  unfolding typed_ops_def ran_def float_arith_def int_arith_def float_cmp_def int_cmp_def
  by (auto simp: generic_ops_def split: if_splits)

definition sp_related :: "hinst \<Rightarrow> hinst \<Rightarrow> bool" where
  "sp_related i j \<longleftrightarrow> j = i \<or>
     opcode i \<in> generic_ops \<and> opcode j \<notin> generic_ops \<and> iaddr j = iaddr i \<and> sourceLine j = sourceLine i \<and>
     (opcode i = SetProp \<or> result j = result i)"

lemma replacement_related:
  assumes "replacement st i (j, st')" and "opcode i \<in> generic_ops"
  shows "sp_related i j"
proof -
  have "opcode j \<notin> generic_ops"
  proof -
    consider op where "op \<in> typed_ops" "opcode j = op" | "opcode j = Call" | "opcode j \<in> {GetPropDynamic, SetPropDynamic}"
      using assms(1) unfolding replacement_def by (metis fst_conv makeTyped_sel(1) makeCall_sel(1))
    then show ?thesis
    proof cases
      case 1
      then show ?thesis using typed_not_generic by blast
    qed (auto simp: generic_ops_def)
  qed
  moreover have "opcode i = SetProp \<or> result j = result i"
    using assms(1) unfolding replacement_def by (metis fst_conv insertE makeTyped_sel(2) makeCall_sel(2) singletonD)
  ultimately show ?thesis using assms(2) replacement_keeps [OF assms(1)] by (simp add: sp_related_def)
qed

lemma sp_honest:
  "case sp_runOnFunction m fn st of (r, fn', st') \<Rightarrow>
     success r \<and> (changed r \<or> fn' = fn \<and> st' = st) \<and> fn_rel sp_related fn fn'"
proof -
  let ?w = "walk_fn sp_step (st, False) fn"
  have "True \<and> fn_rel sp_related fn (snd ?w)"
  proof (rule walk_fn_rel [of "\<lambda>_. True"])
    fix s i
    have "sp_related i i" by (simp add: sp_related_def)
    then show "True \<and> sp_related i (snd (sp_step s i))"
      using specialize_replacement [of "fst s" i] replacement_related
      by (auto simp: sp_step_def split: option.split)
  qed simp
  moreover have "snd (fst ?w) \<or> snd ?w = fn \<and> fst (fst ?w) = st"
  proof -
    have "snd (sp_step s x) = x \<and> \<not> snd s \<and> fst (fst (sp_step s x)) = fst s"
      if "\<not> snd (fst (sp_step s x))" for s x
      using that by (auto simp: sp_step_def split: option.splits)
    from walk_fn_flag [of snd sp_step fst "(st, False)" fn, OF this] show ?thesis by auto
  qed
  ultimately show ?thesis by (auto simp: sp_runOnFunction_def split: prod.splits)
qed

interpretation specialization: honest_pass sp_runOnFunction
proof
  fix m fn st
  show "success (fst (sp_runOnFunction m fn st))"
    and "changed (fst (sp_runOnFunction m fn st)) \<or> snd (sp_runOnFunction m fn st) = (fn, st)"
    and "fn_name (fst (snd (sp_runOnFunction m fn st))) = fn_name fn"
    using sp_honest [where m = m and fn = fn and st = st] by (auto dest: fn_rel_name split: prod.splits)
qed

text \<open>
  The pass never fails and reports a change whenever it made one; it replaces generic
  opcodes only, never by a generic opcode, in place: every block, every address and source line
  stays, and so does the result value except of \<open>SetProp\<close>, which has none.
\<close>

theorem specialization_shape:
  "case sp_runOnFunction m fn st of (r, fn', st') \<Rightarrow>
     success r \<and> (changed r \<or> fn' = fn \<and> st' = st) \<and>
     fn_rel (\<lambda>i j. j = i \<or>
       opcode i \<in> generic_ops \<and> opcode j \<notin> generic_ops \<and> iaddr j = iaddr i \<and> sourceLine j = sourceLine i \<and>
       (opcode i = SetProp \<or> result j = result i)) fn fn'"
  using sp_honest [where m = m and fn = fn and st = st] unfolding sp_related_def .

section \<open>What the typed opcodes compute\<close>

text \<open>A value of a numeric HIR type has the LLVM type the lowering gives it.\<close>

definition typed_number :: "htype option \<Rightarrow> rtval \<Rightarrow> bool" where
  "typed_number t v \<longleftrightarrow>
     (case v of RI64 _ \<Rightarrow> isInt64 t | RF64 _ \<Rightarrow> isFloat64 t | _ \<Rightarrow> False)"

lemma typed_numberE:
  assumes "typed_number t v" and "number_holds v i"
  obtains n where "isInt64 t" "v = RI64 n" "sint n = i" | d where "isFloat64 t" "v = RF64 d" "f64_holds d i"
  using assms by (cases v) (auto simp: typed_number_def number_holds_def)

lemma kind_tests [simp]:
  "isInt64 t \<Longrightarrow> \<not> isFloat64 t \<and> \<not> isString t \<and> \<not> isBigInt t \<and> \<not> isAny t"
  "isFloat64 t \<Longrightarrow> \<not> isInt64 t \<and> \<not> isString t \<and> \<not> isBigInt t \<and> \<not> isAny t"
  by (auto simp: isInt64_def isFloat64_def isString_def isBigInt_def isAny_def is_kind_def split: option.splits)

lemma typed_number_mkType:
  "typed_number (Some (mkType KFloat64)) (RF64 d)" "typed_number (Some (mkType KInt64)) (RI64 n)"
  by (simp_all add: typed_number_def isFloat64_def isInt64_def is_kind_def)

definition cmp_rel :: "hiropcode \<Rightarrow> int \<Rightarrow> int \<Rightarrow> bool" where
  "cmp_rel op m n =
     (if op = CmpEq then m = n else if op = CmpNe then m \<noteq> n else if op = CmpLt then m < n
      else if op = CmpLe then m \<le> n else if op = CmpGt then m > n else m \<ge> n)"

definition arith_rel :: "hiropcode \<Rightarrow> int \<Rightarrow> int \<Rightarrow> int" where
  "arith_rel op m n = (if op = Add then m + n else if op = Sub then m - n else m * n)"

abbreviation cmp_ops :: "hiropcode set" where
  "cmp_ops \<equiv> {CmpEq, CmpNe, CmpLt, CmpLe, CmpGt, CmpGe}"

lemma table_some:
  "op \<in> cmp_ops \<Longrightarrow> \<exists>o1 o2. int_cmp op = Some o1 \<and> float_cmp op = Some o2 \<and> o1 \<in> binary_ops \<and> o2 \<in> binary_ops"
  "op \<in> {Add, Sub, Mul} \<Longrightarrow> \<exists>o1 o2. int_arith op = Some o1 \<and> float_arith op = Some o2 \<and> o1 \<in> binary_ops \<and> o2 \<in> binary_ops"
  by (elim insertE emptyE; simp add: int_cmp_def float_cmp_def int_arith_def float_arith_def binary_ops_def)+

lemma int_cmp_lowered:
  assumes "op \<in> cmp_ops" and "int_cmp op = Some op'"
  shows "lower_binary rt k op' (RI64 a) (RI64 b) = Some (RI1 (cmp_rel op (sint a) (sint b)))"
  using assms
  by (elim insertE emptyE; simp add: int_cmp_def cmp_rel_def lowerCmpEqI64_def lowerCmpNeI64_def eq_i64_operands_def
      eq_lowered_def lowerCmpLtI64_def lowerCmpLeI64_def lowerCmpGtI64_def lowerCmpGeI64_def order_lowered_def
      normalize_ordering_def sint_eq_iff)

lemma float_cmp_lowered:
  assumes "op \<in> cmp_ops" and "float_cmp op = Some op'"
    and "f64_holds (coerce_f64 rt l) m" and "f64_holds (coerce_f64 rt r) n"
  shows "lower_binary rt k op' l r = Some (RI1 (cmp_rel op m n))"
  using assms(1,2) f64_cmp_holds [OF assms(3,4)] f64_cmp_holds [OF assms(4,3)]
  by (elim insertE emptyE; simp add: float_cmp_def cmp_rel_def lowerCmpEqF64_def lowerCmpNeF64_def lowerCmpLtF64_def
      lowerCmpLeF64_def lowerCmpGtF64_def lowerCmpGeF64_def)

lemma int_arith_lowered:
  assumes "op \<in> {Add, Sub, Mul}" and "int_arith op = Some op'" and "\<bar>arith_rel op (sint a) (sint b)\<bar> \<le> 2 ^ 53"
  shows "\<exists>c. (\<forall>k. lower_binary rt k op' (RI64 a) (RI64 b) = Some (RI64 c)) \<and> sint c = arith_rel op (sint a) (sint b)"
  using assms fits_53 [OF assms(3)]
  by (elim insertE emptyE; simp add: int_arith_def arith_rel_def lowerAddI64_def lowerSubI64_def lowerMulI64_def
      coerceToI64Operand_def sint_add_64 sint_sub_64 sint_mult_64)

lemma float_arith_lowered:
  assumes "op \<in> {Add, Sub, Mul}" and "float_arith op = Some op'" and "\<bar>arith_rel op m n\<bar> \<le> 2 ^ 53"
    and "f64_holds (coerce_f64 rt l) m" and "f64_holds (coerce_f64 rt r) n"
  shows "\<exists>d. (\<forall>k. lower_binary rt k op' l r = Some (RF64 d)) \<and> f64_holds d (arith_rel op m n)"
  using assms(1,2,3) f64_add_holds [OF assms(4,5)] f64_sub_holds [OF assms(4,5)] f64_mul_holds [OF assms(4,5)]
  by (elim insertE emptyE; simp add: float_arith_def arith_rel_def lowerAddF64_def lowerSubF64_def lowerMulF64_def)

lemma comparison_of_numbers:
  assumes "operands i = OVal (Some a) # OVal (Some b) # zs"
    and "typed_number (type_of st a) l" and "typed_number (type_of st b) r" and "opcode i \<in> cmp_ops"
  shows "specializeInstruction st i =
    map_option (\<lambda>op. makeTypedBinary op i (mkType KBool) st)
      ((if isInt64 (type_of st a) \<and> isInt64 (type_of st b) then int_cmp else float_cmp) (opcode i))"
proof -
  have t: "isInt64 (type_of st a) \<or> isFloat64 (type_of st a)" "isInt64 (type_of st b) \<or> isFloat64 (type_of st b)"
    using assms(2,3) by (auto simp: typed_number_def split: rtval.splits)
  have "specializeInstruction st i = specializeComparison st i"
    using assms(4) unfolding specializeInstruction_def by (elim insertE emptyE; simp)
  then show ?thesis using assms(1) t by (elim disjE) (simp_all add: specializeComparison_def operandType_def)
qed

lemma arithmetic_of_numbers:
  assumes "operands i = OVal (Some a) # OVal (Some b) # zs"
    and "typed_number (type_of st a) l" and "typed_number (type_of st b) r" and "opcode i \<in> {Add, Sub, Mul}"
    and "\<not> isString (resultType st i)" and "\<not> isBigInt (resultType st i)"
  shows "specializeInstruction st i =
    (if isFloat64 (resultType st i) \<or> isFloat64 (type_of st a) \<or> isFloat64 (type_of st b)
     then map_option (\<lambda>op. makeTypedBinary op i (mkType KFloat64) st) (float_arith (opcode i))
     else map_option (\<lambda>op. makeTypedBinary op i (mkType KInt64) st) (int_arith (opcode i)))"
proof -
  have t: "isInt64 (type_of st a) \<or> isFloat64 (type_of st a)" "isInt64 (type_of st b) \<or> isFloat64 (type_of st b)"
    using assms(2,3) by (auto simp: typed_number_def split: rtval.splits)
  have "specializeInstruction st i = specializeArithmetic st i"
    using assms(4) unfolding specializeInstruction_def by (elim insertE emptyE; simp)
  then show ?thesis
    using assms(1,5,6) t by (elim disjE) (simp_all add: specializeArithmetic_def operandType_def Let_def)
qed

section \<open>Properties\<close>



text \<open>Operands of both types: \<open>7\<close> as an Int64 against \<open>2\<close> as a Float64.\<close>

definition sp_example_store :: hstore where
  "sp_example_store = \<lparr>vals = (\<lambda>r. mk_value (of_nat r)
     (if r = 0 then Some (mkType KInt64) else if r = 1 then Some (mkType KFloat64) else Some (mkType KAny)) []),
     next_vref = 3, next_iaddr = 1\<rparr>"

definition sp_example :: "hiropcode \<Rightarrow> hinst" where
  "sp_example op = (mk_inst op 0)\<lparr>result := Some 2, operands := [OVal (Some 0), OVal (Some 1)]\<rparr>"

definition sp_example_env :: env where
  "sp_example_env = [0 \<mapsto> RI64 7, 1 \<mapsto> RF64 (f64_of_int 2)]"

lemma sp_example_facts:
  "opcode (sp_example op) = op" "result (sp_example op) = Some 2"
  "operands (sp_example op) = [OVal (Some 0), OVal (Some 1)]"
  "sp_example_env 0 = Some (RI64 7)" "sp_example_env 1 = Some (RF64 (f64_of_int 2))"
  "typed_number (type_of sp_example_store 0) (RI64 7)"
  "typed_number (type_of sp_example_store 1) (RF64 (f64_of_int 2))"
  "number_holds (RI64 7) 7" "number_holds (RF64 (f64_of_int 2)) 2"
  "\<not> isString (type_of sp_example_store 2)" "\<not> isBigInt (type_of sp_example_store 2)"
  using f64_of_int_holds [of 2]
  by (simp_all add: sp_example_def sp_example_env_def sp_example_store_def type_of_def mk_value_def
      typed_number_mkType number_holds_def isString_def isBigInt_def is_kind_def)



text \<open>
  C37. The integer opcodes are chosen where they do not mean what the operator means. A division
  of two Int64 operands becomes the truncating \<open>DivI64\<close>, which makes 3 of 7 / 2, and the
  negation of an Int64 operand becomes \<open>NegI64\<close>, which makes 0 of - 0 where ECMA-262 has the
  double -0.
\<close>

theorem specialized_integer_loses:
  fixes st :: hstore and i :: hinst
  defines "i \<equiv> (mk_inst Div 0)\<lparr>result := Some 2, operands := [OVal (Some 0), OVal (Some 1)]\<rparr>"
    and "n \<equiv> (mk_inst Neg 0)\<lparr>result := Some 2, operands := [OVal (Some 0)]\<rparr>"
    and "st \<equiv> \<lparr>vals = (\<lambda>r. mk_value (of_nat r) (Some (mkType KInt64)) []), next_vref = 3, next_iaddr = 1\<rparr>"
  shows "map_option (opcode \<circ> fst) (specializeInstruction st i) = Some DivI64 \<and>
    lower_binary rt k DivI64 (RI64 7) (RI64 2) = Some (RI64 3) \<and>
    map_option (opcode \<circ> fst) (specializeInstruction st n) = Some NegI64 \<and>
    lower_unary rt NegI64 (RI64 0) = Some (RI64 0) \<and> f64_neg (f64_of_int 0) \<noteq> f64_of_int 0"
proof -
  note defs = specializeInstruction_def specializeArithmetic_def specializeNeg_def operandType_def resultType_def
    type_of_def mk_value_def isString_def isBigInt_def isAny_def isFloat64_def isInt64_def is_kind_def int_arith_def
  have "f64_neg (f64_of_int 0) \<noteq> f64_of_int 0" by (metis f64_neg_sign_neg)
  moreover have "(7 :: int) sdiv 2 = 3" by simp
  ultimately show ?thesis
    unfolding assms by (auto simp: defs lowerDivI64_def lowerNegI64_def coerceToI64Operand_def sdiv_undefined_def Let_def)
qed

end
