(* ===== verification/IntegerOpt.thy ===== *)
theory IntegerOpt
  imports Execution FloatOrder PassContract
begin

text \<open>
  Integer optimization, \<open>src/src/compiler/hir/passes/IntegerOptimizationPass.cpp\<close>: a forward
  range analysis over the numeric values of a function, and the conversion of float constants
  and operations to 64-bit integers where the ranges and the uses allow it. Bounds are 64-bit
  words read as signed integers; where the C++ computation could overflow (a sum of bounds
  beyond 2^63, the negation of the least bound) the model wraps. The log messages of
  \<open>verifyTypeConsistency\<close> are its only effect, so it is left out.
\<close>

section \<open>Numeric ranges\<close>

datatype range_kind = NRUnknown | NRInteger | NRFloat | NRIntegerRange | NRMayOverflow

record NumericRange =
  nr_kind :: range_kind
  minVal :: i64
  maxVal :: i64
  mayBeNegativeZero :: bool

definition INT64_MIN :: i64 where "INT64_MIN = word_of_int (- (2 ^ 63))"
definition INT64_MAX :: i64 where "INT64_MAX = word_of_int (2 ^ 63 - 1)"
definition MAX_SAFE_INTEGER :: i64 where "MAX_SAFE_INTEGER = 9007199254740991"
definition MIN_SAFE_INTEGER :: i64 where "MIN_SAFE_INTEGER = word_of_int (- 9007199254740991)"

definition makeUnknown :: NumericRange where
  "makeUnknown = \<lparr>nr_kind = NRUnknown, minVal = INT64_MIN, maxVal = INT64_MAX, mayBeNegativeZero = False\<rparr>"

definition makeInteger :: "i64 \<Rightarrow> NumericRange" where
  "makeInteger v = \<lparr>nr_kind = NRIntegerRange, minVal = v, maxVal = v, mayBeNegativeZero = False\<rparr>"

definition makeRange :: "i64 \<Rightarrow> i64 \<Rightarrow> NumericRange" where
  "makeRange lo hi = \<lparr>nr_kind = NRIntegerRange, minVal = lo, maxVal = hi, mayBeNegativeZero = False\<rparr>"

definition makeFloat :: NumericRange where
  "makeFloat = \<lparr>nr_kind = NRFloat, minVal = 0, maxVal = 0, mayBeNegativeZero = False\<rparr>"

definition makeMayOverflow :: "i64 \<Rightarrow> i64 \<Rightarrow> NumericRange" where
  "makeMayOverflow lo hi = \<lparr>nr_kind = NRMayOverflow, minVal = lo, maxVal = hi, mayBeNegativeZero = False\<rparr>"

definition isSafeInteger :: "NumericRange \<Rightarrow> bool" where
  "isSafeInteger r =
     (if mayBeNegativeZero r then False
      else if nr_kind r = NRInteger then True
      else if nr_kind r = NRIntegerRange then
        sint (minVal r) \<ge> sint MIN_SAFE_INTEGER \<and> sint (maxVal r) \<le> sint MAX_SAFE_INTEGER
      else False)"

definition mustBeFloat :: "NumericRange \<Rightarrow> bool" where
  "mustBeFloat r \<longleftrightarrow> nr_kind r = NRFloat"

definition rangeKnown :: "NumericRange \<Rightarrow> bool" where
  "rangeKnown r \<longleftrightarrow> nr_kind r \<noteq> NRUnknown"

definition isExactInteger :: "f64 \<Rightarrow> bool" where
  "isExactInteger val =
     (if \<not> f64_isfinite val then False
      else if \<not> f64_eq (f64_floor val) val then False
      else if f64_lt val (f64_of_int (sint MIN_SAFE_INTEGER)) then False
      else if f64_lt (f64_of_int (sint MAX_SAFE_INTEGER)) val then False
      else True)"

section \<open>Ranges of sums, differences and products\<close>

definition combineAdd :: "NumericRange \<Rightarrow> NumericRange \<Rightarrow> NumericRange" where
  "combineAdd l r =
     (if nr_kind l \<noteq> NRIntegerRange \<or> nr_kind r \<noteq> NRIntegerRange then makeUnknown
      else
        let mayOverflowMax = (sint (maxVal r) > 0 \<and> sint (maxVal l) > sint (MAX_SAFE_INTEGER - maxVal r));
            mayOverflowMin = (sint (minVal r) < 0 \<and> sint (minVal l) < sint (MIN_SAFE_INTEGER - minVal r));
            newMin = minVal l + minVal r; newMax = maxVal l + maxVal r;
            res = (if mayOverflowMax \<or> mayOverflowMin then makeMayOverflow newMin newMax else makeRange newMin newMax)
        in res\<lparr>mayBeNegativeZero := mayBeNegativeZero l \<and> mayBeNegativeZero r\<rparr>)"

definition couldBeZero :: "NumericRange \<Rightarrow> bool" where
  "couldBeZero r \<longleftrightarrow> sint (minVal r) \<le> 0 \<and> sint (maxVal r) \<ge> 0"

definition combineSub :: "NumericRange \<Rightarrow> NumericRange \<Rightarrow> NumericRange" where
  "combineSub l r =
     (if nr_kind l \<noteq> NRIntegerRange \<or> nr_kind r \<noteq> NRIntegerRange then makeUnknown
      else
        let mayOverflowMax = (sint (minVal r) < 0 \<and> sint (maxVal l) > sint (MAX_SAFE_INTEGER + minVal r));
            mayOverflowMin = (sint (maxVal r) > 0 \<and> sint (minVal l) < sint (MIN_SAFE_INTEGER + maxVal r));
            newMin = minVal l - maxVal r; newMax = maxVal l - minVal r;
            res = (if mayOverflowMax \<or> mayOverflowMin then makeMayOverflow newMin newMax else makeRange newMin newMax)
        in res\<lparr>mayBeNegativeZero := mayBeNegativeZero l \<and> couldBeZero r\<rparr>)"

definition wouldOverflowI64Mul :: "i64 \<Rightarrow> i64 \<Rightarrow> bool" where
  "wouldOverflowI64Mul a b =
     (if a = 0 \<or> b = 0 then False
      else if sint a > 0 then
        (if sint b > 0 then sint a > sint INT64_MAX sdiv sint b else sint b < sint INT64_MIN sdiv sint a)
      else
        (if sint b > 0 then sint a < sint INT64_MIN sdiv sint b else sint b < sint INT64_MAX sdiv sint a))"

text \<open>\<open>std::min_element\<close> and \<open>std::max_element\<close> over the products.\<close>

definition smin :: "i64 \<Rightarrow> i64 \<Rightarrow> i64" where "smin a b = (if sint b < sint a then b else a)"
definition smax :: "i64 \<Rightarrow> i64 \<Rightarrow> i64" where "smax a b = (if sint a < sint b then b else a)"

definition combineMul :: "NumericRange \<Rightarrow> NumericRange \<Rightarrow> NumericRange" where
  "combineMul l r =
     (if nr_kind l \<noteq> NRIntegerRange \<or> nr_kind r \<noteq> NRIntegerRange then makeUnknown
      else if wouldOverflowI64Mul (minVal l) (minVal r) \<or> wouldOverflowI64Mul (minVal l) (maxVal r) \<or>
              wouldOverflowI64Mul (maxVal l) (minVal r) \<or> wouldOverflowI64Mul (maxVal l) (maxVal r)
        then makeFloat
      else
        let lhsCouldBeNegative = (sint (minVal l) < 0); rhsCouldBeNegative = (sint (minVal r) < 0);
            negz = ((couldBeZero l \<and> rhsCouldBeNegative) \<or> (couldBeZero r \<and> lhsCouldBeNegative) \<or>
                    mayBeNegativeZero l \<or> mayBeNegativeZero r);
            p0 = minVal l * minVal r; p1 = minVal l * maxVal r;
            p2 = maxVal l * minVal r; p3 = maxVal l * maxVal r;
            newMin = smin (smin (smin p0 p1) p2) p3; newMax = smax (smax (smax p0 p1) p2) p3;
            res = (if sint newMin < sint MIN_SAFE_INTEGER \<or> sint newMax > sint MAX_SAFE_INTEGER
                   then makeMayOverflow newMin newMax else makeRange newMin newMax)
        in res\<lparr>mayBeNegativeZero := negz\<rparr>)"

definition computeResultRange :: "hiropcode \<Rightarrow> NumericRange \<Rightarrow> NumericRange \<Rightarrow> NumericRange" where
  "computeResultRange op l r =
     (if \<not> rangeKnown l \<or> \<not> rangeKnown r then makeUnknown
      else if mustBeFloat l \<or> mustBeFloat r then makeFloat
      else if op \<in> {AddF64, AddI64} then combineAdd l r
      else if op \<in> {SubF64, SubI64} then combineSub l r
      else if op \<in> {MulF64, MulI64} then combineMul l r
      else if op \<in> {DivF64, DivI64} then makeFloat
      else makeUnknown)"

section \<open>The range analysis\<close>

type_synonym ranges = "vref \<Rightarrow> NumericRange option"

definition getValueRange :: "ranges \<Rightarrow> vref \<Rightarrow> NumericRange" where
  "getValueRange rs v = (case rs v of Some r \<Rightarrow> r | None \<Rightarrow> makeUnknown)"

definition getRange :: "ranges \<Rightarrow> hoperand \<Rightarrow> NumericRange" where
  "getRange rs x =
     (case x of
        OInt n \<Rightarrow> makeInteger n
      | OFloat d \<Rightarrow> if isExactInteger d then makeInteger (f64_to_i64 d) else makeFloat
      | OVal (Some v) \<Rightarrow> getValueRange rs v
      | _ \<Rightarrow> makeUnknown)"

definition detect_step :: "ranges \<Rightarrow> hinst \<Rightarrow> ranges" where
  "detect_step rs i =
     (case result i of
        None \<Rightarrow> rs
      | Some v \<Rightarrow>
          if opcode i = ConstFloat then
            (case operands i of
               OFloat d # _ \<Rightarrow> rs(v \<mapsto> if isExactInteger d then makeInteger (f64_to_i64 d) else makeFloat)
             | _ \<Rightarrow> rs)
          else if opcode i = ConstInt then
            (case operands i of OInt n # _ \<Rightarrow> rs(v \<mapsto> makeInteger n) | _ \<Rightarrow> rs)
          else rs)"

definition detectIntegerLiterals :: "hfunction \<Rightarrow> ranges" where
  "detectIntegerLiterals fn = fold (\<lambda>i rs. detect_step rs i) (fn_insts fn) Map.empty"

text \<open>The \<open>switch\<close> of \<open>propagateRanges\<close>.\<close>

definition transfer :: "ranges \<Rightarrow> hinst \<Rightarrow> NumericRange" where
  "transfer rs i =
     (if opcode i \<in> {AddF64, SubF64, MulF64, AddI64, SubI64, MulI64} then
        (case operands i of x # y # _ \<Rightarrow> computeResultRange (opcode i) (getRange rs x) (getRange rs y)
         | _ \<Rightarrow> makeUnknown)
      else if opcode i \<in> {DivF64, ModF64} then makeFloat
      else if opcode i = UShrI64 then makeRange 0 (word_of_int (2 ^ 32 - 1))
      else if opcode i \<in> {AndI64, OrI64, XorI64, ShlI64, ShrI64} then
        makeRange (word_of_int (- (2 ^ 31))) (word_of_int (2 ^ 31 - 1))
      else if opcode i = CastI64ToF64 then
        (case operands i of x # _ \<Rightarrow> if isSafeInteger (getRange rs x) then getRange rs x else makeFloat
         | [] \<Rightarrow> makeUnknown)
      else if opcode i = CastF64ToI64 then makeRange MIN_SAFE_INTEGER MAX_SAFE_INTEGER
      else if opcode i \<in> {BoxFloat, UnboxFloat, BoxInt, UnboxInt} then
        (case operands i of x # _ \<Rightarrow> getRange rs x | [] \<Rightarrow> makeUnknown)
      else if opcode i \<in> {NegF64, NegI64} then
        (case operands i of
           x # _ \<Rightarrow>
             (let src = getRange rs x
              in if nr_kind src = NRIntegerRange then makeRange (- maxVal src) (- minVal src)
                 else if mustBeFloat src then makeFloat
                 else makeUnknown)
         | [] \<Rightarrow> makeUnknown)
      else makeUnknown)"

definition propagate_step :: "ranges \<Rightarrow> hinst \<Rightarrow> ranges" where
  "propagate_step rs i =
     (case result i of
        None \<Rightarrow> rs
      | Some v \<Rightarrow>
          if rs v \<noteq> None then rs
          else let r = transfer rs i in if rangeKnown r then rs(v \<mapsto> r) else rs)"

definition propagateRanges :: "hfunction \<Rightarrow> ranges \<Rightarrow> ranges" where
  "propagateRanges fn rs = fold (\<lambda>i rs. propagate_step rs i) (fn_insts fn) rs"

section \<open>Conversion\<close>

definition requiresF64 :: "hinst \<Rightarrow> bool" where
  "requiresF64 i \<longleftrightarrow>
     opcode i \<in> {CmpEqF64, CmpNeF64, CmpLtF64, CmpLeF64, CmpGtF64, CmpGeF64,
       AddF64, SubF64, MulF64, DivF64, ModF64, NegF64, Call, CallIndirect, BoxFloat} \<or>
     opcode i = Store \<and> length (operands i) \<ge> 2"

definition usedInF64Ops :: "hinst list \<Rightarrow> vref set" where
  "usedInF64Ops is = set (concat (map (\<lambda>i. List.map_filter op_val (operands i)) (filter requiresF64 is)))"

definition getInt64Opcode :: "hiropcode \<Rightarrow> hiropcode" where
  "getInt64Opcode op =
     (case map_of [(AddF64, AddI64), (SubF64, SubI64), (MulF64, MulI64), (DivF64, DivF64), (ModF64, ModF64),
        (NegF64, NegI64), (CmpEqF64, CmpEqI64), (CmpNeF64, CmpNeI64), (CmpLtF64, CmpLtI64),
        (CmpLeF64, CmpLeI64), (CmpGtF64, CmpGtI64), (CmpGeF64, CmpGeI64)] op
      of Some op' \<Rightarrow> op' | None \<Rightarrow> op)"

definition write_type :: "vref option \<Rightarrow> htkind \<Rightarrow> hstore \<Rightarrow> hstore" where
  "write_type r k st = (case r of None \<Rightarrow> st | Some v \<Rightarrow> set_type v (Some (mkType k)) st)"

definition convertToInt64 :: "hstore \<Rightarrow> hinst \<Rightarrow> (hinst \<times> hstore) option" where
  "convertToInt64 st i =
     (let op = getInt64Opcode (opcode i)
      in if op = opcode i then None
         else Some ((mk_inst op (iaddr i))\<lparr>result := result i, operands := operands i,
                sourceFileIdx := sourceFileIdx i, sourceLine := sourceLine i, sourceColumn := sourceColumn i\<rparr>,
                write_type (result i) KInt64 st))"

definition operandsAreI64 :: "vref set \<Rightarrow> hinst \<Rightarrow> bool" where
  "operandsAreI64 F i \<longleftrightarrow> list_all (\<lambda>x. case op_val x of Some v \<Rightarrow> v \<notin> F | None \<Rightarrow> True) (operands i)"

definition convert_inst :: "ranges \<Rightarrow> vref set \<Rightarrow> hstore \<Rightarrow> hinst \<Rightarrow> (hinst \<times> hstore) option" where
  "convert_inst rs F st i =
     (if opcode i \<in> {AddF64, SubF64, MulF64} then
        (case result i of
           None \<Rightarrow> None
         | Some v \<Rightarrow>
             if \<not> isSafeInteger (getValueRange rs v) then None
             else (case operands i of
                     x # y # _ \<Rightarrow>
                       if \<not> isSafeInteger (getRange rs x) \<or> \<not> isSafeInteger (getRange rs y) then None
                       else if \<not> operandsAreI64 F i then None
                       else convertToInt64 st i
                   | _ \<Rightarrow> None))
      else if opcode i = ConstFloat then
        (case result i of
           None \<Rightarrow> None
         | Some v \<Rightarrow>
             if v \<in> F then None
             else if \<not> isSafeInteger (getValueRange rs v) then None
             else (case operands i of
                     OFloat d # _ \<Rightarrow>
                       if isExactInteger d
                       then Some ((mk_inst ConstInt (iaddr i))\<lparr>result := Some v, operands := [OInt (f64_to_i64 d)]\<rparr>,
                              set_type v (Some (mkType KInt64)) st)
                       else None
                   | _ \<Rightarrow> None))
      else None)"

definition convert_step :: "ranges \<Rightarrow> vref set \<Rightarrow> hstore \<times> bool \<Rightarrow> hinst \<Rightarrow> (hstore \<times> bool) \<times> hinst" where
  "convert_step rs F s i =
     (case convert_inst rs F (fst s) i of None \<Rightarrow> (s, i) | Some (j, st) \<Rightarrow> ((st, True), j))"

definition convertSafeOperations ::
  "ranges \<Rightarrow> hfunction \<Rightarrow> hstore \<Rightarrow> (hstore \<times> bool) \<times> hfunction" where
  "convertSafeOperations rs fn st = walk_fn (convert_step rs (usedInF64Ops (fn_insts fn))) (st, False) fn"

definition io_runOnFunction :: function_pass where
  "io_runOnFunction m fn st =
     (let rs = propagateRanges fn (detectIntegerLiterals fn);
          ((st', ch), fn') = convertSafeOperations rs fn st
      in (result_of ch, fn', st'))"

end
