(* ===== verification/IntegerOptCorrect.thy ===== *)
theory IntegerOptCorrect
  imports IntegerOpt
begin

text \<open>
  Correctness of the integer optimization: the exact-integer test, the sums, differences and
  products of ranges, the soundness of the range analysis along every execution, and what the
  conversion may change.
\<close>

section \<open>Exact integers\<close>

lemma sint_consts [simp]:
  "sint MAX_SAFE_INTEGER = 9007199254740991" "sint MIN_SAFE_INTEGER = - 9007199254740991"
  "sint INT64_MAX = 9223372036854775807" "sint INT64_MIN = - 9223372036854775808"
  by (simp_all add: MAX_SAFE_INTEGER_def MIN_SAFE_INTEGER_def INT64_MAX_def INT64_MIN_def)

lemma integral_holds: "f64_is_integral x \<Longrightarrow> \<exists>i. f64_holds x i"
proof -
  assume a: "f64_is_integral x"
  then obtain k where "mag_units (f64_mag x) = unit_one * k" by (auto simp: f64_is_integral_def dvd_def)
  then have "f64_units x = (if f64_neg_sign x then - int k else int k) * int unit_one"
    by (auto simp: f64_units_def mult.commute)
  then show ?thesis using a unfolding f64_holds_def f64_is_integral_def by blast
qed

lemma holds_integral: "f64_holds x i \<Longrightarrow> f64_is_integral x"
proof -
  assume h: "f64_holds x i"
  have "int (mag_units (f64_mag x)) = \<bar>f64_units x\<bar>" by (simp add: f64_units_def)
  then have "int (mag_units (f64_mag x)) = \<bar>i\<bar> * int unit_one"
    using h by (simp add: f64_holds_def abs_mult)
  then have "mag_units (f64_mag x) = nat \<bar>i\<bar> * unit_one" by (simp flip: of_nat_eq_iff [where 'a = int])
  then show ?thesis using h by (simp add: f64_is_integral_def f64_holds_def)
qed

lemma floor_not_equal:
  assumes "f64_isfinite x" and "\<not> f64_is_integral x" and "\<bar>f64_units x\<bar> \<le> 2 ^ 53 * int unit_one"
  shows "\<not> f64_eq (f64_floor x) x"
proof -
  have u: "0 < int unit_one" using unit_one_pos by simp
  let ?q = "f64_units x div int unit_one"
  have b: "- (2 ^ 53) \<le> ?q" "?q \<le> 2 ^ 53"
  proof -
    have "- (2 ^ 53) * int unit_one \<le> f64_units x" "f64_units x \<le> 2 ^ 53 * int unit_one"
      using assms(3) by linarith+
    then have "(- (2 ^ 53) * int unit_one) div int unit_one \<le> ?q" "?q \<le> (2 ^ 53 * int unit_one) div int unit_one"
      using u zdiv_mono1 by blast+
    moreover have "k * int unit_one div int unit_one = k" for k using u by (intro nonzero_mult_div_cancel_right) simp
    ultimately show "- (2 ^ 53) \<le> ?q" "?q \<le> 2 ^ 53" by metis+
  qed
  then have h: "f64_holds (f64_floor x) ?q"
    using assms(1,2) f64_of_int_holds [of ?q] by (simp add: f64_floor_def abs_le_iff)
  show ?thesis
  proof
    assume "f64_eq (f64_floor x) x"
    then have "f64_units (f64_floor x) = f64_units x"
      using f64_cmp_units(1) f64_holds_not_nan [OF h] finite_not_special [OF assms(1)] by blast
    then have "f64_holds x ?q" using h assms(1) by (simp add: f64_holds_def)
    then show False using holds_integral assms(2) by blast
  qed
qed

lemma isExactInteger_iff: "isExactInteger d \<longleftrightarrow> (\<exists>i. f64_holds d i \<and> \<bar>i\<bar> \<le> 9007199254740991)"
proof
  assume e: "isExactInteger d"
  then have f: "f64_isfinite d" "f64_eq (f64_floor d) d" and
    b: "\<not> f64_lt d (f64_of_int (- 9007199254740991))" "\<not> f64_lt (f64_of_int 9007199254740991) d"
    by (auto simp: isExactInteger_def split: if_splits)
  have h: "f64_holds (f64_of_int (- 9007199254740991)) (- 9007199254740991)"
    "f64_holds (f64_of_int 9007199254740991) 9007199254740991" by (rule f64_of_int_holds, simp)+
  have n: "\<not> f64_isnan d" using f(1) finite_not_special by blast
  have u: "- 9007199254740991 * int unit_one \<le> f64_units d" "f64_units d \<le> 9007199254740991 * int unit_one"
    using b f64_cmp_units(2) [OF n f64_holds_not_nan [OF h(1)]] f64_cmp_units(2) [OF f64_holds_not_nan [OF h(2)] n] h
    by (auto simp: f64_holds_def)
  have "\<bar>f64_units d\<bar> \<le> 9007199254740991 * int unit_one" using u by (simp add: abs_le_iff)
  also have "\<dots> \<le> 2 ^ 53 * int unit_one" by simp
  finally have "\<bar>f64_units d\<bar> \<le> 2 ^ 53 * int unit_one" .
  then have "f64_is_integral d" using floor_not_equal [OF f(1)] f(2) by blast
  then obtain i where i: "f64_holds d i" using integral_holds by blast
  then have e: "f64_units d = i * int unit_one" by (simp add: f64_holds_def)
  have c: "a * int unit_one \<le> b * int unit_one \<Longrightarrow> a \<le> b" for a b :: int
    using unit_one_pos by (simp add: mult_le_cancel_right)
  have "- 9007199254740991 \<le> i \<and> i \<le> 9007199254740991"
    using u unfolding e by (blast intro: c)
  then show "\<exists>i. f64_holds d i \<and> \<bar>i\<bar> \<le> 9007199254740991" using i by (auto simp: abs_le_iff)
next
  assume "\<exists>i. f64_holds d i \<and> \<bar>i\<bar> \<le> 9007199254740991"
  then obtain i where i: "f64_holds d i" "\<bar>i\<bar> \<le> 9007199254740991" by blast
  then have f: "f64_isfinite d" "f64_floor d = d" "f64_eq d d"
    using f64_cmp_holds(1) [OF i(1) i(1)] holds_integral [OF i(1)] by (simp_all add: f64_holds_def f64_floor_def)
  have h: "f64_holds (f64_of_int (- 9007199254740991)) (- 9007199254740991)"
    "f64_holds (f64_of_int 9007199254740991) 9007199254740991" by (rule f64_of_int_holds, simp)+
  show "isExactInteger d"
    using f i(2) f64_cmp_holds(2) [OF i(1) h(1)] f64_cmp_holds(2) [OF h(2) i(1)]
    by (simp add: isExactInteger_def abs_le_iff)
qed

lemma exact_to_i64:
  assumes "isExactInteger d"
  shows "f64_holds d (sint (f64_to_i64 d))" and "\<bar>sint (f64_to_i64 d)\<bar> \<le> 9007199254740991"
proof -
  obtain i where i: "f64_holds d i" "\<bar>i\<bar> \<le> 9007199254740991" using assms isExactInteger_iff by blast
  have "fits_i64 i" using i(2) by (intro fits_53) simp
  then have "sint (f64_to_i64 d) = i" using f64_to_i64_holds [OF i(1)] sint_of_int_64 by simp
  then show "f64_holds d (sint (f64_to_i64 d))" "\<bar>sint (f64_to_i64 d)\<bar> \<le> 9007199254740991" using i by simp_all
qed

section \<open>Sound ranges\<close>

text \<open>A bounded range stays within the safe integers; it covers a run-time value that holds an
  integer between its bounds. Other kinds of range promise nothing.\<close>

definition bounded :: "NumericRange \<Rightarrow> bool" where
  "bounded r \<longleftrightarrow> nr_kind r = NRIntegerRange \<longrightarrow>
     - 9007199254740991 \<le> sint (minVal r) \<and> sint (minVal r) \<le> sint (maxVal r) \<and> sint (maxVal r) \<le> 9007199254740991"

definition in_range :: "NumericRange \<Rightarrow> int \<Rightarrow> bool" where
  "in_range r i \<longleftrightarrow> sint (minVal r) \<le> i \<and> i \<le> sint (maxVal r)"

definition covers :: "NumericRange \<Rightarrow> rtval \<Rightarrow> bool" where
  "covers r x \<longleftrightarrow> nr_kind r = NRIntegerRange \<longrightarrow> (\<exists>i. number_holds x i \<and> in_range r i)"

lemma bounded_simps [simp]: "bounded makeUnknown" "bounded makeFloat" "bounded (makeMayOverflow lo hi)"
  by (simp_all add: bounded_def makeUnknown_def makeFloat_def makeMayOverflow_def)

lemma kind_simps [simp]:
  "nr_kind makeUnknown = NRUnknown" "nr_kind makeFloat = NRFloat" "nr_kind (makeMayOverflow lo hi) = NRMayOverflow"
  "nr_kind (makeRange lo hi) = NRIntegerRange" "nr_kind (makeInteger n) = NRIntegerRange"
  "minVal (makeRange lo hi) = lo" "maxVal (makeRange lo hi) = hi" "minVal (makeInteger n) = n" "maxVal (makeInteger n) = n"
  "mayBeNegativeZero (makeRange lo hi) = False"
  by (simp_all add: makeUnknown_def makeFloat_def makeMayOverflow_def makeRange_def makeInteger_def)

lemma covers_other [simp]: "nr_kind r \<noteq> NRIntegerRange \<Longrightarrow> covers r x"
  by (simp add: covers_def)

lemma sint_small: "\<bar>sint (a :: i64) + sint b\<bar> \<le> 4 * 9007199254740991 \<Longrightarrow> sint (a + b) = sint a + sint b"
  by (rule sint_add_64) (simp add: fits_i64_def abs_le_iff)

lemma sint_small_diff: "\<bar>sint (a :: i64) - sint b\<bar> \<le> 4 * 9007199254740991 \<Longrightarrow> sint (a - b) = sint a - sint b"
  by (rule sint_sub_64) (simp add: fits_i64_def abs_le_iff)

lemma combineAdd_range:
  assumes "bounded l" and "bounded r" and "nr_kind (combineAdd l r) = NRIntegerRange"
  shows "nr_kind l = NRIntegerRange \<and> nr_kind r = NRIntegerRange \<and> bounded (combineAdd l r) \<and>
    sint (minVal (combineAdd l r)) = sint (minVal l) + sint (minVal r) \<and>
    sint (maxVal (combineAdd l r)) = sint (maxVal l) + sint (maxVal r)"
proof -
  have k: "nr_kind l = NRIntegerRange" "nr_kind r = NRIntegerRange"
    using assms(3) by (auto simp: combineAdd_def split: if_splits)
  have s: "sint (minVal l + minVal r) = sint (minVal l) + sint (minVal r)"
    "sint (maxVal l + maxVal r) = sint (maxVal l) + sint (maxVal r)"
    "sint (MAX_SAFE_INTEGER - maxVal r) = 9007199254740991 - sint (maxVal r)"
    "sint (MIN_SAFE_INTEGER - minVal r) = - 9007199254740991 - sint (minVal r)"
    using assms(1,2) k by (auto simp: bounded_def intro!: sint_small [THEN trans] sint_small_diff [THEN trans])
  show ?thesis
    using assms k s by (auto simp: combineAdd_def Let_def bounded_def split: if_splits)
qed

lemma combineSub_range:
  assumes "bounded l" and "bounded r" and "nr_kind (combineSub l r) = NRIntegerRange"
  shows "nr_kind l = NRIntegerRange \<and> nr_kind r = NRIntegerRange \<and> bounded (combineSub l r) \<and>
    sint (minVal (combineSub l r)) = sint (minVal l) - sint (maxVal r) \<and>
    sint (maxVal (combineSub l r)) = sint (maxVal l) - sint (minVal r)"
proof -
  have k: "nr_kind l = NRIntegerRange" "nr_kind r = NRIntegerRange"
    using assms(3) by (auto simp: combineSub_def split: if_splits)
  have s: "sint (minVal l - maxVal r) = sint (minVal l) - sint (maxVal r)"
    "sint (maxVal l - minVal r) = sint (maxVal l) - sint (minVal r)"
    "sint (MAX_SAFE_INTEGER + minVal r) = 9007199254740991 + sint (minVal r)"
    "sint (MIN_SAFE_INTEGER + maxVal r) = - 9007199254740991 + sint (maxVal r)"
    using assms(1,2) k by (auto simp: bounded_def intro!: sint_small [THEN trans] sint_small_diff [THEN trans])
  show ?thesis
    using assms k s by (auto simp: combineSub_def Let_def bounded_def split: if_splits)
qed

text \<open>The overflow test of the multiplication is exact.\<close>

lemma div_less_iff_pos:
  fixes a b m :: int
  assumes "0 < b"
  shows "m div b < a \<longleftrightarrow> m < a * b"
proof
  assume "m div b < a"
  then have "(m div b + 1) * b \<le> a * b" using assms by (intro mult_right_mono) simp_all
  moreover have "m < (m div b + 1) * b"
    using pos_mod_bound [OF assms, of m] div_mult_mod_eq [of m b] unfolding distrib_right mult_1 by linarith
  ultimately show "m < a * b" by simp
next
  assume m: "m < a * b"
  show "m div b < a"
  proof (rule ccontr)
    assume "\<not> m div b < a"
    then have "a * b \<le> m div b * b" using assms by (intro mult_right_mono) simp_all
    also have "\<dots> \<le> m" using assms pos_mod_sign [of b m] div_mult_mod_eq [of m b] by linarith
    finally show False using m by simp
  qed
qed

lemma sdiv_pos: "0 < b \<Longrightarrow> (m :: int) sdiv b = sgn m * (\<bar>m\<bar> div b)"
  by (simp add: signed_divide_int_def)

lemma sdiv_neg: "b < 0 \<Longrightarrow> (m :: int) sdiv b = - sgn m * (\<bar>m\<bar> div (- b))"
  by (simp add: signed_divide_int_def)

lemma overflow_int:
  fixes a b :: int
  shows "0 < a \<Longrightarrow> 0 < b \<Longrightarrow> 9223372036854775807 sdiv b < a \<longleftrightarrow> 9223372036854775807 < a * b"
    and "0 < a \<Longrightarrow> b < 0 \<Longrightarrow> b < - 9223372036854775808 sdiv a \<longleftrightarrow> a * b < - 9223372036854775808"
    and "a < 0 \<Longrightarrow> 0 < b \<Longrightarrow> a < - 9223372036854775808 sdiv b \<longleftrightarrow> a * b < - 9223372036854775808"
    and "a < 0 \<Longrightarrow> b < 0 \<Longrightarrow> b < 9223372036854775807 sdiv a \<longleftrightarrow> 9223372036854775807 < a * b"
  using div_less_iff_pos [of b 9223372036854775807 a] div_less_iff_pos [of a 9223372036854775808 "- b"]
    div_less_iff_pos [of b 9223372036854775808 "- a"] div_less_iff_pos [of "- a" 9223372036854775807 "- b"]
  by (auto simp: sdiv_pos sdiv_neg algebra_simps)

lemma fits_i64_num: "fits_i64 i \<longleftrightarrow> - 9223372036854775808 \<le> i \<and> i \<le> 9223372036854775807"
  by (auto simp: fits_i64_def)

lemma wouldOverflow_exact: "wouldOverflowI64Mul a b \<longleftrightarrow> \<not> fits_i64 (sint a * sint b)"
proof -
  have nz: "a \<noteq> 0 \<longleftrightarrow> sint a \<noteq> 0" "b \<noteq> 0 \<longleftrightarrow> sint b \<noteq> 0" using sint_eq_iff [of a 0] sint_eq_iff [of b 0] by auto
  have pos: "0 < x * y \<longleftrightarrow> (0 < x \<and> 0 < y \<or> x < 0 \<and> y < 0)" for x y :: int by (simp add: zero_less_mult_iff)
  consider "a = 0 \<or> b = 0" | "0 < sint a" "0 < sint b" | "0 < sint a" "sint b < 0" | "sint a < 0" "0 < sint b"
    | "sint a < 0" "sint b < 0" using nz by linarith
  then show ?thesis
  proof cases
    case 1
    then show ?thesis by (auto simp: wouldOverflowI64Mul_def fits_i64_def)
  next
    case 2
    then have "0 < sint a * sint b" by simp
    moreover have "wouldOverflowI64Mul a b \<longleftrightarrow> 9223372036854775807 < sint a * sint b"
      using overflow_int(1) [OF 2] 2 by (auto simp: wouldOverflowI64Mul_def)
    ultimately show ?thesis unfolding fits_i64_num by linarith
  next
    case 3
    then have "sint a * sint b < 0" by (simp add: mult_less_0_iff)
    moreover have "wouldOverflowI64Mul a b \<longleftrightarrow> sint a * sint b < - 9223372036854775808"
      using overflow_int(2) [OF 3] 3 by (auto simp: wouldOverflowI64Mul_def)
    ultimately show ?thesis unfolding fits_i64_num by linarith
  next
    case 4
    then have "sint a * sint b < 0" by (simp add: mult_less_0_iff)
    moreover have "wouldOverflowI64Mul a b \<longleftrightarrow> sint a * sint b < - 9223372036854775808"
      using overflow_int(3) [OF 4] 4 by (auto simp: wouldOverflowI64Mul_def)
    ultimately show ?thesis unfolding fits_i64_num by linarith
  next
    case 5
    then have "0 < sint a * sint b" by (simp add: zero_less_mult_iff)
    moreover have "wouldOverflowI64Mul a b \<longleftrightarrow> 9223372036854775807 < sint a * sint b"
      using overflow_int(4) [OF 5] 5 by (auto simp: wouldOverflowI64Mul_def)
    ultimately show ?thesis unfolding fits_i64_num by linarith
  qed
qed

text \<open>The corner products enclose every product.\<close>

lemma mul_between:
  fixes x y :: int
  assumes "a \<le> x" and "x \<le> b"
  shows "min (a * y) (b * y) \<le> x * y \<and> x * y \<le> max (a * y) (b * y)"
proof (cases "0 \<le> y")
  case True
  then have "a * y \<le> x * y" "x * y \<le> b * y" using assms by (simp_all add: mult_right_mono)
  then show ?thesis by linarith
next
  case False
  then have "b * y \<le> x * y" "x * y \<le> a * y" using assms by (simp_all add: mult_right_mono_neg)
  then show ?thesis by linarith
qed

lemma mul_corners:
  fixes x y :: int
  assumes "a \<le> x" "x \<le> b" "c \<le> y" "y \<le> d"
  shows "min (min (min (a * c) (a * d)) (b * c)) (b * d) \<le> x * y"
    and "x * y \<le> max (max (max (a * c) (a * d)) (b * c)) (b * d)"
  using mul_between [OF assms(1,2), of y] mul_between [OF assms(3,4), of a] mul_between [OF assms(3,4), of b]
  unfolding mult.commute [of c] mult.commute [of d] mult.commute [of y] min_le_iff_disj le_max_iff_disj
  by (meson order_trans)+

lemma sint_smin [simp]: "sint (smin a b) = min (sint a) (sint b)"
  by (simp add: smin_def)

lemma sint_smax [simp]: "sint (smax a b) = max (sint a) (sint b)"
  by (simp add: smax_def)

lemma combineMul_range:
  assumes "nr_kind (combineMul l r) = NRIntegerRange" and "bounded l" and "bounded r"
  shows "nr_kind l = NRIntegerRange \<and> nr_kind r = NRIntegerRange \<and> bounded (combineMul l r) \<and>
    (\<forall>i j. in_range l i \<longrightarrow> in_range r j \<longrightarrow> in_range (combineMul l r) (i * j))"
proof -
  have "nr_kind l = NRIntegerRange \<and> nr_kind r = NRIntegerRange"
  proof (rule ccontr)
    assume "\<not> (nr_kind l = NRIntegerRange \<and> nr_kind r = NRIntegerRange)"
    then have "nr_kind l \<noteq> NRIntegerRange \<or> nr_kind r \<noteq> NRIntegerRange" by blast
    then have "combineMul l r = makeUnknown" unfolding combineMul_def by (rule if_P)
    then show False using assms(1) by simp
  qed
  then have k: "nr_kind l = NRIntegerRange" "nr_kind r = NRIntegerRange" by blast+
  have "\<not> (wouldOverflowI64Mul (minVal l) (minVal r) \<or> wouldOverflowI64Mul (minVal l) (maxVal r) \<or>
      wouldOverflowI64Mul (maxVal l) (minVal r) \<or> wouldOverflowI64Mul (maxVal l) (maxVal r))" (is "\<not> ?o")
  proof
    assume ?o
    then have "combineMul l r = makeFloat"
      unfolding combineMul_def by (simp only: k if_True if_False simp_thms)
    then show False using assms(1) by simp
  qed
  then have f: "fits_i64 (sint (minVal l) * sint (minVal r))" "fits_i64 (sint (minVal l) * sint (maxVal r))"
    "fits_i64 (sint (maxVal l) * sint (minVal r))" "fits_i64 (sint (maxVal l) * sint (maxVal r))"
    unfolding wouldOverflow_exact by blast+
  note p = f [THEN sint_mult_64]
  define lo where "lo = smin (smin (smin (minVal l * minVal r) (minVal l * maxVal r)) (maxVal l * minVal r)) (maxVal l * maxVal r)"
  define hi where "hi = smax (smax (smax (minVal l * minVal r) (minVal l * maxVal r)) (maxVal l * minVal r)) (maxVal l * maxVal r)"
  obtain z where eq: "combineMul l r = (if sint lo < sint MIN_SAFE_INTEGER \<or> sint hi > sint MAX_SAFE_INTEGER
      then makeMayOverflow lo hi else makeRange lo hi)\<lparr>mayBeNegativeZero := z\<rparr>"
    using k f unfolding combineMul_def Let_def lo_def [symmetric] hi_def [symmetric] wouldOverflow_exact
    by (simp only: simp_thms if_False)
  have small: "\<not> (sint lo < sint MIN_SAFE_INTEGER \<or> sint hi > sint MAX_SAFE_INTEGER)"
    using assms(1) unfolding eq by (auto split: if_splits)
  then have m: "minVal (combineMul l r) = lo" "maxVal (combineMul l r) = hi" unfolding eq by simp_all
  have s: "sint lo = min (min (min (sint (minVal l) * sint (minVal r)) (sint (minVal l) * sint (maxVal r)))
      (sint (maxVal l) * sint (minVal r))) (sint (maxVal l) * sint (maxVal r))"
    "sint hi = max (max (max (sint (minVal l) * sint (minVal r)) (sint (minVal l) * sint (maxVal r)))
      (sint (maxVal l) * sint (minVal r))) (sint (maxVal l) * sint (maxVal r))"
    unfolding lo_def hi_def sint_smin sint_smax p by (rule refl)+
  have "sint lo \<le> sint hi" unfolding s min_le_iff_disj le_max_iff_disj by blast
  then have "bounded (combineMul l r)" using small unfolding bounded_def m by simp
  moreover have "in_range (combineMul l r) (i * j)" if "in_range l i" "in_range r j" for i j
    using mul_corners [of "sint (minVal l)" i "sint (maxVal l)" "sint (minVal r)" j "sint (maxVal r)"] that
    unfolding in_range_def m s by blast
  ultimately show ?thesis using k by blast
qed

section \<open>Soundness of the analysis\<close>

text \<open>The opcodes whose computed value the ranges speak about. \<open>CastF64ToI64\<close> is left out: its
  range is the safe integers whatever its operand; and boxed values are pointers.\<close>

definition unranged_ops :: "hiropcode set" where
  "unranged_ops = {CastF64ToI64, BoxFloat, UnboxFloat, BoxInt, UnboxInt}"

definition safe_literals :: "hinst \<Rightarrow> bool" where
  "safe_literals i \<longleftrightarrow> list_all (\<lambda>x. case x of OInt n \<Rightarrow> \<bar>sint n\<bar> \<le> 9007199254740991 | _ \<Rightarrow> True) (operands i)"

definition sound_for :: "ranges \<Rightarrow> env \<Rightarrow> bool" where
  "sound_for rs env \<longleftrightarrow> (\<forall>v r x. rs v = Some r \<longrightarrow> env v = Some x \<longrightarrow> covers r x)"

definition bounded_ranges :: "ranges \<Rightarrow> bool" where
  "bounded_ranges rs \<longleftrightarrow> (\<forall>v r. rs v = Some r \<longrightarrow> bounded r)"

lemma bounded_integer: "\<bar>sint n\<bar> \<le> 9007199254740991 \<Longrightarrow> bounded (makeInteger n)"
  by (simp add: bounded_def makeInteger_def abs_le_iff)

lemma covers_integer: "number_holds x (sint n) \<Longrightarrow> covers (makeInteger n) x"
  unfolding covers_def in_range_def by (intro impI exI [of _ "sint n"]) simp

lemma getRange_bounded:
  "bounded_ranges rs \<Longrightarrow> safe_literals i \<Longrightarrow> x \<in> set (operands i) \<Longrightarrow> bounded (getRange rs x)"
  by (cases x) (auto simp: getRange_def getValueRange_def bounded_ranges_def safe_literals_def list_all_iff
      intro!: bounded_integer exact_to_i64(2) split: option.split)

lemma getRange_covers:
  "sound_for rs env \<Longrightarrow> getOperandValue env x = Some v \<Longrightarrow> covers (getRange rs x) v"
  by (cases x) (auto simp: getRange_def getValueRange_def getOperandValue_def sound_for_def number_holds_def
      intro!: covers_integer exact_to_i64(1) split: option.splits)

lemma computeResultRange_cases:
  assumes "nr_kind (computeResultRange op l r) = NRIntegerRange"
  shows "(op \<in> {AddF64, AddI64} \<and> computeResultRange op l r = combineAdd l r) \<or>
    (op \<in> {SubF64, SubI64} \<and> computeResultRange op l r = combineSub l r) \<or>
    (op \<in> {MulF64, MulI64} \<and> computeResultRange op l r = combineMul l r)"
  using assms unfolding computeResultRange_def
  by (simp only: if_bool_eq_conj split: if_split_asm) (auto split: if_split_asm)

text \<open>A sum, difference or product of two numbers within the safe integers is exact when it is
  one, whichever family the opcode belongs to.\<close>

definition arith_int :: "hiropcode \<Rightarrow> int \<Rightarrow> int \<Rightarrow> int" where
  "arith_int op i j = (if op \<in> {AddF64, AddI64} then i + j else if op \<in> {SubF64, SubI64} then i - j else i * j)"

lemma coerce_i64_number: "number_holds v i \<Longrightarrow> fits_i64 i \<Longrightarrow> sint (coerceToI64Operand v) = i"
  by (cases v) (auto simp: number_holds_def coerceToI64Operand_def f64_to_i64_holds sint_of_int_64)

lemma arith_lowered:
  assumes "op \<in> {AddF64, AddI64, SubF64, SubI64, MulF64, MulI64}"
    and "number_holds l i" and "number_holds r j" and "\<bar>i\<bar> \<le> 2 ^ 53" and "\<bar>j\<bar> \<le> 2 ^ 53"
    and "\<bar>arith_int op i j\<bar> \<le> 2 ^ 53" and "lower_binary rt k op l r = Some x"
  shows "number_holds x (arith_int op i j)"
proof -
  have f: "f64_holds (coerce_f64 rt l) i" "f64_holds (coerce_f64 rt r) j"
    and c: "sint (coerceToI64Operand l) = i" "sint (coerceToI64Operand r) = j"
    using assms(2-5) coerce_number coerce_i64_number fits_53 by blast+
  note a = fits_53 [OF assms(6)]
  consider "op = AddF64" | "op = AddI64" | "op = SubF64" | "op = SubI64" | "op = MulF64" | "op = MulI64"
    using assms(1) by blast
  then show ?thesis
  proof cases
    case 1
    then show ?thesis using assms(6,7) f64_add_holds [OF f] by (auto simp: number_holds_def lowerAddF64_def arith_int_def)
  next
    case 2
    then show ?thesis using assms(7) a sint_add_64 [of "coerceToI64Operand l" "coerceToI64Operand r"] c
      by (auto simp: number_holds_def lowerAddI64_def arith_int_def)
  next
    case 3
    then show ?thesis using assms(6,7) f64_sub_holds [OF f] by (auto simp: number_holds_def lowerSubF64_def arith_int_def)
  next
    case 4
    then show ?thesis using assms(7) a sint_sub_64 [of "coerceToI64Operand l" "coerceToI64Operand r"] c
      by (auto simp: number_holds_def lowerSubI64_def arith_int_def)
  next
    case 5
    then show ?thesis using assms(6,7) f64_mul_holds [OF f] by (auto simp: number_holds_def lowerMulF64_def arith_int_def)
  next
    case 6
    then show ?thesis using assms(7) a sint_mult_64 [of "coerceToI64Operand l" "coerceToI64Operand r"] c
      by (auto simp: number_holds_def lowerMulI64_def arith_int_def)
  qed
qed

lemma combined_in_range:
  assumes "bounded l" and "bounded r" and k: "nr_kind (computeResultRange op l r) = NRIntegerRange"
  shows "nr_kind l = NRIntegerRange \<and> nr_kind r = NRIntegerRange \<and> bounded (computeResultRange op l r)"
    and "in_range l i \<Longrightarrow> in_range r j \<Longrightarrow> in_range (computeResultRange op l r) (arith_int op i j)"
proof -
  let ?c = "computeResultRange op l r"
  have *: "nr_kind l = NRIntegerRange \<and> nr_kind r = NRIntegerRange \<and> bounded ?c \<and>
      (in_range l i \<longrightarrow> in_range r j \<longrightarrow> in_range ?c (arith_int op i j))"
    using computeResultRange_cases [OF k]
  proof (elim disjE)
    assume o: "op \<in> {AddF64, AddI64} \<and> ?c = combineAdd l r"
    with combineAdd_range [OF assms(1,2)] k show ?thesis by (auto simp: in_range_def arith_int_def)
  next
    assume o: "op \<in> {SubF64, SubI64} \<and> ?c = combineSub l r"
    with combineSub_range [OF assms(1,2)] k show ?thesis by (auto simp: in_range_def arith_int_def)
  next
    assume o: "op \<in> {MulF64, MulI64} \<and> ?c = combineMul l r"
    with combineMul_range [OF _ assms(1,2)] k show ?thesis by (auto simp: arith_int_def)
  qed
  then show "nr_kind l = NRIntegerRange \<and> nr_kind r = NRIntegerRange \<and> bounded ?c" by blast
  show "in_range l i \<Longrightarrow> in_range r j \<Longrightarrow> in_range ?c (arith_int op i j)" using * by blast
qed

lemma bounded_in_range: "bounded r \<Longrightarrow> nr_kind r = NRIntegerRange \<Longrightarrow> in_range r i \<Longrightarrow> \<bar>i\<bar> \<le> 2 ^ 53"
  by (auto simp: bounded_def in_range_def abs_le_iff)

lemma bitwise_range:
  assumes "opcode i \<in> {AndI64, OrI64, XorI64, ShlI64, ShrI64}" and "computes rt i env x"
  shows "covers (makeRange (word_of_int (- (2 ^ 31))) (word_of_int (2 ^ 31 - 1))) x"
proof -
  have b: "opcode i \<in> binary_ops" using assms(1) by (elim insertE emptyE; simp add: binary_ops_def)
  obtain k l r where "lower_binary rt k (opcode i) l r = Some x"
    by (rule computes_binary_op [OF assms(2) b])
  then obtain w where "i32_to_f64 w = Some x"
    using assms(1) by (elim insertE emptyE) (simp_all add: lowerAndI64_def lowerOrI64_def lowerXorI64_def lowerShlI64_def lowerShrI64_def)
  then have "number_holds x (sint w)" using i32_to_f64_holds [of w] by (auto simp: number_holds_def)
  moreover have "- (2 ^ 31) \<le> sint w" "sint w \<le> 2 ^ 31 - 1" using sint_ge [of w] sint_lt [of w] by simp_all
  ultimately show ?thesis unfolding covers_def in_range_def by auto
qed

lemma ushr_range:
  assumes "opcode i = UShrI64" and "computes rt i env x"
  shows "covers (makeRange 0 (word_of_int (2 ^ 32 - 1))) x"
proof -
  have b: "opcode i \<in> binary_ops" using assms(1) by (auto simp: binary_ops_def)
  obtain k l r where "lower_binary rt k (opcode i) l r = Some x"
    by (rule computes_binary_op [OF assms(2) b])
  then obtain w :: i32 where x: "x = RF64 (f64_of_int (uint (zext64 w)))"
    using assms(1) by (auto simp: lowerUShrI64_def Let_def)
  have u: "uint (zext64 w) = uint w" 
    unfolding zext64_def unsigned_ucast_eq by (rule take_bit_int_eq_self) (use uint_bounded [of w] in simp_all)
  have "uint w < 2 ^ 32" using uint_bounded [of w] by simp
  then have "number_holds x (uint w)" "uint w \<le> 2 ^ 32 - 1"
    using f64_of_int_holds [of "uint w"] unfolding x u by (simp_all add: number_holds_def)
  then show ?thesis unfolding covers_def in_range_def by (intro impI exI [of _ "uint w"]) simp
qed

lemma negated_range:
  assumes "bounded r" and "nr_kind r = NRIntegerRange"
  shows "sint (- maxVal r) = - sint (maxVal r)" and "sint (- minVal r) = - sint (minVal r)"
    and "bounded (makeRange (- maxVal r) (- minVal r))"
    and "in_range r i \<Longrightarrow> in_range (makeRange (- maxVal r) (- minVal r)) (- i)"
proof -
  show s: "sint (- maxVal r) = - sint (maxVal r)" "sint (- minVal r) = - sint (minVal r)"
    using assms by (auto simp: bounded_def fits_i64_num intro!: sint_neg_64)
  show "bounded (makeRange (- maxVal r) (- minVal r))" using assms by (simp add: bounded_def s)
  show "in_range r i \<Longrightarrow> in_range (makeRange (- maxVal r) (- minVal r)) (- i)" by (simp add: in_range_def s)
qed

lemma neg_lowered:
  assumes "op \<in> {NegF64, NegI64}" and "number_holds v i" and "\<bar>i\<bar> \<le> 2 ^ 53" and "lower_unary rt op v = Some x"
  shows "number_holds x (- i)"
proof -
  have "f64_holds (coerce_f64 rt v) i" "sint (coerceToI64Operand v) = i" "fits_i64 (- i)"
    using assms(2,3) coerce_number coerce_i64_number fits_53 [of i] fits_53 [of "- i"] by simp_all
  then show ?thesis
    using assms(1,4) f64_neg_holds sint_neg_64 [of "coerceToI64Operand v"]
    by (auto simp: lowerNegF64_def lowerNegI64_def number_holds_def)
qed

lemma transfer_arith:
  assumes rs: "bounded_ranges rs" "sound_for rs env" and lit: "safe_literals i"
    and op: "opcode i \<in> {AddF64, AddI64, SubF64, SubI64, MulF64, MulI64}" and c: "computes rt i env x"
    and o: "operands i = a # b # zs"
  shows "bounded (computeResultRange (opcode i) (getRange rs a) (getRange rs b)) \<and>
    covers (computeResultRange (opcode i) (getRange rs a) (getRange rs b)) x"
proof (cases "nr_kind (computeResultRange (opcode i) (getRange rs a) (getRange rs b)) = NRIntegerRange")
  case True
  have bd: "bounded (getRange rs a)" "bounded (getRange rs b)" using getRange_bounded [OF rs(1) lit] o by simp_all
  note comb = combined_in_range [OF bd True]
  have b: "opcode i \<in> binary_ops" using op by (elim insertE emptyE; simp add: binary_ops_def)
  obtain k l r where lr: "getOperandValue env a = Some l" "getOperandValue env b = Some r"
    "lower_binary rt k (opcode i) l r = Some x" by (rule computes_typed_binary [OF c b o])
  obtain m n where mn: "number_holds l m" "in_range (getRange rs a) m" "number_holds r n" "in_range (getRange rs b) n"
    using getRange_covers [OF rs(2) lr(1)] getRange_covers [OF rs(2) lr(2)] comb(1) unfolding covers_def by blast
  have res: "in_range (computeResultRange (opcode i) (getRange rs a) (getRange rs b)) (arith_int (opcode i) m n)"
    using comb(2) mn by blast
  have "number_holds x (arith_int (opcode i) m n)"
    by (rule arith_lowered [OF op mn(1,3) bounded_in_range [OF bd(1) conjunct1 [OF comb(1)] mn(2)]
          bounded_in_range [OF bd(2) conjunct1 [OF conjunct2 [OF comb(1)]] mn(4)]
          bounded_in_range [OF conjunct2 [OF conjunct2 [OF comb(1)]] True res] lr(3)])
  then show ?thesis using comb(1) res unfolding covers_def by blast
qed (simp add: bounded_def)

lemma transfer_neg:
  assumes rs: "bounded_ranges rs" "sound_for rs env" and lit: "safe_literals i"
    and op: "opcode i \<in> {NegF64, NegI64}" and c: "computes rt i env x" and o: "operands i = a # zs"
    and k: "nr_kind (getRange rs a) = NRIntegerRange"
  shows "covers (makeRange (- maxVal (getRange rs a)) (- minVal (getRange rs a))) x"
proof -
  have bd: "bounded (getRange rs a)" using getRange_bounded [OF rs(1) lit] o by simp
  have u: "opcode i \<in> unary_ops" using op by (auto simp: unary_ops_def)
  obtain l where l: "getOperandValue env a = Some l" "lower_unary rt (opcode i) l = Some x"
    by (rule computes_typed_unary [OF c u o])
  obtain m where m: "number_holds l m" "in_range (getRange rs a) m"
    using getRange_covers [OF rs(2) l(1)] k unfolding covers_def by blast
  have "number_holds x (- m)" by (rule neg_lowered [OF op m(1) bounded_in_range [OF bd k m(2)] l(2)])
  then show ?thesis using negated_range(4) [OF bd k m(2)] unfolding covers_def by blast
qed

lemma transfer_cast:
  assumes rs: "bounded_ranges rs" "sound_for rs env" and lit: "safe_literals i"
    and op: "opcode i = CastI64ToF64" and c: "computes rt i env x" and o: "operands i = a # zs"
  shows "covers (getRange rs a) x"
proof (cases "nr_kind (getRange rs a) = NRIntegerRange")
  case True
  have bd: "bounded (getRange rs a)" using getRange_bounded [OF rs(1) lit] o by simp
  have u: "opcode i \<in> unary_ops" using op by (auto simp: unary_ops_def)
  obtain l where l: "getOperandValue env a = Some l" "lower_unary rt (opcode i) l = Some x"
    by (rule computes_typed_unary [OF c u o])
  obtain m where m: "number_holds l m" "in_range (getRange rs a) m"
    using getRange_covers [OF rs(2) l(1)] True unfolding covers_def by blast
  have "number_holds x m"
    using l(2) m(1) f64_of_int_holds bounded_in_range [OF bd True m(2)] op
    by (cases l) (auto simp: lowerCastI64ToF64_def sitofp_def number_holds_def)
  then show ?thesis using m(2) unfolding covers_def by blast
qed simp

lemma transfer_class:
  "opcode i \<in> {AddF64, SubF64, MulF64, AddI64, SubI64, MulI64} \<Longrightarrow> transfer rs i =
     (case operands i of x # y # _ \<Rightarrow> computeResultRange (opcode i) (getRange rs x) (getRange rs y) | _ \<Rightarrow> makeUnknown)"
  "opcode i \<in> {DivF64, ModF64} \<Longrightarrow> transfer rs i = makeFloat"
  "opcode i = UShrI64 \<Longrightarrow> transfer rs i = makeRange 0 (word_of_int (2 ^ 32 - 1))"
  "opcode i \<in> {AndI64, OrI64, XorI64, ShlI64, ShrI64} \<Longrightarrow>
     transfer rs i = makeRange (word_of_int (- (2 ^ 31))) (word_of_int (2 ^ 31 - 1))"
  "opcode i = CastI64ToF64 \<Longrightarrow> transfer rs i =
     (case operands i of x # _ \<Rightarrow> if isSafeInteger (getRange rs x) then getRange rs x else makeFloat | [] \<Rightarrow> makeUnknown)"
  "opcode i = CastF64ToI64 \<Longrightarrow> transfer rs i = makeRange MIN_SAFE_INTEGER MAX_SAFE_INTEGER"
  "opcode i \<in> {BoxFloat, UnboxFloat, BoxInt, UnboxInt} \<Longrightarrow> transfer rs i =
     (case operands i of x # _ \<Rightarrow> getRange rs x | [] \<Rightarrow> makeUnknown)"
  "opcode i \<in> {NegF64, NegI64} \<Longrightarrow> transfer rs i =
     (case operands i of
        x # _ \<Rightarrow> (let src = getRange rs x
                  in if nr_kind src = NRIntegerRange then makeRange (- maxVal src) (- minVal src)
                     else if mustBeFloat src then makeFloat else makeUnknown)
      | [] \<Rightarrow> makeUnknown)"
  by (elim insertE emptyE | simp add: transfer_def split del: if_split)+

definition ranged_ops :: "hiropcode set" where
  "ranged_ops = {AddF64, SubF64, MulF64, AddI64, SubI64, MulI64} \<union> {DivF64, ModF64} \<union> {UShrI64} \<union>
     {AndI64, OrI64, XorI64, ShlI64, ShrI64} \<union> {CastI64ToF64} \<union> {NegF64, NegI64} \<union> unranged_ops"

lemma transfer_other: "opcode i \<notin> ranged_ops \<Longrightarrow> transfer rs i = makeUnknown"
  by (simp add: transfer_def ranged_ops_def unranged_ops_def)

lemma transfer_sound:
  assumes rs: "bounded_ranges rs" "sound_for rs env" and lit: "safe_literals i"
    and op: "opcode i \<notin> unranged_ops" and c: "computes rt i env x"
  shows "covers (transfer rs i) x"
proof -
  consider (arith) "opcode i \<in> {AddF64, SubF64, MulF64, AddI64, SubI64, MulI64}" | (float) "opcode i \<in> {DivF64, ModF64}"
    | (ushr) "opcode i = UShrI64" | (bits) "opcode i \<in> {AndI64, OrI64, XorI64, ShlI64, ShrI64}"
    | (cast) "opcode i = CastI64ToF64" | (neg) "opcode i \<in> {NegF64, NegI64}" | (other) "opcode i \<notin> ranged_ops"
    using op unfolding ranged_ops_def by blast
  then show ?thesis
  proof cases
    case arith
    then have o: "opcode i \<in> {AddF64, AddI64, SubF64, SubI64, MulF64, MulI64}" by blast
    show ?thesis
      unfolding transfer_class(1) [OF arith]
      using transfer_arith [OF rs lit o c] by (auto split: list.split)
  next
    case float
    then show ?thesis by (simp add: transfer_class(2))
  next
    case ushr
    then show ?thesis using ushr_range [OF _ c] by (simp add: transfer_class(3))
  next
    case bits
    show ?thesis unfolding transfer_class(4) [OF bits] by (rule bitwise_range [OF bits c])
  next
    case cast
    then show ?thesis
      unfolding transfer_class(5) [OF cast]
      using transfer_cast [OF rs lit cast c] by (auto split: list.split)
  next
    case neg
    then show ?thesis
      unfolding transfer_class(8) [OF neg]
      using transfer_neg [OF rs lit neg c] by (auto simp: Let_def split: list.split)
  next
    case other
    then show ?thesis by (simp add: transfer_other)
  qed
qed

lemma transfer_bounded:
  assumes rs: "bounded_ranges rs" and lit: "safe_literals i"
  shows "bounded (transfer rs i)"
proof -
  have s: "sint (word_of_int (2 ^ 32 - 1) :: i64) = 4294967295" "sint (word_of_int (- (2 ^ 31)) :: i64) = - 2147483648"
    "sint (word_of_int (2 ^ 31 - 1) :: i64) = 2147483647" by simp_all
  have g: "x \<in> set (operands i) \<Longrightarrow> bounded (getRange rs x)" for x using getRange_bounded [OF rs lit] .
  have b: "bounded (makeRange MIN_SAFE_INTEGER MAX_SAFE_INTEGER)"
    "bounded (makeRange 0 (word_of_int (2 ^ 32 - 1)))"
    "bounded (makeRange (word_of_int (- (2 ^ 31))) (word_of_int (2 ^ 31 - 1)))"
    by (simp_all only: bounded_def kind_simps s sint_consts) simp_all
  have r: "bounded (computeResultRange op l r)" if "bounded l" "bounded r" for op l r
    using combined_in_range(1) [OF that] by (cases "nr_kind (computeResultRange op l r) = NRIntegerRange") (auto simp: bounded_def)
  consider (arith) "opcode i \<in> {AddF64, SubF64, MulF64, AddI64, SubI64, MulI64}" | (float) "opcode i \<in> {DivF64, ModF64}"
    | (ushr) "opcode i = UShrI64" | (bits) "opcode i \<in> {AndI64, OrI64, XorI64, ShlI64, ShrI64}"
    | (cast) "opcode i = CastI64ToF64" | (neg) "opcode i \<in> {NegF64, NegI64}" | (trunc) "opcode i = CastF64ToI64"
    | (box) "opcode i \<in> {BoxFloat, UnboxFloat, BoxInt, UnboxInt}" | (other) "opcode i \<notin> ranged_ops"
    unfolding ranged_ops_def unranged_ops_def by blast
  then show ?thesis
  proof cases
    case arith
    show ?thesis unfolding transfer_class(1) [OF arith] using g r by (auto split: list.split)
  next
    case cast
    show ?thesis unfolding transfer_class(5) [OF cast] using g by (auto split: list.split)
  next
    case box
    show ?thesis unfolding transfer_class(7) [OF box] using g by (auto split: list.split)
  next
    case neg
    show ?thesis unfolding transfer_class(8) [OF neg] using g negated_range(3) by (auto simp: Let_def split: list.split)
  qed (use b in \<open>simp_all only: transfer_class transfer_other bounded_simps simp_thms\<close>)
qed

text \<open>Every range of the result is justified by the one definition of its value: a literal, or a
  transfer from ranges that are still in the result.\<close>

definition justified :: "hinst list \<Rightarrow> ranges \<Rightarrow> vref \<Rightarrow> NumericRange \<Rightarrow> bool" where
  "justified is rs v r \<longleftrightarrow> (\<exists>i\<in>set is. result i = Some v \<and>
     ((\<exists>d zs. opcode i = ConstFloat \<and> operands i = OFloat d # zs \<and>
         r = (if isExactInteger d then makeInteger (f64_to_i64 d) else makeFloat)) \<or>
      (\<exists>n zs. opcode i = ConstInt \<and> operands i = OInt n # zs \<and> r = makeInteger n) \<or>
      (\<exists>rs'. rs' \<subseteq>\<^sub>m rs \<and> bounded_ranges rs' \<and> r = transfer rs' i)))"

lemma detect_justified:
  assumes "ssa is" and "rs = fold (\<lambda>i rs. detect_step rs i) xs Map.empty" and "set xs \<subseteq> set is" and "rs v = Some r"
  shows "justified is rs' v r"
proof -
  have "\<forall>v r. fold (\<lambda>i rs. detect_step rs i) xs rs0 v = Some r \<longrightarrow> justified is rs' v r"
    if "\<forall>v r. rs0 v = Some r \<longrightarrow> justified is rs' v r" "set xs \<subseteq> set is" for rs0
    using that
  proof (induction xs arbitrary: rs0)
    case (Cons i xs)
    have "\<forall>v r. detect_step rs0 i v = Some r \<longrightarrow> justified is rs' v r"
    proof (intro allI impI)
      fix v r assume d: "detect_step rs0 i v = Some r"
      show "justified is rs' v r"
      proof (cases "rs0 v = Some r")
        case True
        then show ?thesis using Cons.prems by blast
      next
        case False
        then have "result i = Some v" and
          "(\<exists>d zs. opcode i = ConstFloat \<and> operands i = OFloat d # zs \<and>
             r = (if isExactInteger d then makeInteger (f64_to_i64 d) else makeFloat)) \<or>
           (\<exists>n zs. opcode i = ConstInt \<and> operands i = OInt n # zs \<and> r = makeInteger n)"
          using d by (auto simp: detect_step_def split: option.splits if_split_asm list.splits hoperand.splits)
        then show ?thesis using Cons.prems(2) unfolding justified_def by (intro bexI [of _ i]) (blast, simp)
      qed
    qed
    then show ?case using Cons.IH [of "detect_step rs0 i"] Cons.prems by simp
  qed simp
  from this [of Map.empty] show ?thesis using assms by simp
qed

lemma justified_mono: "justified is rs v r \<Longrightarrow> rs \<subseteq>\<^sub>m rs2 \<Longrightarrow> justified is rs2 v r"
  unfolding justified_def by (elim bexE conjE disjE) (blast intro: map_le_trans)+

lemma justified_bounded:
  assumes "justified is rs v r" and "\<forall>i\<in>set is. safe_literals i"
  shows "bounded r"
proof -
  obtain i where i: "i \<in> set is" "(\<exists>d zs. opcode i = ConstFloat \<and> operands i = OFloat d # zs \<and>
         r = (if isExactInteger d then makeInteger (f64_to_i64 d) else makeFloat)) \<or>
      (\<exists>n zs. opcode i = ConstInt \<and> operands i = OInt n # zs \<and> r = makeInteger n) \<or>
      (\<exists>rs'. rs' \<subseteq>\<^sub>m rs \<and> bounded_ranges rs' \<and> r = transfer rs' i)"
    using assms(1) unfolding justified_def by blast
  have lit: "safe_literals i" using assms(2) i(1) by blast
  from i(2) show ?thesis
    using lit bounded_integer exact_to_i64(2) transfer_bounded [OF _ lit]
    by (elim disjE exE conjE) (auto simp: safe_literals_def)
qed

definition analysis_ok :: "hinst list \<Rightarrow> ranges \<Rightarrow> bool" where
  "analysis_ok is rs \<longleftrightarrow> (\<forall>v r. rs v = Some r \<longrightarrow> justified is rs v r)"

lemma propagate_ok:
  assumes "analysis_ok is rs" and "\<forall>i\<in>set is. safe_literals i" and "i \<in> set is"
  shows "analysis_ok is (propagate_step rs i)"
proof -
  have bd: "bounded_ranges rs" using assms(1,2) justified_bounded unfolding analysis_ok_def bounded_ranges_def by blast
  show ?thesis
  proof (cases "propagate_step rs i = rs")
    case False
    then obtain v where v: "result i = Some v" "rs v = None" "propagate_step rs i = rs(v \<mapsto> transfer rs i)"
      by (auto simp: propagate_step_def Let_def split: option.splits if_splits)
    have le: "rs \<subseteq>\<^sub>m rs(v \<mapsto> transfer rs i)" using v(2) by (simp add: map_le_def dom_def)
    have "justified is (rs(v \<mapsto> transfer rs i)) v (transfer rs i)"
      using v(1) assms(3) le bd unfolding justified_def by blast
    then show ?thesis using assms(1) justified_mono [OF _ le] v(3) by (auto simp: analysis_ok_def)
  qed (use assms(1) in simp)
qed

lemma analysis_fn_ok:
  assumes "ssa (fn_insts fn)" and "\<forall>i\<in>set (fn_insts fn). safe_literals i"
  shows "analysis_ok (fn_insts fn) (propagateRanges fn (detectIntegerLiterals fn))"
proof -
  have "analysis_ok (fn_insts fn) (fold (\<lambda>i rs. propagate_step rs i) xs rs)"
    if "analysis_ok (fn_insts fn) rs" "set xs \<subseteq> set (fn_insts fn)" for xs rs
    using that propagate_ok [OF _ assms(2)] by (induction xs arbitrary: rs) auto
  moreover have "analysis_ok (fn_insts fn) (detectIntegerLiterals fn)"
    using detect_justified [OF assms(1) refl] unfolding analysis_ok_def detectIntegerLiterals_def by blast
  ultimately show ?thesis by (simp add: propagateRanges_def)
qed

lemma const_covered:
  assumes "computes rt i env x"
  shows "opcode i = ConstFloat \<Longrightarrow> operands i = OFloat d # zs \<Longrightarrow> x = RF64 d"
    and "opcode i = ConstInt \<Longrightarrow> operands i = OInt n # zs \<Longrightarrow> x = RI64 n"
  using assms by (auto simp: computes_const_iff const_ops_def const_loads_def lowerConstFloat_def
      lowerConstInt_def getOperandInt_def)

lemma justified_covers:
  assumes "justified is rs v r" and "ssa is" and "i \<in> set is" "result i = Some v"
    and "opcode i \<notin> unranged_ops" and "safe_literals i" and "sound_for rs env" and "computes rt i env x"
  shows "covers r x"
proof -
  have i: "(\<exists>d zs. opcode i = ConstFloat \<and> operands i = OFloat d # zs \<and>
         r = (if isExactInteger d then makeInteger (f64_to_i64 d) else makeFloat)) \<or>
      (\<exists>n zs. opcode i = ConstInt \<and> operands i = OInt n # zs \<and> r = makeInteger n) \<or>
      (\<exists>rs'. rs' \<subseteq>\<^sub>m rs \<and> bounded_ranges rs' \<and> r = transfer rs' i)"
    using assms(1-4) ssa_unique unfolding justified_def by metis
  from i show ?thesis
  proof (elim disjE exE conjE)
    fix d zs assume "opcode i = ConstFloat" "operands i = OFloat d # zs"
      "r = (if isExactInteger d then makeInteger (f64_to_i64 d) else makeFloat)"
    then show ?thesis using const_covered(1) [OF assms(8)] exact_to_i64(1)
      by (auto intro: covers_integer simp: number_holds_def)
  next
    fix n zs assume "opcode i = ConstInt" "operands i = OInt n # zs" "r = makeInteger n"
    then show ?thesis using const_covered(2) [OF assms(8)] by (auto intro: covers_integer simp: number_holds_def)
  next
    fix rs' assume rs': "rs' \<subseteq>\<^sub>m rs" "bounded_ranges rs'" "r = transfer rs' i"
    have "sound_for rs' env"
      using rs'(1) assms(7) unfolding sound_for_def map_le_def by (metis domI)
    from transfer_sound [OF rs'(2) this assms(6,5,8)] show ?thesis unfolding rs'(3) .
  qed
qed

lemma reach_covered:
  assumes r: "reach rt (fn_insts fn) env" and ssa: "ssa (fn_insts fn)"
    and ops: "\<forall>i\<in>set (fn_insts fn). opcode i \<notin> unranged_ops \<and> safe_literals i"
  shows "sound_for (propagateRanges fn (detectIntegerLiterals fn)) env"
  using r
proof (induction rule: reach.induct)
  case (reach_init env)
  have ok: "analysis_ok (fn_insts fn) (propagateRanges fn (detectIntegerLiterals fn))"
    using analysis_fn_ok [OF ssa] ops by blast
  then show ?case
    using reach_init unfolding sound_for_def analysis_ok_def justified_def by (metis in_results option.distinct(1))
next
  case (reach_step env i x)
  let ?rs = "propagateRanges fn (detectIntegerLiterals fn)"
  have ok: "analysis_ok (fn_insts fn) ?rs" using analysis_fn_ok [OF ssa] ops by blast
  show ?case
    unfolding sound_for_def
  proof (intro allI impI)
    fix v r y assume v: "?rs v = Some r" "setValue env (result i) x v = Some y"
    show "covers r y"
    proof (cases "result i = Some v")
      case True
      then have "y = x" using v(2) by simp
      then show ?thesis
        using justified_covers [OF _ ssa reach_step.hyps(2) True _ _ reach_step.IH reach_step.hyps(3)] ok v(1) ops reach_step.hyps(2)
        unfolding analysis_ok_def by blast
    next
      case False
      then have "env v = Some y" using v(2) by (auto simp: setValue_def split: option.splits if_splits)
      then show ?thesis using reach_step.IH v(1) unfolding sound_for_def by blast
    qed
  qed
qed

section \<open>The conversion\<close>

text \<open>What the pass may do to an instruction: turn an unused-as-double float literal into the
  integer literal it holds, or turn an operation on literals only into its integer form.\<close>

definition io_related :: "vref set \<Rightarrow> hinst \<Rightarrow> hinst \<Rightarrow> bool" where
  "io_related F i j \<longleftrightarrow> j = i \<or>
     (\<exists>v d n zs. opcode i = ConstFloat \<and> result i = Some v \<and> v \<notin> F \<and> operands i = OFloat d # zs \<and>
        opcode j = ConstInt \<and> operands j = [OInt n] \<and> result j = Some v \<and> iaddr j = iaddr i \<and>
        f64_holds d (sint n) \<and> \<bar>sint n\<bar> \<le> 9007199254740991) \<or>
     (opcode i \<in> {AddF64, SubF64, MulF64} \<and> list_all (\<lambda>x. op_val x = None) (operands i) \<and>
        opcode j = getInt64Opcode (opcode i) \<and> operands j = operands i \<and> result j = result i \<and> iaddr j = iaddr i)"

lemma used_operands:
  assumes "i \<in> set is" and "requiresF64 i"
  shows "operandsAreI64 (usedInF64Ops is) i \<longleftrightarrow> list_all (\<lambda>x. op_val x = None) (operands i)"
proof -
  have "v \<in> usedInF64Ops is" if "x \<in> set (operands i)" "op_val x = Some v" for x v
    using assms that unfolding usedInF64Ops_def by (force simp: List.map_filter_def)
  then show ?thesis by (fastforce simp: operandsAreI64_def list_all_iff split: option.splits)
qed

lemma convert_related:
  assumes "i \<in> set is" and "convert_inst rs (usedInF64Ops is) st i = Some (j, st')"
  shows "io_related (usedInF64Ops is) i j"
proof (cases "opcode i \<in> {AddF64, SubF64, MulF64}")
  case True
  have req: "requiresF64 i" using True by (auto simp: requiresF64_def)
  have "operandsAreI64 (usedInF64Ops is) i \<and> convertToInt64 st i = Some (j, st')"
    using True assms(2) by (auto simp: convert_inst_def split: option.splits if_split_asm list.splits)
  then show ?thesis
    using True used_operands [OF assms(1) req] by (auto simp: io_related_def convertToInt64_def Let_def split: if_split_asm)
next
  case False
  then show ?thesis
    using assms(2) exact_to_i64
    by (auto simp: convert_inst_def io_related_def split: option.splits if_split_asm list.splits hoperand.splits)
qed

lemma io_shape:
  "case io_runOnFunction m fn st of (r, fn', st') \<Rightarrow>
     success r \<and> (changed r \<or> fn' = fn \<and> st' = st) \<and> fn_rel (io_related (usedInF64Ops (fn_insts fn))) fn fn'"
proof -
  let ?rs = "propagateRanges fn (detectIntegerLiterals fn)" and ?F = "usedInF64Ops (fn_insts fn)"
  let ?w = "walk_fn (convert_step ?rs ?F) (st, False) fn"
  have "True \<and> fn_rel (io_related ?F) fn (snd ?w)"
  proof (rule walk_fn_rel [of "\<lambda>_. True"])
    fix s i
    assume "i \<in> set (fn_insts fn)"
    then show "True \<and> io_related ?F i (snd (convert_step ?rs ?F s i))"
      using convert_related by (auto simp: convert_step_def io_related_def [of _ i i] split: option.split)
  qed simp
  moreover have "snd (fst ?w) \<or> snd ?w = fn \<and> fst (fst ?w) = st"
  proof -
    have "snd (convert_step ?rs ?F s x) = x \<and> \<not> snd s \<and> fst (fst (convert_step ?rs ?F s x)) = fst s"
      if "\<not> snd (fst (convert_step ?rs ?F s x))" for s x
      using that by (auto simp: convert_step_def split: option.splits)
    from walk_fn_flag [of snd "convert_step ?rs ?F" fst "(st, False)" fn, OF this] show ?thesis by auto
  qed
  ultimately show ?thesis
    by (auto simp: io_runOnFunction_def convertSafeOperations_def Let_def split: prod.splits)
qed

interpretation integer_optimization: honest_pass io_runOnFunction
proof
  fix m fn st
  show "success (fst (io_runOnFunction m fn st))"
    and "changed (fst (io_runOnFunction m fn st)) \<or> snd (io_runOnFunction m fn st) = (fn, st)"
    and "fn_name (fst (snd (io_runOnFunction m fn st))) = fn_name fn"
    using io_shape [where m = m and fn = fn and st = st] by (auto dest: fn_rel_name split: prod.splits)
qed

section \<open>Properties\<close>


definition io_example :: hfunction where
  "io_example =
     (let inst = (\<lambda>op a ops. (mk_inst op a)\<lparr>result := Some a, operands := ops\<rparr>)
      in \<lparr>fn_name = ''f'', mangledName = ''f'', fn_returnType = None, fn_params = [],
         blocks = [\<lparr>baddr = 0, blk_label = [], blk_params = [],
           instructions = [inst ConstInt 0 [OInt 5], inst MulI64 1 [OVal (Some 0), OInt 3],
             inst OrI64 2 [OVal (Some 1), OInt 0]],
           predecessors = [], successors = []\<rparr>],
         captures = [], isAsync = False, isGenerator = False, nextValueId = 3\<rparr>)"

lemma io_example_insts:
  "fn_insts io_example = [(mk_inst ConstInt 0)\<lparr>result := Some 0, operands := [OInt 5]\<rparr>,
     (mk_inst MulI64 1)\<lparr>result := Some 1, operands := [OVal (Some 0), OInt 3]\<rparr>,
     (mk_inst OrI64 2)\<lparr>result := Some 2, operands := [OVal (Some 1), OInt 0]\<rparr>]"
  by (simp add: io_example_def fn_insts_def)

lemma coerce_RI64: "coerceToI64Operand (RI64 a) = a"
  by (simp add: coerceToI64Operand_def)

lemma io_example_facts:
  "ssa (fn_insts io_example)" "\<forall>i\<in>set (fn_insts io_example). opcode i \<notin> unranged_ops \<and> safe_literals i"
  "reach rt (fn_insts io_example) [0 \<mapsto> RI64 5, 1 \<mapsto> RI64 15]"
  "propagateRanges io_example (detectIntegerLiterals io_example) 1 = Some (makeRange 15 15)"
proof -
  let ?is = "fn_insts io_example"
  show "ssa ?is" "\<forall>i\<in>set ?is. opcode i \<notin> unranged_ops \<and> safe_literals i"
    by (simp_all add: io_example_insts ssa_def unranged_ops_def safe_literals_def)
  have "reach rt ?is Map.empty" by (rule reach_init) simp
  moreover have "computes rt (?is ! 0) Map.empty (RI64 5)"
    by (simp add: io_example_insts computes_const_iff const_ops_def const_loads_def lowerConstInt_def getOperandInt_def)
  ultimately have "reach rt ?is [0 \<mapsto> RI64 5]"
    using reach_step [of rt ?is Map.empty "?is ! 0" "RI64 5"] by (simp add: io_example_insts)
  moreover have "computes rt (?is ! 1) [0 \<mapsto> RI64 5] (RI64 15)"
    by (rule computes_binary [where x = "OVal (Some 0)" and y = "OInt 3" and zs = "[]" and l = "RI64 5" and r = "RI64 3"])
      (simp_all add: io_example_insts binary_ops_def getOperandValue_def lowerMulI64_def coerce_RI64)
  ultimately show "reach rt ?is [0 \<mapsto> RI64 5, 1 \<mapsto> RI64 15]"
    using reach_step [of rt ?is "[0 \<mapsto> RI64 5]" "?is ! 1" "RI64 15"] by (simp add: io_example_insts)
  show "propagateRanges io_example (detectIntegerLiterals io_example) 1 = Some (makeRange 15 15)"
    by (simp add: propagateRanges_def detectIntegerLiterals_def io_example_insts detect_step_def propagate_step_def
        transfer_def getRange_def getValueRange_def computeResultRange_def rangeKnown_def mustBeFloat_def Let_def
        combineMul_def wouldOverflowI64Mul_def couldBeZero_def smin_def smax_def makeRange_def makeInteger_def)
qed


text \<open>
  The pass converts only what is safe to convert: it never fails and reports honestly; a
  float literal becomes an integer literal only when its value holds exactly that safe integer
  and no opcode that needs a double uses it; and an operation is converted only when all its
  operands are literals. Everything else stays as it is, in place.
\<close>

theorem integer_optimization_shape:
  "case io_runOnFunction m fn st of (r, fn', st') \<Rightarrow>
     success r \<and> (changed r \<or> fn' = fn \<and> st' = st) \<and>
     fn_rel (\<lambda>i j. j = i \<or>
       (\<exists>v d n zs. opcode i = ConstFloat \<and> result i = Some v \<and> v \<notin> usedInF64Ops (fn_insts fn) \<and>
          operands i = OFloat d # zs \<and> opcode j = ConstInt \<and> operands j = [OInt n] \<and> result j = Some v \<and>
          iaddr j = iaddr i \<and> f64_holds d (sint n) \<and> \<bar>sint n\<bar> \<le> 9007199254740991) \<or>
       (opcode i \<in> {AddF64, SubF64, MulF64} \<and> list_all (\<lambda>x. op_val x = None) (operands i) \<and>
          opcode j = getInt64Opcode (opcode i) \<and> operands j = operands i \<and> result j = result i \<and> iaddr j = iaddr i)) fn fn'"
  using io_shape [where m = m and fn = fn and st = st] unfolding io_related_def .


lemma exact_holds: "f64_holds d i \<Longrightarrow> \<bar>i\<bar> \<le> 9007199254740991 \<Longrightarrow> isExactInteger d \<and> sint (f64_to_i64 d) = i"
proof -
  assume d: "f64_holds d i" "\<bar>i\<bar> \<le> 9007199254740991"
  then have e: "isExactInteger d" using isExactInteger_iff by blast
  then show "isExactInteger d \<and> sint (f64_to_i64 d) = i" using exact_to_i64(1) f64_holds_inj [OF d(1)] by metis
qed


text \<open>
  The multiplication guard is exact: \<open>wouldOverflowI64Mul\<close> says no just when the product of
  the two bounds fits 64 bits.
\<close>

theorem mul_overflow_test_exact:
  "wouldOverflowI64Mul a b = (\<not> fits_i64 (sint a * sint b))"
  by (rule wouldOverflow_exact)

text \<open>
  Negative zero slips through: the literal -0 counts as an exact integer and becomes the
  integer 0, and the range of the negation of a literal 0 is a safe integer range without the
  negative-zero mark, although the result is -0.
\<close>

theorem negative_zero_missed:
  "isExactInteger (f64_neg f64_zero) \<and> f64_to_i64 (f64_neg f64_zero) = 0 \<and>
   (let r = transfer Map.empty ((mk_inst NegF64 0)\<lparr>operands := [OFloat f64_zero]\<rparr>)
    in isSafeInteger r \<and> \<not> mayBeNegativeZero r) \<and>
   lower_unary rt NegF64 (RF64 f64_zero) = Some (RF64 (f64_neg f64_zero)) \<and> f64_neg f64_zero \<noteq> f64_zero"
proof -
  have z: "f64_holds f64_zero 0"
    by (simp add: f64_holds_def f64_isfinite_def f64_units_def f64_zero_def f64_mag_def inf_mag_def mag_units_def)
  then have n: "f64_holds (f64_neg f64_zero) 0" using f64_neg_holds [OF z] by simp
  have s: "sint (f64_to_i64 (f64_neg f64_zero)) = 0" "sint (f64_to_i64 f64_zero) = 0"
    and x: "isExactInteger (f64_neg f64_zero)" "isExactInteger f64_zero"
    using exact_holds [OF z] exact_holds [OF n] by simp_all
  have w: "f64_to_i64 (f64_neg f64_zero) = 0" "f64_to_i64 f64_zero = 0"
    using s sint_eq_iff [of "f64_to_i64 (f64_neg f64_zero)" 0] sint_eq_iff [of "f64_to_i64 f64_zero" 0] by simp_all
  have "f64_neg f64_zero \<noteq> f64_zero" by (metis f64_neg_sign_neg)
  then show ?thesis
    using x w by (simp add: transfer_def getRange_def Let_def isSafeInteger_def makeRange_def makeInteger_def
        lowerNegF64_def coerce_f64_def)
qed

end
