(* ===== verification/TypePropagation.thy ===== *)
theory TypePropagation
  imports Execution PassContract
begin

text \<open>
  Type propagation, \<open>src/src/compiler/hir/passes/TypePropagationPass.cpp\<close>: sweeps over the
  function that write inferred types into the shared result values, until a sweep changes
  nothing or 100 sweeps were made, with the join of types at phis and selects and the narrowing
  of types by conditional branches. Logging has no counterpart.
\<close>

section \<open>Types\<close>

definition joined_elements :: "(htype \<Rightarrow> htype \<Rightarrow> htype) \<Rightarrow> htype option \<Rightarrow> htype option \<Rightarrow> htype option" where
  "joined_elements join a b =
     (case a of None \<Rightarrow> b | Some x \<Rightarrow> (case b of None \<Rightarrow> a | Some y \<Rightarrow> Some (join x y)))"

lemma joined_elements_cong [fundef_cong]:
  assumes "a = a'" "b = b'" "\<And>x y. a' = Some x \<Longrightarrow> b' = Some y \<Longrightarrow> join x y = join' x y"
  shows "joined_elements join a b = joined_elements join' a' b'"
  using assms by (simp add: joined_elements_def split: option.split)

fun joinTypes :: "htype \<Rightarrow> htype \<Rightarrow> htype" where
  "joinTypes (HIRType k e c s ps r ty nb nu) b =
     (let a = HIRType k e c s ps r ty nb nu
      in if k = kind b then
           (if k = KArray then makeArray (joined_elements joinTypes e (elementType b)) (ty \<and> isTypedArray b)
            else if k = KClass then (if c = className b then a else mkType KObject)
            else a)
         else if (k = KInt64 \<or> k = KFloat64) \<and> (kind b = KInt64 \<or> kind b = KFloat64) then mkType KFloat64
         else if (k = KObject \<and> kind b = KClass) \<or> (k = KClass \<and> kind b = KObject) then mkType KObject
         else mkType KAny)"

text \<open>On pointers: a null type gives the other one.\<close>

definition join_opt :: "htype option \<Rightarrow> htype option \<Rightarrow> htype option" where
  "join_opt = joined_elements joinTypes"

fun typesCompatible :: "htype \<Rightarrow> htype \<Rightarrow> bool" where
  "typesCompatible (HIRType k e c s ps r ty nb nu) b \<longleftrightarrow>
     (if k \<noteq> kind b then False
      else if k = KArray then
        (case e of
           None \<Rightarrow> elementType b = None
         | Some x \<Rightarrow> (case elementType b of None \<Rightarrow> False | Some y \<Rightarrow> typesCompatible x y))
      else if k = KClass then c = className b
      else True)"

definition compatible_opt :: "htype option \<Rightarrow> htype option \<Rightarrow> bool" where
  "compatible_opt a b \<longleftrightarrow>
     (case a of None \<Rightarrow> False | Some x \<Rightarrow> (case b of None \<Rightarrow> False | Some y \<Rightarrow> typesCompatible x y))"

section \<open>Inference\<close>

definition int64_results :: "hiropcode set" where
  "int64_results = {ConstInt, AddI64, SubI64, MulI64, DivI64, ModI64, NegI64, AndI64, OrI64, XorI64, ShlI64,
     ShrI64, UShrI64, NotI64, CastF64ToI64, CastBoolToI64, UnboxInt, ArrayLength, ArrayPush}"

definition float64_results :: "hiropcode set" where
  "float64_results = {ConstFloat, AddF64, SubF64, MulF64, DivF64, ModF64, NegF64, CastI64ToF64, UnboxFloat}"

definition bool_results :: "hiropcode set" where
  "bool_results = {ConstBool, CmpEqI64, CmpNeI64, CmpLtI64, CmpLeI64, CmpGtI64, CmpGeI64, CmpEqF64, CmpNeF64,
     CmpLtF64, CmpLeF64, CmpGtF64, CmpGeF64, CmpEqPtr, CmpNePtr, LogicalAnd, LogicalOr, LogicalNot, TypeCheck,
     InstanceOf, UnboxBool, HasProp, DeleteProp, SetupTry}"

definition string_results :: "hiropcode set" where
  "string_results = {ConstString, StringConcat, UnboxString, TypeOf}"

definition any_results :: "hiropcode set" where
  "any_results = {ConstNull, ConstUndefined, BoxInt, BoxFloat, BoxBool, BoxString, BoxObject, GetException}"

definition object_results :: "hiropcode set" where
  "object_results = {UnboxObject, NewObject, NewObjectDynamic}"

definition ptr_results :: "hiropcode set" where
  "ptr_results = {Alloca, GetElementPtr, MakeClosure, GCAlloc, GCAllocArray, LoadFunction}"

text \<open>The opcodes whose emission-time type is kept.\<close>

definition kept_results :: "hiropcode set" where
  "kept_results = {GetPropStatic, GetPropDynamic, CallMethod, CallVirtual, CallIndirect, LoadGlobal}"

definition kept_type :: "hstore \<Rightarrow> hinst \<Rightarrow> htype option" where
  "kept_type st i = (case result i of None \<Rightarrow> Some (mkType KAny) | Some v \<Rightarrow> type_of st v)"

definition operand_type :: "hinst \<Rightarrow> htype option" where
  "operand_type i = (case operands i of [] \<Rightarrow> None | x # _ \<Rightarrow> op_type x)"

definition element_type :: "hstore \<Rightarrow> hinst \<Rightarrow> htype option" where
  "element_type st i =
     (case operands i of
        x # _ \<Rightarrow>
          (case op_val x of
             None \<Rightarrow> None
           | Some arr \<Rightarrow>
               (case type_of st arr of
                  None \<Rightarrow> None | Some t \<Rightarrow> (if kind t = KArray then elementType t else None)))
      | [] \<Rightarrow> None)"

definition callee_type :: "hmodule \<Rightarrow> hinst \<Rightarrow> htype option" where
  "callee_type m i =
     (case operands i of
        x # _ \<Rightarrow>
          (case op_str x of
             None \<Rightarrow> None
           | Some nm \<Rightarrow>
               (case getFunction m nm of
                  None \<Rightarrow> None
                | Some callee \<Rightarrow>
                    (case fn_returnType callee of
                       None \<Rightarrow> None | Some t \<Rightarrow> (if kind t \<noteq> KAny then Some t else None))))
      | [] \<Rightarrow> None)"

definition select_type :: "hstore \<Rightarrow> hinst \<Rightarrow> htype option" where
  "select_type st i =
     (case operands i of
        _ # x # y # _ \<Rightarrow>
          (case op_val x of
             None \<Rightarrow> None
           | Some t \<Rightarrow> (case op_val y of None \<Rightarrow> None | Some f \<Rightarrow> join_opt (type_of st t) (type_of st f)))
      | _ \<Rightarrow> None)"

definition copy_type :: "hstore \<Rightarrow> hinst \<Rightarrow> htype option" where
  "copy_type st i =
     (case operands i of
        x # _ \<Rightarrow> (case op_val x of None \<Rightarrow> None | Some v \<Rightarrow> type_of st v)
      | [] \<Rightarrow> None)"

definition inferResultType :: "hmodule \<Rightarrow> hstore \<Rightarrow> hinst \<Rightarrow> htype option" where
  "inferResultType m st i =
     (let op = opcode i
      in if op \<in> int64_results then Some (mkType KInt64)
         else if op \<in> float64_results then Some (mkType KFloat64)
         else if op \<in> bool_results then Some (mkType KBool)
         else if op \<in> string_results then Some (mkType KString)
         else if op \<in> any_results then Some (mkType KAny)
         else if op \<in> object_results then Some (mkType KObject)
         else if op \<in> ptr_results then Some (mkType KPtr)
         else if op \<in> kept_results then kept_type st i
         else if op = Load then operand_type i
         else if op = NewArrayBoxed then Some (makeArray (Some (mkType KAny)) False)
         else if op = NewArrayTyped then
           (case operand_type i of
              None \<Rightarrow> Some (makeArray (Some (mkType KAny)) False)
            | Some t \<Rightarrow> Some (makeArray (Some t) True))
         else if op = GetElem then
           (case element_type st i of None \<Rightarrow> Some (mkType KAny) | Some t \<Rightarrow> Some t)
         else if op = LoadCapture then None
         else if op = Select then select_type st i
         else if op = Copy then copy_type st i
         else if op = Call then
           (case callee_type m i of None \<Rightarrow> kept_type st i | Some t \<Rightarrow> Some t)
         else None)"

section \<open>Narrowing and phis\<close>

type_synonym narrowing = "bref \<Rightarrow> vref \<Rightarrow> htype option"

record type_guard =
  guard_value :: vref
  guard_type :: htype
  isNegation :: bool

definition extractTypeGuard :: "hinst option \<Rightarrow> type_guard option" where
  "extractTypeGuard condInst =
     (case condInst of
        None \<Rightarrow> None
      | Some i \<Rightarrow>
          if opcode i = TypeCheck \<and> length (operands i) \<ge> 2 then
            (case (op_val (operands i ! 0), op_type (operands i ! 1)) of
               (Some v, Some t) \<Rightarrow> Some \<lparr>guard_value = v, guard_type = t, isNegation = False\<rparr>
             | _ \<Rightarrow> None)
          else if opcode i = InstanceOf \<and> length (operands i) \<ge> 2 then
            (case (op_val (operands i ! 0), op_val (operands i ! 1)) of
               (Some v, Some c) \<Rightarrow> Some \<lparr>guard_value = v, guard_type = mkType KObject, isNegation = False\<rparr>
             | _ \<Rightarrow> None)
          else None)"

definition narrow :: "bref \<Rightarrow> vref \<Rightarrow> htype \<Rightarrow> narrowing \<Rightarrow> narrowing" where
  "narrow b v t nt = nt(b := (nt b)(v \<mapsto> t))"

text \<open>The defining instruction of the condition is not searched for: \<open>condDef\<close> stays null.\<close>

definition applyTypeNarrowing :: "hinst \<Rightarrow> bref \<Rightarrow> bref \<Rightarrow> narrowing \<Rightarrow> narrowing" where
  "applyTypeNarrowing condBr trueBB falseBB nt =
     (if operands condBr = [] then nt
      else case op_val (operands condBr ! 0) of
             None \<Rightarrow> nt
           | Some condValue \<Rightarrow>
               let condDef = None
               in case extractTypeGuard condDef of
                    None \<Rightarrow> nt
                  | Some g \<Rightarrow>
                      if \<not> isNegation g then narrow trueBB (guard_value g) (guard_type g) nt
                      else narrow falseBB (guard_value g) (guard_type g) nt)"

definition getEffectiveType :: "narrowing \<Rightarrow> hstore \<Rightarrow> vref \<Rightarrow> bref option \<Rightarrow> htype option" where
  "getEffectiveType nt st v b =
     (case b of
        None \<Rightarrow> type_of st v
      | Some blk \<Rightarrow> (case nt blk v of Some t \<Rightarrow> Some t | None \<Rightarrow> type_of st v))"

fun merge_entries ::
  "narrowing \<Rightarrow> hstore \<Rightarrow> (vref option \<times> bref option) list \<Rightarrow> htype option \<Rightarrow> htype option" where
  "merge_entries nt st [] merged = (case merged of None \<Rightarrow> Some (mkType KAny) | Some t \<Rightarrow> Some t)"
| "merge_entries nt st ((val, b) # ps) merged =
     (case val of
        None \<Rightarrow> Some (mkType KAny)
      | Some v \<Rightarrow>
          (if type_of st v = None then Some (mkType KAny)
           else let eff = getEffectiveType nt st v b
                in merge_entries nt st ps (if merged = None then eff else join_opt merged eff)))"

definition mergePhiTypes :: "narrowing \<Rightarrow> hstore \<Rightarrow> hinst \<Rightarrow> htype option" where
  "mergePhiTypes nt st phi =
     (if phiIncoming phi = [] then Some (mkType KAny) else merge_entries nt st (phiIncoming phi) None)"

section \<open>The pass\<close>

definition should_update :: "htype option \<Rightarrow> htype \<Rightarrow> bool" where
  "should_update old t \<longleftrightarrow>
     (case old of
        None \<Rightarrow> True
      | Some o' \<Rightarrow>
          if kind o' = KAny \<and> kind t \<noteq> KAny then True
          else if \<not> typesCompatible o' t then True
          else False)"

definition propagate_inst :: "hmodule \<Rightarrow> narrowing \<Rightarrow> hinst \<Rightarrow> hstore \<times> bool \<Rightarrow> hstore \<times> bool" where
  "propagate_inst m nt i s =
     (let (st, ch) = s
      in case result i of
           None \<Rightarrow> s
         | Some v \<Rightarrow>
             if opcode i = Phi then
               (case mergePhiTypes nt st i of
                  None \<Rightarrow> s
                | Some t \<Rightarrow>
                    if type_of st v = None \<or> \<not> compatible_opt (type_of st v) (Some t)
                    then (set_type v (Some t) st, True) else s)
             else
               (case inferResultType m st i of
                  None \<Rightarrow> s
                | Some t \<Rightarrow> if should_update (type_of st v) t then (set_type v (Some t) st, True) else s))"

definition narrow_block :: "hblock \<Rightarrow> narrowing \<Rightarrow> narrowing" where
  "narrow_block b nt =
     (case getTerminator b of
        None \<Rightarrow> nt
      | Some term \<Rightarrow>
          if opcode term = CondBranch \<and> length (operands term) \<ge> 3 then
            (case (operands term ! 1, operands term ! 2) of
               (OBlock (Some t), OBlock (Some f)) \<Rightarrow> applyTypeNarrowing term t f nt
             | _ \<Rightarrow> nt)
          else nt)"

definition propagate_block ::
  "hmodule \<Rightarrow> hblock \<Rightarrow> narrowing \<times> hstore \<times> bool \<Rightarrow> narrowing \<times> hstore \<times> bool" where
  "propagate_block m b s =
     (let (nt, sc) = s in (narrow_block b nt, fold (propagate_inst m nt) (instructions b) sc))"

definition propagateTypes ::
  "hmodule \<Rightarrow> hfunction \<Rightarrow> narrowing \<times> hstore \<Rightarrow> bool \<times> narrowing \<times> hstore" where
  "propagateTypes m fn s =
     (let (nt, st) = s; (nt', st', ch) = fold (propagate_block m) (blocks fn) (nt, st, False)
      in (ch, nt', st'))"

text \<open>The loop, with the sweeps that are left; the flag says that a sweep changed something.\<close>

fun propagate_loop ::
  "hmodule \<Rightarrow> hfunction \<Rightarrow> nat \<Rightarrow> bool \<Rightarrow> narrowing \<times> hstore \<Rightarrow> bool \<times> hstore" where
  "propagate_loop m fn 0 ch s = (ch, snd s)"
| "propagate_loop m fn (Suc n) ch s =
     (let (iterChanged, s') = propagateTypes m fn s
      in if \<not> iterChanged then (ch, snd s') else propagate_loop m fn n True s')"

definition maxIterations :: nat where
  "maxIterations = 100"

definition tp_runOnFunction :: function_pass where
  "tp_runOnFunction m fn st =
     (let (ch, st') = propagate_loop m fn maxIterations False (\<lambda>_ _. None, st) in (result_of ch, fn, st'))"

section \<open>The contract\<close>

text \<open>The narrowing never takes place.\<close>

lemma no_narrowing: "applyTypeNarrowing condBr t f nt = nt" "narrow_block b nt = nt"
proof -
  show *: "applyTypeNarrowing condBr t f nt = nt" for condBr t f
    by (simp add: applyTypeNarrowing_def extractTypeGuard_def split: option.split)
  show "narrow_block b nt = nt"
    by (simp add: narrow_block_def * split: option.split hoperand.split)
qed

lemma propagate_inst_flag: "\<not> snd (propagate_inst m nt i s) \<Longrightarrow> propagate_inst m nt i s = s"
  by (auto simp: propagate_inst_def split: prod.splits option.splits if_splits)

lemma fold_flag:
  assumes "\<And>x s. \<not> c (f x s) \<Longrightarrow> f x s = s" and "\<not> c (fold f xs s)"
  shows "fold f xs s = s"
  using assms(2) by (induction xs arbitrary: s) (simp_all add: assms(1), metis assms(1))

lemma propagateTypes_flag: "\<not> fst (propagateTypes m fn s) \<Longrightarrow> snd (propagateTypes m fn s) = s"
proof -
  assume n: "\<not> fst (propagateTypes m fn s)"
  have b: "propagate_block m b s = s" if "\<not> snd (snd (propagate_block m b s))" for b s
    using that fold_flag [of snd "propagate_inst m (fst s)" "instructions b" "snd s", OF propagate_inst_flag]
    by (auto simp: propagate_block_def no_narrowing split: prod.splits)
  have "\<not> (snd (snd (fold (propagate_block m) (blocks fn) (fst s, snd s, False))))"
    using n by (simp add: propagateTypes_def split: prod.splits)
  from fold_flag [of "\<lambda>s. snd (snd s)" "propagate_block m", OF b this] show ?thesis
    by (cases s) (simp add: propagateTypes_def)
qed

lemma propagate_loop_flag:
  "\<not> fst (propagate_loop m fn n ch s) \<Longrightarrow> \<not> ch \<and> snd (propagate_loop m fn n ch s) = snd s"
proof (induction n arbitrary: ch s)
  case (Suc n)
  obtain c s' where p: "propagateTypes m fn s = (c, s')" by (cases "propagateTypes m fn s")
  show ?case
  proof (cases c)
    case True
    then show ?thesis using Suc.IH [of True s'] Suc.prems p by simp
  next
    case False
    then show ?thesis using propagateTypes_flag [of m fn s] Suc.prems p by simp
  qed
qed simp

lemma tp_contract:
  "success (fst (tp_runOnFunction m fn st))" "fst (snd (tp_runOnFunction m fn st)) = fn"
  "changed (fst (tp_runOnFunction m fn st)) \<or> snd (tp_runOnFunction m fn st) = (fn, st)"
  using propagate_loop_flag [of m fn maxIterations False "(\<lambda>_ _. None, st)"]
  by (simp_all add: tp_runOnFunction_def case_prod_beta) blast

interpretation type_propagation: honest_pass tp_runOnFunction
  by unfold_locales (use tp_contract in simp_all)

section \<open>Types of computed values\<close>

definition fixed_kind :: "hiropcode \<Rightarrow> htkind option" where
  "fixed_kind op =
     (if op \<in> int64_results then Some KInt64 else if op \<in> float64_results then Some KFloat64
      else if op \<in> bool_results then Some KBool else if op \<in> string_results then Some KString
      else if op \<in> any_results then Some KAny else None)"

lemma fixed_kind_infers:
  assumes "fixed_kind (opcode i) = Some k"
  shows "inferResultType m st i = Some (mkType k)"
proof -
  consider "opcode i \<in> int64_results" | "opcode i \<notin> int64_results" "opcode i \<in> float64_results"
    | "opcode i \<notin> int64_results" "opcode i \<notin> float64_results" "opcode i \<in> bool_results"
    | "opcode i \<notin> int64_results" "opcode i \<notin> float64_results" "opcode i \<notin> bool_results" "opcode i \<in> string_results"
    | "opcode i \<notin> int64_results" "opcode i \<notin> float64_results" "opcode i \<notin> bool_results"
      "opcode i \<notin> string_results" "opcode i \<in> any_results"
    using assms unfolding fixed_kind_def by (meson option.distinct(1))
  then show ?thesis
    by cases (use assms in \<open>simp_all add: fixed_kind_def inferResultType_def\<close>)
qed

lemma fixed_kind_not_phi: "fixed_kind op = Some k \<Longrightarrow> op \<noteq> Phi"
  by (auto simp: fixed_kind_def int64_results_def float64_results_def bool_results_def string_results_def any_results_def)

lemma compatible_kind: "typesCompatible a b \<Longrightarrow> kind a = kind b"
  by (cases a) (auto split: if_splits)

text \<open>A sweep leaves the result of such an instruction with the kind inferred, and nothing else
  writes the type of that value.\<close>

lemma propagate_inst_settles:
  assumes "result i = Some v" "fixed_kind (opcode i) = Some k"
  shows "map_option kind (type_of (fst (propagate_inst m nt i s)) v) = Some k"
proof -
  obtain st ch where s: "s = (st, ch)" by (cases s)
  show ?thesis
    using assms fixed_kind_infers [OF assms(2)] fixed_kind_not_phi [OF assms(2)]
    by (auto simp: propagate_inst_def s should_update_def dest: compatible_kind split: option.splits if_splits)
qed

lemma propagate_inst_other:
  "result i \<noteq> Some v \<Longrightarrow> type_of (fst (propagate_inst m nt i s)) v = type_of (fst s) v"
  by (auto simp: propagate_inst_def split: prod.splits option.splits)

lemma propagate_list_other:
  "v \<notin> set (results is) \<Longrightarrow> type_of (fst (fold (propagate_inst m nt) is s)) v = type_of (fst s) v"
  by (induction "is" arbitrary: s) (auto simp: propagate_inst_other split: option.splits)

lemma propagate_blocks_other:
  "v \<notin> set (results (concat (map instructions bs))) \<Longrightarrow>
   type_of (fst (snd (fold (propagate_block m) bs s))) v = type_of (fst (snd s)) v"
proof (induction bs arbitrary: s)
  case (Cons b bs)
  have "type_of (fst (snd (propagate_block m b s))) v = type_of (fst (snd s)) v"
    using Cons.prems propagate_list_other [of v "instructions b" m "fst s" "snd s"]
    by (simp add: propagate_block_def case_prod_beta)
  then show ?case using Cons by simp
qed simp

lemma propagateTypes_settles:
  assumes s: "ssa (fn_insts fn)" and i: "i \<in> set (fn_insts fn)" "result i = Some v"
    and k: "fixed_kind (opcode i) = Some k"
  shows "map_option kind (type_of (snd (snd (propagateTypes m fn st))) v) = Some k"
proof -
  obtain b where b: "b \<in> set (blocks fn)" "i \<in> set (instructions b)" using i(1) by (auto simp: fn_insts_def)
  obtain bs bs' where bl: "blocks fn = bs @ b # bs'" using split_list [OF b(1)] by blast
  obtain js js' where il: "instructions b = js @ i # js'" using split_list [OF b(2)] by blast
  have d: "distinct (results (concat (map instructions bs) @ (js @ i # js') @ concat (map instructions bs')))"
    using s by (simp add: ssa_def fn_insts_def bl il)
  then have o1: "v \<notin> set (results js')" and o2: "v \<notin> set (results (concat (map instructions bs')))"
    using i(2) by auto
  define s1 where "s1 = fold (propagate_block m) bs (fst st, snd st, False)"
  define s2 where "s2 = propagate_inst m (fst s1) i (fold (propagate_inst m (fst s1)) js (snd s1))"
  have "map_option kind (type_of (fst s2) v) = Some k"
    unfolding s2_def by (rule propagate_inst_settles [OF i(2) k])
  then have "map_option kind (type_of (fst (snd (propagate_block m b s1))) v) = Some k"
    using propagate_list_other [OF o1, of m "fst s1" s2]
    by (simp add: propagate_block_def il s2_def case_prod_beta)
  then have "map_option kind (type_of (fst (snd (fold (propagate_block m) bs' (propagate_block m b s1)))) v) = Some k"
    using propagate_blocks_other [OF o2] by simp
  then show ?thesis by (simp add: propagateTypes_def bl s1_def case_prod_beta)
qed

lemma propagate_loop_sweeps:
  "0 < n \<Longrightarrow> \<exists>s'. snd (propagate_loop m fn n ch s) = snd (snd (propagateTypes m fn s'))"
proof (induction n arbitrary: ch s)
  case (Suc n)
  obtain c s' where p: "propagateTypes m fn s = (c, s')" by (cases "propagateTypes m fn s")
  then have q: "snd s' = snd (snd (propagateTypes m fn s))" by simp
  show ?case
  proof (cases "c \<and> 0 < n")
    case True
    then show ?thesis using Suc.IH [of True s'] p by simp
  next
    case False
    then have "snd (propagate_loop m fn (Suc n) ch s) = snd s'" using p by (cases n) auto
    then show ?thesis using q by metis
  qed
qed simp

lemma tp_settles:
  assumes "ssa (fn_insts fn)" "i \<in> set (fn_insts fn)" "result i = Some v" "fixed_kind (opcode i) = Some k"
  shows "map_option kind (type_of (snd (snd (tp_runOnFunction m fn st))) v) = Some k"
proof -
  obtain s' where "snd (propagate_loop m fn maxIterations False (\<lambda>_ _. None, st)) = snd (snd (propagateTypes m fn s'))"
    using propagate_loop_sweeps [of maxIterations m fn False "(\<lambda>_ _. None, st)"] by (auto simp: maxIterations_def)
  then show ?thesis
    using propagateTypes_settles [OF assms, of m s'] by (simp add: tp_runOnFunction_def case_prod_beta)
qed

text \<open>The representation that HIRToLLVM gives a value by its HIR type.\<close>

definition represents :: "htkind \<Rightarrow> rtval \<Rightarrow> bool" where
  "represents k x =
     (case k of
        KInt64 \<Rightarrow> (case x of RI64 _ \<Rightarrow> True | _ \<Rightarrow> False)
      | KFloat64 \<Rightarrow> (case x of RF64 _ \<Rightarrow> True | _ \<Rightarrow> False)
      | KBool \<Rightarrow> (case x of RI1 _ \<Rightarrow> True | _ \<Rightarrow> False)
      | KString \<Rightarrow> (case x of RPtr _ \<Rightarrow> True | _ \<Rightarrow> False)
      | _ \<Rightarrow> True)"

definition bitwise_results :: "hiropcode set" where
  "bitwise_results = {AndI64, OrI64, XorI64, ShlI64, ShrI64, UShrI64, NotI64}"

lemma order_lowered_bool: "order_lowered f g l r = Some x \<Longrightarrow> represents KBool x"
  by (auto simp: order_lowered_def represents_def split: sum.splits prod.splits rtval.splits)

lemma fixed_kind_table [simp]:
  "fixed_kind ConstInt = Some KInt64"
  "fixed_kind AddI64 = Some KInt64"
  "fixed_kind SubI64 = Some KInt64"
  "fixed_kind MulI64 = Some KInt64"
  "fixed_kind DivI64 = Some KInt64"
  "fixed_kind ModI64 = Some KInt64"
  "fixed_kind NegI64 = Some KInt64"
  "fixed_kind AndI64 = Some KInt64"
  "fixed_kind OrI64 = Some KInt64"
  "fixed_kind XorI64 = Some KInt64"
  "fixed_kind ShlI64 = Some KInt64"
  "fixed_kind ShrI64 = Some KInt64"
  "fixed_kind UShrI64 = Some KInt64"
  "fixed_kind NotI64 = Some KInt64"
  "fixed_kind CastF64ToI64 = Some KInt64"
  "fixed_kind CastBoolToI64 = Some KInt64"
  "fixed_kind ConstFloat = Some KFloat64"
  "fixed_kind AddF64 = Some KFloat64"
  "fixed_kind SubF64 = Some KFloat64"
  "fixed_kind MulF64 = Some KFloat64"
  "fixed_kind DivF64 = Some KFloat64"
  "fixed_kind ModF64 = Some KFloat64"
  "fixed_kind NegF64 = Some KFloat64"
  "fixed_kind CastI64ToF64 = Some KFloat64"
  "fixed_kind ConstBool = Some KBool"
  "fixed_kind CmpEqI64 = Some KBool"
  "fixed_kind CmpNeI64 = Some KBool"
  "fixed_kind CmpLtI64 = Some KBool"
  "fixed_kind CmpLeI64 = Some KBool"
  "fixed_kind CmpGtI64 = Some KBool"
  "fixed_kind CmpGeI64 = Some KBool"
  "fixed_kind CmpEqF64 = Some KBool"
  "fixed_kind CmpNeF64 = Some KBool"
  "fixed_kind CmpLtF64 = Some KBool"
  "fixed_kind CmpLeF64 = Some KBool"
  "fixed_kind CmpGtF64 = Some KBool"
  "fixed_kind CmpGeF64 = Some KBool"
  "fixed_kind LogicalNot = Some KBool"
  "fixed_kind ConstString = Some KString"
  "fixed_kind ConstNull = Some KAny"
  "fixed_kind ConstUndefined = Some KAny"
  by (simp_all add: fixed_kind_def int64_results_def float64_results_def bool_results_def string_results_def any_results_def)

lemma represents_simps [simp]:
  "represents KInt64 (RI64 a)" "represents KFloat64 (RF64 d)" "represents KBool (RI1 b)" "represents KString (RPtr p)"
  "represents KAny x"
  by (simp_all add: represents_def)

lemma const_represents: "const_loads rt i x \<Longrightarrow> \<exists>k. fixed_kind (opcode i) = Some k \<and> represents k x"
  unfolding const_loads_def
  by (elim disjE conjE exE) (simp_all add: lowerConstInt_def lowerConstFloat_def lowerConstBool_def)

lemma eq_represents:
  "lowerCmpEqI64 rt a b c d l r = Some x \<Longrightarrow> represents KBool x"
  "lowerCmpNeI64 rt a b c d l r = Some x \<Longrightarrow> represents KBool x"
  by (auto simp: lowerCmpEqI64_def lowerCmpNeI64_def Let_def split: rtval.splits prod.splits if_splits)

lemmas float_and_int_lowerings = lowerAddI64_def lowerSubI64_def lowerMulI64_def lowerDivI64_def lowerModI64_def
  lowerAddF64_def lowerSubF64_def lowerMulF64_def lowerDivF64_def lowerModF64_def
  lowerCmpEqF64_def lowerCmpNeF64_def lowerCmpLtF64_def lowerCmpLeF64_def lowerCmpGtF64_def lowerCmpGeF64_def

lemma order_represents:
  "lowerCmpLtI64 l r = Some x \<Longrightarrow> represents KBool x" "lowerCmpLeI64 l r = Some x \<Longrightarrow> represents KBool x"
  "lowerCmpGtI64 l r = Some x \<Longrightarrow> represents KBool x" "lowerCmpGeI64 l r = Some x \<Longrightarrow> represents KBool x"
  unfolding lowerCmpLtI64_def lowerCmpLeI64_def lowerCmpGtI64_def lowerCmpGeI64_def by (rule order_lowered_bool; assumption)+

text \<open>The computed opcodes whose inferred type is the representation of their result: all but the
  bitwise ones, the boolean connectives and the concatenation.\<close>

definition soundly_typed :: "hiropcode set" where
  "soundly_typed = computed_ops - bitwise_results - {LogicalAnd, LogicalOr, StringConcat}"

definition sound_binary :: "hiropcode set" where
  "sound_binary = {AddI64, SubI64, MulI64, DivI64, ModI64, AddF64, SubF64, MulF64, DivF64, ModF64,
     CmpEqI64, CmpNeI64, CmpLtI64, CmpLeI64, CmpGtI64, CmpGeI64, CmpEqF64, CmpNeF64, CmpLtF64, CmpLeF64,
     CmpGtF64, CmpGeF64}"

lemma binary_represents:
  "op \<in> sound_binary \<Longrightarrow> lower_binary rt c op l r = Some x \<Longrightarrow> \<exists>k. fixed_kind op = Some k \<and> represents k x"
  unfolding sound_binary_def
  by (elim insertE emptyE)
    (simp_all add: float_and_int_lowerings Let_def eq_represents order_represents split: if_split_asm, auto)

lemma unary_represents:
  "op \<in> unary_ops - {NotI64} \<Longrightarrow> lower_unary rt op l = Some x \<Longrightarrow> \<exists>k. fixed_kind op = Some k \<and> represents k x"
  unfolding unary_ops_def Diff_iff
  by (elim conjE insertE emptyE)
    (auto simp: lowerNegI64_def lowerNegF64_def lowerLogicalNot_def lowerCastI64ToF64_def lowerCastF64ToI64_def
      lowerCastBoolToI64_def split: rtval.splits)

lemma soundly_typed_cases:
  assumes "op \<in> soundly_typed"
  obtains "op \<in> const_ops" | "op \<in> sound_binary" "op \<in> binary_ops" | "op \<in> unary_ops - {NotI64}"
  using assms by (auto simp: soundly_typed_def computed_ops_def binary_ops_def sound_binary_def bitwise_results_def)

lemma computed_represents:
  assumes c: "computes rt i env x" and "opcode i \<in> soundly_typed"
  shows "\<exists>k. fixed_kind (opcode i) = Some k \<and> represents k x"
  using assms(2)
proof (cases rule: soundly_typed_cases)
  case 1
  then show ?thesis using const_represents c computes_const_iff by blast
next
  case 2
  then show ?thesis using computes_binary_op [OF c] binary_represents by metis
next
  case 3
  then have u: "opcode i \<in> unary_ops" by simp
  obtain a l zs where "lower_unary rt (opcode i) l = Some x" using c unary_ops_separate [OF u] by (auto elim!: computesE)
  then show ?thesis using unary_represents 3 by blast
qed

lemma bitwise_is_double:
  assumes c: "computes rt i env x" and op: "opcode i \<in> bitwise_results"
  shows "fixed_kind (opcode i) = Some KInt64 \<and> (\<exists>d. x = RF64 d)"
proof (cases "opcode i = NotI64")
  case True
  then have u: "opcode i \<in> unary_ops" by (simp add: unary_ops_def)
  obtain l where "lower_unary rt (opcode i) l = Some x" using c unary_ops_separate [OF u] by (auto elim!: computesE)
  then show ?thesis using True by (auto simp: lowerNotI64_def i32_to_f64_def)
next
  case False
  then have "opcode i \<in> {AndI64, OrI64, XorI64, ShlI64, ShrI64, UShrI64}" using op by (simp add: bitwise_results_def)
  moreover from this have "opcode i \<in> binary_ops" by (auto simp: binary_ops_def)
  then obtain k l r where "lower_binary rt k (opcode i) l r = Some x" using computes_binary_op [OF c] by blast
  ultimately show ?thesis
    by (elim insertE emptyE)
      (auto simp: lowerAndI64_def lowerOrI64_def lowerXorI64_def lowerShlI64_def lowerShrI64_def lowerUShrI64_def
        i32_to_f64_def Let_def)
qed


text \<open>\<open>%0 = const 5; %1 = %0 + %0; %2 = %1 & %0\<close>, with the types still unknown.\<close>

definition tp_example_inst :: "nat \<Rightarrow> hiropcode \<Rightarrow> hoperand list \<Rightarrow> hinst" where
  "tp_example_inst r op xs = (mk_inst op r)\<lparr>result := Some r, operands := xs\<rparr>"

definition tp_example :: hfunction where
  "tp_example = \<lparr>fn_name = ''f'', mangledName = ''f'', fn_returnType = None, fn_params = [],
     blocks = [\<lparr>baddr = 0, blk_label = ''entry'', blk_params = [],
       instructions = [tp_example_inst 0 ConstInt [OInt 5], tp_example_inst 1 AddI64 [OVal (Some 0), OVal (Some 0)],
         tp_example_inst 2 AndI64 [OVal (Some 1), OVal (Some 0)]],
       predecessors = [], successors = []\<rparr>],
     captures = [], isAsync = False, isGenerator = False, nextValueId = 3\<rparr>"

lemma tp_example_insts: "fn_insts tp_example = [tp_example_inst 0 ConstInt [OInt 5],
  tp_example_inst 1 AddI64 [OVal (Some 0), OVal (Some 0)], tp_example_inst 2 AndI64 [OVal (Some 1), OVal (Some 0)]]"
  by (simp add: fn_insts_def tp_example_def)

lemma getOperandValue_OVal: "getOperandValue env (OVal (Some v)) = env v"
  by (simp add: getOperandValue_def)

lemma tp_example_reach: "\<exists>env. reach rt (fn_insts tp_example) env \<and> env 1 = Some (RI64 10)"
proof -
  have r0: "reach rt (fn_insts tp_example) (\<lambda>_. None)" by (rule reach_init) simp
  have c0: "computes rt (tp_example_inst 0 ConstInt [OInt 5]) (\<lambda>_. None) (RI64 5)"
    by (rule computes_const) (simp_all add: const_ops_def const_loads_def tp_example_inst_def lowerConstInt_def getOperandInt_def)
  have m0: "tp_example_inst 0 ConstInt [OInt 5] \<in> set (fn_insts tp_example)" by (simp add: tp_example_insts)
  from reach_step [OF r0 m0 c0] have r1: "reach rt (fn_insts tp_example) [0 \<mapsto> RI64 5]" by (simp add: tp_example_inst_def)
  have c1: "computes rt (tp_example_inst 1 AddI64 [OVal (Some 0), OVal (Some 0)]) [0 \<mapsto> RI64 5] (RI64 10)"
    by (rule computes_binary [where l = "RI64 5" and r = "RI64 5" and x = "OVal (Some 0)" and y = "OVal (Some 0)" and zs = "[]"])
      (simp_all add: binary_ops_def tp_example_inst_def getOperandValue_OVal lowerAddI64_def coerceToI64Operand_def)
  have m1: "tp_example_inst 1 AddI64 [OVal (Some 0), OVal (Some 0)] \<in> set (fn_insts tp_example)" by (simp add: tp_example_insts)
  from reach_step [OF r1 m1 c1] show ?thesis by (auto simp: tp_example_inst_def)
qed


end
