(* ===== verification/InstMap.thy ===== *)
theory InstMap
  imports HIR
begin

text \<open>
  Passes that rewrite every instruction of a function on its own: the traversal of the source,
  which raises a flag when it writes, is a map over the instructions.
\<close>

definition map_insts :: "(hinst \<Rightarrow> hinst) \<Rightarrow> hfunction \<Rightarrow> hfunction" where
  "map_insts h fn =
     fn\<lparr>blocks := map (\<lambda>b. b\<lparr>instructions := map h (instructions b)\<rparr>) (blocks fn)\<rparr>"

lemma fn_insts_map [simp]: "fn_insts (map_insts h fn) = map h (fn_insts fn)"
  by (simp add: fn_insts_def map_insts_def map_concat comp_def)

lemma map_insts_comp: "map_insts g (map_insts h fn) = map_insts (g \<circ> h) fn"
  by (simp add: map_insts_def)

lemma map_insts_cong:
  assumes "\<And>i. i \<in> set (fn_insts fn) \<Longrightarrow> g i = h i"
  shows "map_insts g fn = map_insts h fn"
proof -
  have "map g (instructions b) = map h (instructions b)" if "b \<in> set (blocks fn)" for b
    using that assms by (auto simp: fn_insts_def)
  then show ?thesis by (auto simp: map_insts_def cong: map_cong)
qed

lemma map_insts_id: "(\<And>i. i \<in> set (fn_insts fn) \<Longrightarrow> h i = i) \<Longrightarrow> map_insts h fn = fn"
  using map_insts_cong [of fn h id] by (simp add: map_insts_def)

lemma walk_flagged:
  assumes "\<And>s x. x \<in> set xs \<Longrightarrow> f (e s) x = (e (s \<or> P x), h x)"
  shows "walk f (e s) xs = (e (s \<or> (\<exists>x\<in>set xs. P x)), map h xs)"
  using assms by (induction xs arbitrary: s) (auto simp: Let_def disj_assoc)

lemma walk_fn_flagged:
  assumes "\<And>s x. x \<in> set (fn_insts fn) \<Longrightarrow> f (e s) x = (e (s \<or> P x), h x)"
  shows "walk_fn f (e s) fn = (e (s \<or> (\<exists>x\<in>set (fn_insts fn). P x)), map_insts h fn)"
proof -
  have "walk_block f (e s) b =
      (e (s \<or> (\<exists>x\<in>set (instructions b). P x)), b\<lparr>instructions := map h (instructions b)\<rparr>)"
    if "b \<in> set (blocks fn)" for s b
    using that assms by (subst walk_block_def, subst walk_flagged [of _ f e P h]) (auto simp: fn_insts_def)
  then show ?thesis
    by (subst walk_fn_def, subst walk_flagged [of _ _ e]) (auto simp: map_insts_def fn_insts_def)
qed

end
