(* ===== verification/EscapeAnalysis.thy ===== *)
theory EscapeAnalysis
  imports InstMap
begin

text \<open>
  Escape analysis, \<open>src/src/compiler/hir/passes/EscapeAnalysisPass.cpp\<close>: which of the objects a
  function allocates may live on its stack, and which may be split into their properties.

  The def-use chains hold pointers to instructions. The pass writes the members \<open>escapes\<close> and
  \<open>scalarReplaceable\<close> only, and reads the other members through the chains, so the chains of the
  model hold the instructions themselves and are built once. A \<open>std::set\<close> of instruction pointers
  is iterated in the order of the addresses; here it is a list without duplicates. The answers do
  not depend on the order.

  \<open>useEscapes\<close> calls itself along copies and selects. A cycle of them would not end, which is
  \<open>None\<close> here: the recursion has a fuel, one more than the function has instructions.
\<close>

section \<open>Def-use chains\<close>

record chains =
  definingInst :: "(vref \<times> hinst) list"
  useMap :: "vref \<Rightarrow> hinst list"

definition defining :: "chains \<Rightarrow> vref \<Rightarrow> hinst option" where
  "defining c v = map_of (definingInst c) v"

definition add_use :: "hinst \<Rightarrow> vref \<Rightarrow> chains \<Rightarrow> chains" where
  "add_use i v c =
     (if i \<in> set (useMap c v) then c else c\<lparr>useMap := (useMap c)(v := useMap c v @ [i])\<rparr>)"

definition add_inst :: "hinst \<Rightarrow> chains \<Rightarrow> chains" where
  "add_inst i c =
     fold (add_use i) (inst_uses i)
       (case result i of None \<Rightarrow> c | Some v \<Rightarrow> c\<lparr>definingInst := (v, i) # definingInst c\<rparr>)"

definition buildDefUseChains :: "hfunction \<Rightarrow> chains" where
  "buildDefUseChains fn = fold add_inst (fn_insts fn) \<lparr>definingInst = [], useMap = \<lambda>_. []\<rparr>"

section \<open>Which uses let a value escape\<close>

definition allocation_ops :: "hiropcode set" where
  "allocation_ops = {NewObject, NewObjectDynamic, NewArrayBoxed}"

definition isAllocationOpcode :: "hiropcode \<Rightarrow> bool" where
  "isAllocationOpcode op \<longleftrightarrow> op \<in> allocation_ops"

definition leaving_ops :: "hiropcode set" where
  "leaving_ops = {Return, AsyncReturn, StoreCapture, StoreCaptureFromClosure, Yield, YieldStar, Throw}"

definition call_ops :: "hiropcode set" where
  "call_ops = {Call, CallMethod, CallVirtual, CallIndirect}"

definition safe_ops :: "hiropcode set" where
  "safe_ops =
     {Phi, GetPropStatic, GetPropDynamic, GetElem, GetElemTyped, Load, GCLoad, TypeOf, InstanceOf,
      HasProp, DeleteProp, ArrayLength,
      CmpEqI64, CmpNeI64, CmpLtI64, CmpLeI64, CmpGtI64, CmpGeI64,
      CmpEqF64, CmpNeF64, CmpLtF64, CmpLeF64, CmpGtF64, CmpGeF64, CmpEqPtr, CmpNePtr,
      CondBranch, LogicalNot, LogicalAnd, LogicalOr,
      BoxInt, BoxFloat, BoxBool, BoxString, BoxObject,
      UnboxInt, UnboxFloat, UnboxBool, UnboxString, UnboxObject, TypeCheck,
      CastI64ToF64, CastF64ToI64, CastBoolToI64}"

definition copy_ops :: "hiropcode set" where
  "copy_ops = {Select, Copy}"

definition operand_is :: "hinst \<Rightarrow> nat \<Rightarrow> vref \<Rightarrow> bool" where
  "operand_is i k v \<longleftrightarrow> k < length (operands i) \<and> op_val (operands i ! k) = Some v"

text \<open>The cases of the switch in \<open>useEscapes\<close> but for copies and selects.\<close>

definition use_leaks :: "hinst \<Rightarrow> vref \<Rightarrow> bool" where
  "use_leaks i v =
     (if opcode i \<in> leaving_ops then True
      else if opcode i \<in> call_ops then Some v \<in> set (map op_val (operands i))
      else if opcode i \<in> {SetPropStatic, SetPropDynamic} then operand_is i 2 v
      else if opcode i \<in> {SetElem, SetElemTyped} then operand_is i 2 v
      else if opcode i \<in> {Store, GCStore} then 2 \<le> length (operands i) \<and> operand_is i 0 v
      else opcode i \<notin> safe_ops)"

text \<open>The loop over a set of uses, left at the first that lets the value escape.\<close>

fun any_escapes :: "('a \<Rightarrow> bool option) \<Rightarrow> 'a list \<Rightarrow> bool option" where
  "any_escapes f [] = Some False"
| "any_escapes f (u # us) =
     (case f u of None \<Rightarrow> None | Some b \<Rightarrow> if b then Some True else any_escapes f us)"

fun useEscapes :: "nat \<Rightarrow> chains \<Rightarrow> hinst \<Rightarrow> vref \<Rightarrow> bool option" where
  "useEscapes 0 c i v = None"
| "useEscapes (Suc n) c i v =
     (if opcode i \<in> copy_ops then
        (case result i of None \<Rightarrow> Some False
         | Some r \<Rightarrow> any_escapes (\<lambda>u. useEscapes n c u r) (useMap c r))
      else Some (use_leaks i v))"

definition value_escapes :: "nat \<Rightarrow> chains \<Rightarrow> vref \<Rightarrow> bool option" where
  "value_escapes n c v = any_escapes (\<lambda>u. useEscapes n c u v) (useMap c v)"

section \<open>Scalar replacement\<close>

text \<open>A property access whose object is the value itself.\<close>

definition own_property :: "hinst \<Rightarrow> vref \<Rightarrow> bool" where
  "own_property i v \<longleftrightarrow> opcode i \<in> {SetPropStatic, GetPropStatic} \<and> operand_is i 0 v"

text \<open>A use of the local variable the object is stored in.\<close>

definition variable_use_ok :: "chains \<Rightarrow> hinst \<Rightarrow> bool" where
  "variable_use_ok c u =
     (if opcode u = Load then
        (case result u of None \<Rightarrow> False | Some r \<Rightarrow> list_all (\<lambda>l. own_property l r) (useMap c r))
      else opcode u \<in> {Store, GCStore})"

definition replaceable_use :: "chains \<Rightarrow> vref \<Rightarrow> hinst \<Rightarrow> bool" where
  "replaceable_use c v u =
     (if opcode u \<in> {SetPropStatic, GetPropStatic} then own_property u v
      else if opcode u \<in> {Store, GCStore} then
        2 \<le> length (operands u) \<and> operand_is u 0 v \<and>
        (case op_val (operands u ! 1) of None \<Rightarrow> False
         | Some d \<Rightarrow>
             (case defining c d of None \<Rightarrow> False | Some di \<Rightarrow> opcode di = Alloca) \<and>
             list_all (variable_use_ok c) (useMap c d))
      else False)"

definition canScalarReplace :: "chains \<Rightarrow> vref \<Rightarrow> bool" where
  "canScalarReplace c v \<longleftrightarrow> list_all (replaceable_use c v) (useMap c v)"

section \<open>The allocations\<close>

text \<open>The body of the loop of phase 2; the state is the flag \<open>changed\<close>, or \<open>None\<close> once a
  recursion does not end.\<close>

definition flag_alloc :: "chains \<Rightarrow> vref \<Rightarrow> bool \<Rightarrow> bool \<Rightarrow> hinst \<Rightarrow> bool \<times> hinst" where
  "flag_alloc c v leak ch i =
     (let (ch, i) = (if \<not> leak \<and> escapes i then (True, i\<lparr>escapes := False\<rparr>) else (ch, i));
          (ch, i) = (if leak \<and> \<not> escapes i then (True, i\<lparr>escapes := True\<rparr>) else (ch, i))
      in if objectShape i \<noteq> None \<and> canScalarReplace c v
         then (True, i\<lparr>scalarReplaceable := True, escapes := False\<rparr>) else (ch, i))"

definition check_alloc :: "nat \<Rightarrow> chains \<Rightarrow> bool option \<Rightarrow> hinst \<Rightarrow> bool option \<times> hinst" where
  "check_alloc n c s i =
     (case (s, result i) of
        (Some ch, Some v) \<Rightarrow>
          if isAllocationOpcode (opcode i) then
            (case value_escapes n c v of None \<Rightarrow> (None, i)
             | Some leak \<Rightarrow> (let (ch', i') = flag_alloc c v leak ch i in (Some ch', i')))
          else (s, i)
      | _ \<Rightarrow> (s, i))"

section \<open>Propagation through phis\<close>

definition pass_through_ops :: "hiropcode set" where
  "pass_through_ops = {BoxObject, BoxInt, BoxFloat, BoxBool, BoxString, UnboxObject, Copy}"

text \<open>What the search pushes for a value that the instruction defines.\<close>

definition feeding :: "hinst \<Rightarrow> vref list" where
  "feeding d =
     (if isAllocationOpcode (opcode d) then []
      else if opcode d = Phi then List.map_filter fst (phiIncoming d)
      else if opcode d \<in> pass_through_ops then
        (case operands d of [] \<Rightarrow> [] | x # _ \<Rightarrow> (case op_val x of None \<Rightarrow> [] | Some v \<Rightarrow> [v]))
      else [])"

definition feeds_of :: "chains \<Rightarrow> vref \<Rightarrow> vref list" where
  "feeds_of c v = (case defining c v of None \<Rightarrow> [] | Some d \<Rightarrow> feeding d)"

text \<open>Every value a search can meet beyond its starting points.\<close>

definition phi_universe :: "chains \<Rightarrow> vref set" where
  "phi_universe c = (\<Union>(v, d)\<in>set (definingInst c). set (feeding d))"

lemma feeds_universe: "set (feeds_of c v) \<subseteq> phi_universe c"
  by (cases "defining c v")
     (force simp: feeds_of_def phi_universe_def defining_def dest: map_of_SomeD)+

text \<open>The search from the entries of a phi: \<open>work\<close> is the vector with its back first.\<close>

function phi_search :: "chains \<Rightarrow> vref list \<Rightarrow> vref set \<Rightarrow> vref set" where
  "phi_search c [] seen = seen"
| "phi_search c (cur # work) seen =
     (if cur \<in> seen then phi_search c work seen
      else phi_search c (rev (feeds_of c cur) @ work) (insert cur seen))"
  by pat_completeness auto

termination
proof (relation "measures [\<lambda>(c, work, seen). card ((phi_universe c \<union> set work) - seen),
    \<lambda>(c, work, seen). length work]", goal_cases)
  case 1
  then show ?case by simp
next
  case (2 c cur work seen)
  then have "phi_universe c \<union> set (cur # work) - seen = phi_universe c \<union> set work - seen" by auto
  then show ?case by simp
next
  case (3 c cur work seen)
  have "finite (phi_universe c)" by (auto simp: phi_universe_def)
  moreover have "phi_universe c \<union> set (rev (feeds_of c cur) @ work) - insert cur seen
      \<subset> phi_universe c \<union> set (cur # work) - seen"
    using 3 feeds_universe [of c cur] by auto
  ultimately have "card (phi_universe c \<union> set (rev (feeds_of c cur) @ work) - insert cur seen)
      < card (phi_universe c \<union> set (cur # work) - seen)"
    by (intro psubset_card_mono) auto
  then show ?case by simp
qed

text \<open>The allocations the search meets, as addresses.\<close>

definition met_allocations :: "chains \<Rightarrow> vref set \<Rightarrow> iref set" where
  "met_allocations c seen =
     set (map iaddr (filter (\<lambda>d. isAllocationOpcode (opcode d))
       (List.map_filter (defining c) (filter (\<lambda>v. v \<in> seen) (map fst (definingInst c))))))"

definition mark_escaping :: "iref set \<Rightarrow> bool \<Rightarrow> hinst \<Rightarrow> bool \<times> hinst" where
  "mark_escaping as ch i =
     (if iaddr i \<in> as \<and> \<not> escapes i then (True, i\<lparr>escapes := True\<rparr>) else (ch, i))"

definition propagate_phi :: "nat \<Rightarrow> chains \<Rightarrow> hinst \<Rightarrow> bool \<times> hfunction \<Rightarrow> (bool \<times> hfunction) option" where
  "propagate_phi n c i s =
     (case result i of
        Some v \<Rightarrow>
          if opcode i = Phi then
            (case value_escapes n c v of
               None \<Rightarrow> None
             | Some leak \<Rightarrow> Some (if leak then
                 walk_fn (mark_escaping (met_allocations c
                   (phi_search c (rev (List.map_filter fst (phiIncoming i))) {}))) (fst s) (snd s)
               else s))
          else Some s
      | None \<Rightarrow> Some s)"

fun phi_sweep ::
  "nat \<Rightarrow> chains \<Rightarrow> hinst list \<Rightarrow> bool \<times> hfunction \<Rightarrow> (bool \<times> hfunction) option" where
  "phi_sweep n c [] s = Some s"
| "phi_sweep n c (i # is) s =
     (case propagate_phi n c i s of None \<Rightarrow> None | Some s' \<Rightarrow> phi_sweep n c is s')"

definition marked :: "iref set \<Rightarrow> hinst \<Rightarrow> hinst" where
  "marked as i = i\<lparr>escapes := escapes i \<or> iaddr i \<in> as\<rparr>"

lemma marked_sel [simp]: "iaddr (marked as i) = iaddr i" "escapes (marked as i) = (escapes i \<or> iaddr i \<in> as)"
  by (simp_all add: marked_def)

lemma walk_marks:
  "walk_fn (mark_escaping as) ch fn =
     (ch \<or> (\<exists>i\<in>set (fn_insts fn). iaddr i \<in> as \<and> \<not> escapes i), map_insts (marked as) fn)"
  by (rule walk_fn_flagged [of _ _ "\<lambda>s. s"]) (auto simp: mark_escaping_def marked_def)

text \<open>The instructions whose flag is down; a sweep that reports a change raises one.\<close>

definition stack_count :: "hfunction \<Rightarrow> nat" where
  "stack_count fn = length (filter (\<lambda>i. \<not> escapes i) (fn_insts fn))"

lemma filter_length_mono:
  "(\<And>x. x \<in> set xs \<Longrightarrow> P x \<Longrightarrow> Q x) \<Longrightarrow> length (filter P xs) \<le> length (filter Q xs)"
  by (induction xs) (auto intro: le_SucI)

lemma filter_length_less:
  assumes "\<And>x. x \<in> set xs \<Longrightarrow> P x \<Longrightarrow> Q x" and "x \<in> set xs" and "Q x" and "\<not> P x"
  shows "length (filter P xs) < length (filter Q xs)"
proof -
  obtain ys zs where "xs = ys @ x # zs" using split_list [OF assms(2)] by blast
  moreover from this have "length (filter P ys) \<le> length (filter Q ys)"
    "length (filter P zs) \<le> length (filter Q zs)"
    using assms(1) by (auto intro!: filter_length_mono)
  ultimately show ?thesis using assms(3,4) by simp
qed

lemma stack_count_marks:
  "stack_count (map_insts (marked as) fn) \<le> stack_count fn"
  "i \<in> set (fn_insts fn) \<Longrightarrow> iaddr i \<in> as \<Longrightarrow> \<not> escapes i \<Longrightarrow>
     stack_count (map_insts (marked as) fn) < stack_count fn"
  by (auto simp: stack_count_def filter_map comp_def intro!: filter_length_mono
      intro: filter_length_less)

lemma propagate_phi_count:
  assumes "propagate_phi n c i (ch, g) = Some (ch', g')"
  shows "stack_count g' \<le> stack_count g \<and> (ch' \<and> \<not> ch \<longrightarrow> stack_count g' < stack_count g)"
  using assms stack_count_marks
  by (fastforce simp: propagate_phi_def walk_marks split: option.splits if_splits)

lemma phi_sweep_count:
  "phi_sweep n c is (ch, g) = Some (ch', g') \<Longrightarrow>
     stack_count g' \<le> stack_count g \<and> (ch' \<and> \<not> ch \<longrightarrow> stack_count g' < stack_count g)"
proof (induction "is" arbitrary: ch g)
  case (Cons i "is")
  then obtain ch1 g1 where p: "propagate_phi n c i (ch, g) = Some (ch1, g1)"
    "phi_sweep n c is (ch1, g1) = Some (ch', g')" by (auto split: option.splits)
  from propagate_phi_count [OF p(1)] Cons.IH [OF p(2)] show ?case by auto
qed simp

function propagateEscapeThroughPhis :: "nat \<Rightarrow> chains \<Rightarrow> hfunction \<Rightarrow> hfunction option" where
  "propagateEscapeThroughPhis n c g =
     (case phi_sweep n c (fn_insts g) (False, g) of
        None \<Rightarrow> None
      | Some (ch, g') \<Rightarrow> if ch then propagateEscapeThroughPhis n c g' else Some g')"
  by pat_completeness auto

termination
  by (relation "measure (\<lambda>(n, c, g). stack_count g)") (auto dest: phi_sweep_count)

declare propagateEscapeThroughPhis.simps [simp del]

section \<open>The pass\<close>

definition ea_runOnFunction :: "hfunction \<Rightarrow> (pass_result \<times> hfunction) option" where
  "ea_runOnFunction fn =
     (if isAsync fn \<or> isGenerator fn then Some (unchanged, fn)
      else
        let c = buildDefUseChains fn;
            n = Suc (length (fn_insts fn));
            (s, g) = walk_fn (check_alloc n c) (Some False) fn
        in (case s of
              None \<Rightarrow> None
            | Some ch \<Rightarrow> map_option (Pair (result_of ch)) (propagateEscapeThroughPhis n c g)))"

end
