(* ===== verification/EscapeAnalysisCorrect.thy ===== *)
theory EscapeAnalysisCorrect
  imports EscapeAnalysis Execution
begin

text \<open>
  What escape analysis decides. A value leaks when copies and selects carry it to a use through
  which it can leave the function; it leaks through a phi when phis, boxes and copies carry it to
  a phi whose value leaks. In a function with single assignments whose copies form no cycle, the
  pass returns, and the flags of every allocation are exactly these, unless the object is
  scalar-replaceable.
\<close>

section \<open>The flow of values\<close>

definition uses_in :: "hfunction \<Rightarrow> vref \<Rightarrow> hinst set" where
  "uses_in fn v = {i \<in> set (fn_insts fn). v \<in> set (inst_uses i)}"

definition copy_flow :: "hfunction \<Rightarrow> (vref \<times> vref) set" where
  "copy_flow fn = {(v, r). \<exists>i\<in>uses_in fn v. opcode i \<in> copy_ops \<and> result i = Some r}"

definition leaks :: "hfunction \<Rightarrow> vref \<Rightarrow> bool" where
  "leaks fn v \<longleftrightarrow>
     (\<exists>w. (v, w) \<in> (copy_flow fn)\<^sup>* \<and> (\<exists>i\<in>uses_in fn w. opcode i \<notin> copy_ops \<and> use_leaks i w))"

definition phi_flow :: "hfunction \<Rightarrow> (vref \<times> vref) set" where
  "phi_flow fn = {(x, v). \<exists>d\<in>set (fn_insts fn). result d = Some v \<and> x \<in> set (feeding d)}"

definition phi_leaks :: "hfunction \<Rightarrow> vref \<Rightarrow> bool" where
  "phi_leaks fn v \<longleftrightarrow>
     (\<exists>p\<in>set (fn_insts fn). \<exists>r. opcode p = Phi \<and> result p = Some r \<and> leaks fn r \<and> (v, r) \<in> (phi_flow fn)\<^sup>+)"

text \<open>What the pass makes of an allocation.\<close>

definition with_flags :: "hfunction \<Rightarrow> hinst \<Rightarrow> hinst" where
  "with_flags fn i =
     (case result i of
        Some v \<Rightarrow>
          if \<not> isAllocationOpcode (opcode i) then i
          else if objectShape i \<noteq> None \<and> canScalarReplace (buildDefUseChains fn) v
          then i\<lparr>escapes := False, scalarReplaceable := True\<rparr>
          else i\<lparr>escapes := leaks fn v \<or> phi_leaks fn v\<rparr>
      | None \<Rightarrow> i)"

section \<open>The chains\<close>

lemma add_use_sel [simp]:
  "definingInst (add_use i v c) = definingInst c"
  "set (useMap (add_use i v c) w) = set (useMap c w) \<union> (if w = v then {i} else {})"
  by (auto simp: add_use_def)

lemma fold_add_use:
  "definingInst (fold (add_use i) vs c) = definingInst c"
  "set (useMap (fold (add_use i) vs c) w) = set (useMap c w) \<union> (if w \<in> set vs then {i} else {})"
  by (induction vs arbitrary: c) auto

lemma add_inst_sel:
  "definingInst (add_inst i c) =
     (case result i of None \<Rightarrow> definingInst c | Some v \<Rightarrow> (v, i) # definingInst c)"
  "set (useMap (add_inst i c) w) = set (useMap c w) \<union> (if w \<in> set (inst_uses i) then {i} else {})"
  by (simp_all add: add_inst_def fold_add_use split: option.split)

lemma fold_add_inst:
  "set (useMap (fold add_inst is c) w) = set (useMap c w) \<union> {i \<in> set is. w \<in> set (inst_uses i)}"
  "definingInst (fold add_inst is c) =
     rev (List.map_filter (\<lambda>i. map_option (\<lambda>v. (v, i)) (result i)) is) @ definingInst c"
  by (induction "is" arbitrary: c) (auto simp: add_inst_sel List.map_filter_simps split: option.splits)

lemma chains_uses: "set (useMap (buildDefUseChains fn) v) = uses_in fn v"
  by (simp add: buildDefUseChains_def fold_add_inst uses_in_def)

lemma chains_defs:
  "definingInst (buildDefUseChains fn) =
     rev (List.map_filter (\<lambda>i. map_option (\<lambda>v. (v, i)) (result i)) (fn_insts fn))"
  by (simp add: buildDefUseChains_def fold_add_inst)

lemma map_fst_defs:
  "map fst (List.map_filter (\<lambda>i. map_option (\<lambda>v. (v, i)) (result i)) is) = results is"
  by (induction "is") (auto simp: List.map_filter_simps split: option.split)

lemma set_map_filter: "set (List.map_filter f xs) = {y. \<exists>x\<in>set xs. f x = Some y}"
  by (induction xs) (auto simp: List.map_filter_simps split: option.splits)

lemma defining_iff:
  assumes "ssa (fn_insts fn)"
  shows "defining (buildDefUseChains fn) v = Some i \<longleftrightarrow> i \<in> set (fn_insts fn) \<and> result i = Some v"
proof -
  have "distinct (map fst (definingInst (buildDefUseChains fn)))"
    using assms by (simp add: chains_defs rev_map [symmetric] map_fst_defs ssa_def)
  then show ?thesis
    by (auto simp: defining_def map_of_eq_Some_iff chains_defs set_map_filter)
qed

section \<open>The recursion along copies\<close>

lemma any_escapes_value:
  assumes "any_escapes f us = Some b" and "\<And>u b. u \<in> set us \<Longrightarrow> f u = Some b \<Longrightarrow> b = P u"
  shows "b = (\<exists>u\<in>set us. P u)"
  using assms
proof (induction us)
  case (Cons u us)
  obtain b' where f: "f u = Some b'" using Cons.prems(1) by (cases "f u") auto
  then have "b' = P u" using Cons.prems(2) by simp
  then show ?case using Cons f by (cases b') auto
qed simp

lemma any_escapes_returns: "(\<And>u. u \<in> set us \<Longrightarrow> f u \<noteq> None) \<Longrightarrow> any_escapes f us \<noteq> None"
  by (induction us) (auto split: option.split)

lemma leaks_unfold:
  "leaks fn v \<longleftrightarrow> (\<exists>i\<in>uses_in fn v.
     if opcode i \<in> copy_ops then (case result i of None \<Rightarrow> False | Some r \<Rightarrow> leaks fn r) else use_leaks i v)"
  (is "_ \<longleftrightarrow> ?r")
proof
  assume "leaks fn v"
  then obtain w i where w: "(v, w) \<in> (copy_flow fn)\<^sup>*" "i \<in> uses_in fn w" "opcode i \<notin> copy_ops" "use_leaks i w"
    by (auto simp: leaks_def)
  from w(1) show ?r
  proof (cases rule: converse_rtranclE)
    case base
    then show ?thesis using w by auto
  next
    case (step r)
    then have "leaks fn r" using w by (auto simp: leaks_def)
    with step(1) show ?thesis by (force simp: copy_flow_def)
  qed
next
  assume ?r
  then obtain i where i: "i \<in> uses_in fn v"
    "if opcode i \<in> copy_ops then (case result i of None \<Rightarrow> False | Some r \<Rightarrow> leaks fn r) else use_leaks i v"
    by blast
  show "leaks fn v"
  proof (cases "opcode i \<in> copy_ops")
    case True
    then obtain r where "result i = Some r" "leaks fn r" using i(2) by (auto split: option.splits)
    moreover from this have "(v, r) \<in> copy_flow fn" using i(1) True by (auto simp: copy_flow_def)
    ultimately show ?thesis unfolding leaks_def by (meson converse_rtrancl_into_rtrancl)
  next
    case False
    then show ?thesis using i by (auto simp: leaks_def)
  qed
qed

lemma value_escapes_sound:
  "value_escapes n (buildDefUseChains fn) v = Some b \<Longrightarrow> b = leaks fn v"
proof (induction n arbitrary: v b)
  case 0
  then show ?case
    by (cases "useMap (buildDefUseChains fn) v")
       (use chains_uses [of fn v] in \<open>auto simp: value_escapes_def leaks_unfold [of fn v]\<close>)
next
  case (Suc n)
  show ?case
    unfolding leaks_unfold [of fn v] chains_uses [symmetric]
    using Suc.prems unfolding value_escapes_def
    by (rule any_escapes_value)
       (use Suc.IH in \<open>auto simp: value_escapes_def split: if_splits option.splits\<close>)
qed

lemma value_escapes_copies:
  "(\<And>r. (v, r) \<in> copy_flow fn \<Longrightarrow> value_escapes n (buildDefUseChains fn) r \<noteq> None) \<Longrightarrow>
   value_escapes (Suc n) (buildDefUseChains fn) v \<noteq> None"
  unfolding value_escapes_def
  by (rule any_escapes_returns) (auto simp: chains_uses copy_flow_def split: option.split)

lemma copied_results: "(copy_flow fn)\<^sup>+ `` {v} \<subseteq> set (results (fn_insts fn))"
proof
  fix r assume "r \<in> (copy_flow fn)\<^sup>+ `` {v}"
  then obtain w where "(w, r) \<in> copy_flow fn" by (auto elim: tranclE)
  then show "r \<in> set (results (fn_insts fn))" by (auto simp: copy_flow_def uses_in_def in_results)
qed

lemma length_results: "length (results is) \<le> length is"
  by (induction "is") (auto split: option.split)

lemma value_escapes_returns:
  assumes "acyclic (copy_flow fn)" and "length (fn_insts fn) < n"
  shows "value_escapes n (buildDefUseChains fn) v = Some (leaks fn v)"
proof -
  let ?D = "\<lambda>v. (copy_flow fn)\<^sup>+ `` {v}"
  have fin: "finite (?D v)" for v by (rule finite_subset [OF copied_results]) simp
  have "value_escapes n (buildDefUseChains fn) v \<noteq> None" if "card (?D v) < n" for n v
    using that
  proof (induction n arbitrary: v)
    case (Suc n)
    show ?case
    proof (rule value_escapes_copies)
      fix r assume r: "(v, r) \<in> copy_flow fn"
      have "r \<notin> ?D r" using assms(1) by (auto simp: acyclic_def)
      moreover have "?D r \<subseteq> ?D v" "r \<in> ?D v" using r by (auto intro: trancl_into_trancl2)
      ultimately have "card (?D r) < card (?D v)" by (intro psubset_card_mono fin) blast
      then show "value_escapes n (buildDefUseChains fn) r \<noteq> None" using Suc by simp
    qed
  qed simp
  moreover have "card (?D v) \<le> length (fn_insts fn)"
    using card_mono [OF _ copied_results [of fn v]] card_length [of "results (fn_insts fn)"]
      length_results [of "fn_insts fn"] by simp
  ultimately obtain b where "value_escapes n (buildDefUseChains fn) v = Some b"
    using assms(2) by (meson not_None_eq order_le_less_trans)
  then show ?thesis using value_escapes_sound by simp
qed

section \<open>The search from a phi\<close>

definition back_flow :: "chains \<Rightarrow> (vref \<times> vref) set" where
  "back_flow c = {(v, x). x \<in> set (feeds_of c v)}"

lemma phi_search_reaches:
  assumes "\<And>v x. v \<in> seen \<Longrightarrow> (v, x) \<in> back_flow c \<Longrightarrow> x \<in> seen \<union> set work"
  shows "phi_search c work seen = seen \<union> (back_flow c)\<^sup>* `` set work"
  using assms
proof (induction c work seen rule: phi_search.induct)
  case (1 c seen)
  then show ?case by simp
next
  case (2 c cur work seen)
  let ?E = "back_flow c"
  show ?case
  proof (cases "cur \<in> seen")
    case True
    have shut: "y \<in> seen \<union> ?E\<^sup>* `` set work" if "(x, y) \<in> ?E\<^sup>*" "x \<in> seen" for x y
      using that
    proof (induction rule: rtrancl_induct)
      case (step y z)
      then show ?case using "2.prems" [of y z] True by (auto intro: rtrancl_into_rtrancl)
    qed simp
    have "phi_search c work seen = seen \<union> ?E\<^sup>* `` set work"
      by (rule "2.IH"(1) [OF True]) (use "2.prems" True in auto)
    moreover have "?E\<^sup>* `` set (cur # work) \<subseteq> seen \<union> ?E\<^sup>* `` set work"
      using shut True by auto
    ultimately show ?thesis using True by auto
  next
    case False
    have sub: "x \<in> insert cur seen \<union> set (rev (feeds_of c cur) @ work)"
      if "v \<in> insert cur seen" "(v, x) \<in> ?E" for v x
      using that "2.prems" [of v x] by (auto simp: back_flow_def)
    have "?E\<^sup>* `` {cur} = insert cur (?E\<^sup>* `` set (feeds_of c cur))"
      by (auto simp: back_flow_def intro: converse_rtrancl_into_rtrancl elim: converse_rtranclE)
    then have "?E\<^sup>* `` set (cur # work) =
        insert cur (?E\<^sup>* `` set (feeds_of c cur)) \<union> ?E\<^sup>* `` set work"
      by auto
    then show ?thesis using False "2.IH"(2) [OF False sub] by auto
  qed
qed


lemma back_flow_phi:
  assumes "ssa (fn_insts fn)"
  shows "back_flow (buildDefUseChains fn) = (phi_flow fn)\<inverse>"
  by (auto simp: back_flow_def phi_flow_def feeds_of_def defining_iff [OF assms] split: option.splits)
     (metis defining_iff [OF assms] option.distinct(1), metis defining_iff [OF assms] option.inject)

lemma met_allocations_iff:
  assumes "ssa (fn_insts fn)"
  shows "a \<in> met_allocations (buildDefUseChains fn) S \<longleftrightarrow>
    (\<exists>d\<in>set (fn_insts fn). \<exists>v\<in>S. isAllocationOpcode (opcode d) \<and> result d = Some v \<and> a = iaddr d)"
  by (force simp: met_allocations_def set_map_filter defining_iff [OF assms] chains_defs image_iff)

text \<open>The allocations the phis of a list make escape.\<close>

definition phi_marks :: "hfunction \<Rightarrow> hinst list \<Rightarrow> iref set" where
  "phi_marks fn ps =
     {iaddr d | d v. d \<in> set (fn_insts fn) \<and> isAllocationOpcode (opcode d) \<and> result d = Some v \<and>
        (\<exists>p\<in>set ps. \<exists>r. opcode p = Phi \<and> result p = Some r \<and> leaks fn r \<and>
           (\<exists>x\<in>set (List.map_filter fst (phiIncoming p)). (v, x) \<in> (phi_flow fn)\<^sup>*))}"

lemma phi_marks_simps:
  "phi_marks fn [] = {}"
  "phi_marks fn (p # ps) = phi_marks fn [p] \<union> phi_marks fn ps"
  by (auto simp: phi_marks_def) blast+

lemma phi_marks_map:
  assumes "\<And>i. i \<in> set ps \<Longrightarrow> opcode (h i) = opcode i \<and> result (h i) = result i \<and> phiIncoming (h i) = phiIncoming i"
  shows "phi_marks fn (map h ps) = phi_marks fn ps"
  using assms by (auto simp: phi_marks_def)

lemma propagate_phi_marks:
  assumes ssa: "ssa (fn_insts fn)" and ac: "acyclic (copy_flow fn)" and n: "length (fn_insts fn) < n"
  shows "propagate_phi n (buildDefUseChains fn) p (ch, g) =
    Some (ch \<or> (\<exists>i\<in>set (fn_insts g). iaddr i \<in> phi_marks fn [p] \<and> \<not> escapes i),
          map_insts (marked (phi_marks fn [p])) g)"
proof -
  let ?c = "buildDefUseChains fn"
  let ?S = "phi_search ?c (rev (List.map_filter fst (phiIncoming p))) {}"
  have "?S = (back_flow ?c)\<^sup>* `` set (List.map_filter fst (phiIncoming p))"
    by (subst phi_search_reaches) simp_all
  then have S: "v \<in> ?S \<longleftrightarrow> (\<exists>x\<in>set (List.map_filter fst (phiIncoming p)). (v, x) \<in> (phi_flow fn)\<^sup>*)" for v
    by (auto simp: back_flow_phi [OF ssa] rtrancl_converse)
  have same: "map_insts (marked {}) g = g" by (rule map_insts_id) (simp add: marked_def)
  show ?thesis
  proof (cases "opcode p = Phi \<and> (\<exists>r. result p = Some r \<and> leaks fn r)")
    case True
    then obtain r where r: "opcode p = Phi" "result p = Some r" "leaks fn r" by blast
    have "phi_marks fn [p] = met_allocations ?c ?S"
      using r S by (auto simp: phi_marks_def met_allocations_iff [OF ssa]) blast+
    then show ?thesis using r
      by (simp add: propagate_phi_def value_escapes_returns [OF ac n] walk_marks)
  next
    case False
    then have "phi_marks fn [p] = {}" by (auto simp: phi_marks_def)
    then show ?thesis using False same
      by (auto simp: propagate_phi_def value_escapes_returns [OF ac n] split: option.split)
  qed
qed

lemma marked_marked: "map_insts (marked B) (map_insts (marked A) g) = map_insts (marked (A \<union> B)) g"
  by (auto simp: map_insts_comp marked_def intro!: map_insts_cong)

lemma phi_sweep_marks:
  assumes "ssa (fn_insts fn)" and "acyclic (copy_flow fn)" and "length (fn_insts fn) < n"
  shows "phi_sweep n (buildDefUseChains fn) ps (ch, g) =
    Some (ch \<or> (\<exists>i\<in>set (fn_insts g). iaddr i \<in> phi_marks fn ps \<and> \<not> escapes i),
          map_insts (marked (phi_marks fn ps)) g)"
proof (induction ps arbitrary: ch g)
  case Nil
  have "map_insts (marked {}) g = g" by (rule map_insts_id) (simp add: marked_def)
  then show ?case by (simp add: phi_marks_simps)
next
  case (Cons p ps)
  then show ?case
    by (auto simp: propagate_phi_marks [OF assms] marked_marked phi_marks_simps(2) [of fn p ps])
qed

lemma propagate_marks:
  assumes "ssa (fn_insts fn)" and "acyclic (copy_flow fn)" and "length (fn_insts fn) < n"
  shows "propagateEscapeThroughPhis n (buildDefUseChains fn) g =
    Some (map_insts (marked (phi_marks fn (fn_insts g))) g)"
proof -
  let ?M = "phi_marks fn (fn_insts g)" and ?c = "buildDefUseChains fn"
  let ?g = "map_insts (marked ?M) g"
  have same: "phi_marks fn (fn_insts ?g) = ?M"
    unfolding fn_insts_map by (rule phi_marks_map) (simp add: marked_def)
  have "phi_sweep n ?c (fn_insts ?g) (False, ?g) = Some (False, ?g)"
    unfolding phi_sweep_marks [OF assms] same by (auto simp: marked_marked)
  then have "propagateEscapeThroughPhis n ?c ?g = Some ?g"
    by (subst propagateEscapeThroughPhis.simps) simp
  then show ?thesis
    by (subst propagateEscapeThroughPhis.simps) (simp add: phi_sweep_marks [OF assms])
qed


section \<open>The allocations\<close>

definition alloc_flags :: "hfunction \<Rightarrow> hinst \<Rightarrow> hinst" where
  "alloc_flags fn i =
     (case result i of
        Some v \<Rightarrow>
          if \<not> isAllocationOpcode (opcode i) then i
          else if objectShape i \<noteq> None \<and> canScalarReplace (buildDefUseChains fn) v
          then i\<lparr>escapes := False, scalarReplaceable := True\<rparr>
          else i\<lparr>escapes := leaks fn v\<rparr>
      | None \<Rightarrow> i)"

definition alloc_reports :: "hfunction \<Rightarrow> hinst \<Rightarrow> bool" where
  "alloc_reports fn i \<longleftrightarrow> isAllocationOpcode (opcode i) \<and>
     (\<exists>v. result i = Some v \<and> (escapes i \<noteq> leaks fn v \<or>
        objectShape i \<noteq> None \<and> canScalarReplace (buildDefUseChains fn) v))"

lemma alloc_flags_sel [simp]:
  "iaddr (alloc_flags fn i) = iaddr i" "opcode (alloc_flags fn i) = opcode i"
  "result (alloc_flags fn i) = result i" "phiIncoming (alloc_flags fn i) = phiIncoming i"
  by (simp_all add: alloc_flags_def split: option.split)

lemma check_allocs:
  assumes "acyclic (copy_flow fn)" and "length (fn_insts fn) < n"
  shows "walk_fn (check_alloc n (buildDefUseChains fn)) (Some ch) fn =
    (Some (ch \<or> (\<exists>i\<in>set (fn_insts fn). alloc_reports fn i)), map_insts (alloc_flags fn) fn)"
proof (rule walk_fn_flagged)
  fix s i
  show "check_alloc n (buildDefUseChains fn) (Some s) i = (Some (s \<or> alloc_reports fn i), alloc_flags fn i)"
  proof (cases "result i")
    case (Some v)
    show ?thesis
      using Some value_escapes_returns [OF assms, of v]
      by (cases "leaks fn v"; cases "escapes i")
         (simp_all add: check_alloc_def flag_alloc_def alloc_flags_def alloc_reports_def)
  qed (simp add: check_alloc_def alloc_flags_def alloc_reports_def)
qed

lemma phi_leaks_iff:
  assumes ssa: "ssa (fn_insts fn)" and addrs: "distinct (map iaddr (fn_insts fn))"
    and i: "i \<in> set (fn_insts fn)"
  shows "iaddr i \<in> phi_marks fn (fn_insts fn) \<longleftrightarrow>
    isAllocationOpcode (opcode i) \<and> (\<exists>v. result i = Some v \<and> phi_leaks fn v)"
proof -
  have here: "d = i" if "d \<in> set (fn_insts fn)" "iaddr i = iaddr d" for d
    using that i addrs by (auto simp: distinct_map dest: inj_onD)
  have entry: "x \<in> set (List.map_filter fst (phiIncoming p)) \<longleftrightarrow> (x, r) \<in> phi_flow fn"
    if p: "p \<in> set (fn_insts fn)" "opcode p = Phi" "result p = Some r" for p r x
  proof -
    have "set (feeding p) = set (List.map_filter fst (phiIncoming p))"
      using p by (simp add: feeding_def isAllocationOpcode_def allocation_ops_def)
    moreover have "(x, r) \<in> phi_flow fn \<longleftrightarrow> x \<in> set (feeding p)"
      unfolding phi_flow_def using p ssa_unique [OF ssa _ p(1) _ p(3)] by blast
    ultimately show ?thesis by simp
  qed
  have last: "(v, r) \<in> (phi_flow fn)\<^sup>+ \<longleftrightarrow> (\<exists>x. (v, x) \<in> (phi_flow fn)\<^sup>* \<and> (x, r) \<in> phi_flow fn)" for v r
    by (auto dest: tranclD2 intro: rtrancl_into_trancl1)
  have mark: "iaddr i \<in> {iaddr d | d v. d \<in> set (fn_insts fn) \<and> isAllocationOpcode (opcode d) \<and>
      result d = Some v \<and> Q v} \<longleftrightarrow> isAllocationOpcode (opcode i) \<and> (\<exists>v. result i = Some v \<and> Q v)" for Q
    using i here by blast
  have "(\<exists>x\<in>set (List.map_filter fst (phiIncoming p)). (v, x) \<in> (phi_flow fn)\<^sup>*) \<longleftrightarrow> (v, r) \<in> (phi_flow fn)\<^sup>+"
    if "p \<in> set (fn_insts fn)" "opcode p = Phi" "result p = Some r" for p r v
    unfolding last using entry [OF that] by blast
  then have "(\<exists>p\<in>set (fn_insts fn). \<exists>r. opcode p = Phi \<and> result p = Some r \<and> leaks fn r \<and>
      (\<exists>x\<in>set (List.map_filter fst (phiIncoming p)). (v, x) \<in> (phi_flow fn)\<^sup>*)) \<longleftrightarrow> phi_leaks fn v" for v
    unfolding phi_leaks_def by (intro bex_cong refl ex_cong) auto
  then show ?thesis unfolding phi_marks_def mark by simp
qed

lemma feeding_uses:
  assumes "v \<in> set (feeding d)"
  shows "v \<in> set (inst_uses d)" and "opcode d = Phi \<or> opcode d \<in> pass_through_ops"
proof -
  show op: "opcode d = Phi \<or> opcode d \<in> pass_through_ops"
  proof (rule ccontr)
    assume "\<not> (opcode d = Phi \<or> opcode d \<in> pass_through_ops)"
    then have "feeding d = []" by (simp add: feeding_def)
    with assms show False by simp
  qed
  show "v \<in> set (inst_uses d)"
  proof (cases "opcode d = Phi")
    case True
    then show ?thesis using assms by (cases "isAllocationOpcode Phi") (simp_all add: feeding_def inst_uses_def)
  next
    case False
    have "isAllocationOpcode (opcode d) \<Longrightarrow> feeding d = []" by (simp add: feeding_def)
    then have "\<not> isAllocationOpcode (opcode d)" using assms by (metis empty_iff list.set(1))
    with False op have "feeding d =
        (case operands d of [] \<Rightarrow> [] | x # _ \<Rightarrow> (case op_val x of None \<Rightarrow> [] | Some v \<Rightarrow> [v]))"
      by (simp add: feeding_def)
    then obtain x xs where "operands d = x # xs" "op_val x = Some v"
      using assms by (cases "operands d") (auto split: option.splits)
    then show ?thesis by (simp add: inst_uses_def List.map_filter_simps)
  qed
qed

text \<open>An object whose uses are its own property accesses feeds no phi.\<close>

lemma replaceable_not_phi:
  assumes "canScalarReplace (buildDefUseChains fn) v"
  shows "\<not> phi_leaks fn v"
proof
  assume "phi_leaks fn v"
  then obtain w where "(v, w) \<in> phi_flow fn" by (auto simp: phi_leaks_def dest: tranclD)
  then obtain d where d: "d \<in> set (fn_insts fn)" "v \<in> set (feeding d)" by (auto simp: phi_flow_def)
  note op = feeding_uses(2) [OF d(2)]
  have "v \<in> set (inst_uses d)" by (rule feeding_uses(1) [OF d(2)])
  then have "d \<in> set (useMap (buildDefUseChains fn) v)" using d(1) by (simp add: chains_uses uses_in_def)
  then have "replaceable_use (buildDefUseChains fn) v d"
    using assms by (auto simp: canScalarReplace_def list_all_iff)
  then show False using op by (auto simp: replaceable_use_def pass_through_ops_def)
qed

text \<open>The functions the pass works on, as \<open>ASTToHIR\<close> builds them.\<close>

definition analysable :: "hfunction \<Rightarrow> bool" where
  "analysable fn \<longleftrightarrow> \<not> isAsync fn \<and> \<not> isGenerator fn \<and> ssa (fn_insts fn) \<and>
     distinct (map iaddr (fn_insts fn)) \<and> acyclic (copy_flow fn)"

lemma escape_flags:
  assumes "analysable fn"
  shows "ea_runOnFunction fn =
    Some (result_of (list_ex (alloc_reports fn) (fn_insts fn)), map_insts (with_flags fn) fn)"
proof -
  from assms have ssa: "ssa (fn_insts fn)" and addrs: "distinct (map iaddr (fn_insts fn))"
    and acyclic: "acyclic (copy_flow fn)" and plain: "\<not> isAsync fn" "\<not> isGenerator fn"
    by (simp_all add: analysable_def)
  let ?n = "Suc (length (fn_insts fn))" and ?c = "buildDefUseChains fn"
  let ?g = "map_insts (alloc_flags fn) fn"
  have M: "phi_marks fn (fn_insts ?g) = phi_marks fn (fn_insts fn)"
    unfolding fn_insts_map by (rule phi_marks_map) simp
  have "marked (phi_marks fn (fn_insts fn)) (alloc_flags fn i) = with_flags fn i"
    if "i \<in> set (fn_insts fn)" for i
    using phi_leaks_iff [OF ssa addrs that] replaceable_not_phi [of fn]
    by (auto simp: marked_def alloc_flags_def with_flags_def split: option.split)
  then have "map_insts (marked (phi_marks fn (fn_insts fn))) ?g = map_insts (with_flags fn) fn"
    by (auto simp: map_insts_comp intro!: map_insts_cong)
  then have "propagateEscapeThroughPhis ?n ?c ?g = Some (map_insts (with_flags fn) fn)"
    using propagate_marks [OF ssa acyclic, of ?n ?g] M by simp
  then show ?thesis
    using plain check_allocs [OF acyclic, of ?n False]
    by (simp add: ea_runOnFunction_def Let_def list_ex_iff)
qed


section \<open>Examples\<close>

definition ea_inst :: "nat \<Rightarrow> hiropcode \<Rightarrow> vref option \<Rightarrow> vref list \<Rightarrow> hinst" where
  "ea_inst a op r vs = (mk_inst op a)\<lparr>result := r, operands := map (\<lambda>v. OVal (Some v)) vs\<rparr>"

definition ea_phi :: "nat \<Rightarrow> vref \<Rightarrow> vref list \<Rightarrow> hinst" where
  "ea_phi a r vs = (mk_inst Phi a)\<lparr>result := Some r, phiIncoming := map (\<lambda>v. (Some v, Some 0)) vs\<rparr>"

definition ea_fn :: "hinst list \<Rightarrow> hfunction" where
  "ea_fn is = \<lparr>fn_name = ''f'', mangledName = ''f'', fn_returnType = None, fn_params = [],
     blocks = [\<lparr>baddr = 0, blk_label = ''entry'', blk_params = [], instructions = is,
       predecessors = [], successors = []\<rparr>],
     captures = [], isAsync = False, isGenerator = False, nextValueId = 10\<rparr>"

lemma map_filter_inverse [simp]:
  "List.map_filter op_val (map (\<lambda>v. OVal (Some v)) vs) = vs"
  "List.map_filter fst (map (\<lambda>v. (Some v, b)) vs) = vs"
  by (induction vs) (simp_all add: List.map_filter_simps)

lemma ea_inst_sel [simp]:
  "iaddr (ea_inst a op r vs) = a" "opcode (ea_inst a op r vs) = op" "result (ea_inst a op r vs) = r"
  "operands (ea_inst a op r vs) = map (\<lambda>v. OVal (Some v)) vs" "phiIncoming (ea_inst a op r vs) = []"
  "objectShape (ea_inst a op r vs) = None" "inst_uses (ea_inst a op r vs) = vs" "escapes (ea_inst a op r vs)"
  by (simp_all add: ea_inst_def mk_inst_def inst_uses_def List.map_filter_simps)

lemma ea_phi_sel [simp]:
  "iaddr (ea_phi a r vs) = a" "opcode (ea_phi a r vs) = Phi" "result (ea_phi a r vs) = Some r"
  "operands (ea_phi a r vs) = []" "inst_uses (ea_phi a r vs) = vs" "escapes (ea_phi a r vs)"
  "List.map_filter fst (phiIncoming (ea_phi a r vs)) = vs"
  by (simp_all add: ea_phi_def mk_inst_def inst_uses_def List.map_filter_simps)

lemma ea_fn_sel [simp]:
  "fn_insts (ea_fn is) = is" "\<not> isAsync (ea_fn is)" "\<not> isGenerator (ea_fn is)"
  "map_insts h (ea_fn is) = ea_fn (map h is)"
  by (simp_all add: ea_fn_def fn_insts_def map_insts_def)

text \<open>A single block is analysable when every copy has a later number than its operands.\<close>

lemma analysable_ea:
  assumes "ssa is" and "distinct (map iaddr is)"
    and "list_all (\<lambda>i. opcode i \<in> copy_ops \<longrightarrow>
      (case result i of None \<Rightarrow> True | Some r \<Rightarrow> list_all (\<lambda>v. v < r) (inst_uses i))) is"
  shows "analysable (ea_fn is)"
proof -
  have "v < r" if "(v, r) \<in> copy_flow (ea_fn is)" for v r
    using that assms(3) by (fastforce simp: copy_flow_def uses_in_def list_all_iff)
  then have "acyclic (copy_flow (ea_fn is))"
    by (intro acyclicI_order [where f = "\<lambda>v. - int v"]) auto
  then show ?thesis using assms by (simp add: analysable_def)
qed

lemma leaks_list:
  "leaks fn v \<longleftrightarrow> list_ex (\<lambda>i. v \<in> set (inst_uses i) \<and>
     (if opcode i \<in> copy_ops then (case result i of None \<Rightarrow> False | Some r \<Rightarrow> leaks fn r)
      else use_leaks i v)) (fn_insts fn)"
  by (subst leaks_unfold) (auto simp: uses_in_def list_ex_iff)

lemma no_phi_leaks: "list_all (\<lambda>d. v \<notin> set (feeding d)) (fn_insts fn) \<Longrightarrow> \<not> phi_leaks fn v"
  by (auto simp: phi_leaks_def phi_flow_def list_all_iff dest!: tranclD)

lemma flags_of_ea:
  "analysable (ea_fn is) \<Longrightarrow> ea_runOnFunction (ea_fn is) =
     Some (result_of (list_ex (alloc_reports (ea_fn is)) is), ea_fn (map (with_flags (ea_fn is)) is))"
  by (simp add: escape_flags)


lemmas flow_simps = copy_ops_def use_leaks_def leaving_ops_def call_ops_def safe_ops_def operand_is_def
lemmas flag_simps = with_flags_def alloc_reports_def isAllocationOpcode_def allocation_ops_def


text \<open>Two objects; the first is copied and the copy returned, the second is only read.\<close>

definition ea_example :: "hinst list" where
  "ea_example = [ea_inst 0 NewObjectDynamic (Some 0) [], ea_inst 1 NewObjectDynamic (Some 1) [],
     ea_inst 2 Copy (Some 2) [0], ea_inst 3 GetPropDynamic (Some 3) [1, 2], ea_inst 4 Return None [2]]"

lemma ea_example_ok: "analysable (ea_fn ea_example)"
  by (rule analysable_ea) (simp_all add: ea_example_def ssa_def copy_ops_def)

lemma ea_example_leaks:
  "leaks (ea_fn ea_example) 0" "\<not> leaks (ea_fn ea_example) (Suc 0)"
  "\<not> phi_leaks (ea_fn ea_example) (Suc 0)"
proof -
  have "leaks (ea_fn ea_example) 2" by (subst leaks_list) (simp add: ea_example_def flow_simps)
  then show "leaks (ea_fn ea_example) 0" by (subst leaks_list) (simp add: ea_example_def flow_simps)
  show "\<not> leaks (ea_fn ea_example) (Suc 0)" by (subst leaks_list) (simp add: ea_example_def flow_simps)
  show "\<not> phi_leaks (ea_fn ea_example) (Suc 0)"
    by (rule no_phi_leaks) (simp add: ea_example_def feeding_def pass_through_ops_def)
qed



section \<open>What the analysis misses\<close>

text \<open>An object is made, one instruction works on it, and the result of that is returned.\<close>

definition returned_through :: "hiropcode \<Rightarrow> vref list \<Rightarrow> hinst list" where
  "returned_through op vs = [ea_inst 0 NewObjectDynamic (Some 0) [], ea_inst 1 op (Some 2) vs,
     ea_inst 2 Return None [2]]"

text \<open>The result of a select on the object comes through a phi.\<close>

definition returned_by_phi :: "hinst list" where
  "returned_by_phi = [ea_inst 0 NewObjectDynamic (Some 0) [], ea_inst 1 Select (Some 2) [1, 0, 1],
     ea_phi 2 3 [2], ea_inst 3 Return None [3]]"

text \<open>The flag \<open>escapes\<close> of the first instruction after the pass.\<close>

definition object_escapes :: "hinst list \<Rightarrow> bool option" where
  "object_escapes is =
     map_option (\<lambda>(r, fn). escapes (hd (fn_insts fn))) (ea_runOnFunction (ea_fn is))"

lemma object_escapes_new:
  assumes "analysable (ea_fn is)" and "is = ea_inst 0 NewObjectDynamic (Some 0) [] # is'"
  shows "object_escapes is = Some (leaks (ea_fn is) 0 \<or> phi_leaks (ea_fn is) 0)"
  by (simp add: object_escapes_def flags_of_ea [OF assms(1)]) (simp add: assms(2) flag_simps)

lemma through_ok:
  "2 \<notin> set vs \<Longrightarrow> list_all (\<lambda>v. v < 2) vs \<Longrightarrow> analysable (ea_fn (returned_through op vs))"
  by (rule analysable_ea) (simp_all add: returned_through_def ssa_def copy_ops_def)

lemma no_phi_in: "list_all (\<lambda>d. opcode d \<noteq> Phi) (fn_insts fn) \<Longrightarrow> \<not> phi_leaks fn v"
  by (auto simp: phi_leaks_def list_all_iff)

text \<open>
  C40. Results that carry the object itself are not all followed. The pass sees that a copied
  object leaves the function when the copy is returned. But a logical or, whose lowering selects
  one of its operands, and a boxing count as uses that keep the object inside, and a select in
  front of a phi ends the search: the object they return is marked as living on the stack.
\<close>

theorem escape_results_missed:
  "object_escapes (returned_through Copy [0]) = Some True \<and>
   object_escapes (returned_through LogicalOr [1, 0]) = Some False \<and>
   object_escapes (returned_through BoxObject [0]) = Some False \<and>
   object_escapes returned_by_phi = Some False"
proof -
  have two: "leaks (ea_fn (returned_through op vs)) 2" if "2 \<notin> set vs" for op vs
    by (subst leaks_list) (use that in \<open>simp add: returned_through_def flow_simps\<close>)
  have new: "object_escapes (returned_through op vs) = Some (leaks (ea_fn (returned_through op vs)) 0)"
    if "2 \<notin> set vs" "list_all (\<lambda>v. v < 2) vs" "op \<noteq> Phi" for op vs
    using object_escapes_new [OF through_ok [OF that(1,2)], of op] that(3)
      no_phi_in [of "ea_fn (returned_through op vs)" 0] by (simp add: returned_through_def)
  have "leaks (ea_fn (returned_through Copy [0])) 0"
    using two [of "[0]" Copy] by (subst leaks_list) (simp add: returned_through_def flow_simps)
  then have copied: "object_escapes (returned_through Copy [0]) = Some True" by (simp add: new)
  have "\<not> leaks (ea_fn (returned_through LogicalOr [1, 0])) 0"
    by (subst leaks_list) (simp add: returned_through_def flow_simps)
  then have chosen: "object_escapes (returned_through LogicalOr [1, 0]) = Some False" by (simp add: new)
  have "\<not> leaks (ea_fn (returned_through BoxObject [0])) 0"
    by (subst leaks_list) (simp add: returned_through_def flow_simps)
  then have boxed: "object_escapes (returned_through BoxObject [0]) = Some False" by (simp add: new)
  have "\<not> leaks (ea_fn returned_by_phi) 2"
    by (subst leaks_list) (simp add: returned_by_phi_def flow_simps)
  then have "\<not> leaks (ea_fn returned_by_phi) 0"
    by (subst leaks_list) (simp add: returned_by_phi_def flow_simps)
  moreover have "\<not> phi_leaks (ea_fn returned_by_phi) 0"
    by (rule no_phi_leaks) (simp add: returned_by_phi_def feeding_def pass_through_ops_def isAllocationOpcode_def allocation_ops_def)
  moreover have "analysable (ea_fn returned_by_phi)"
    by (rule analysable_ea) (simp_all add: returned_by_phi_def ssa_def copy_ops_def)
  ultimately have "object_escapes returned_by_phi = Some False"
    using object_escapes_new [of returned_by_phi] by (simp add: returned_by_phi_def)
  with copied chosen boxed show ?thesis by blast
qed

text \<open>The third phase does not report: here it raises the flag of an object that the compiler's
  front end had put on the stack, and the pass answers that nothing changed.\<close>

definition late_example :: "hinst list" where
  "late_example = [(ea_inst 0 NewObjectDynamic (Some 0) [])\<lparr>escapes := False\<rparr>, ea_phi 1 1 [0],
     ea_inst 2 Return None [1]]"

lemma late_sel [simp]:
  "iaddr (i\<lparr>escapes := b\<rparr>) = iaddr i" "opcode (i\<lparr>escapes := b\<rparr>) = opcode i"
  "result (i\<lparr>escapes := b\<rparr>) = result i" "inst_uses (i\<lparr>escapes := b\<rparr>) = inst_uses i"
  by (simp_all add: inst_uses_def)

lemma escape_change_unreported:
  "ea_runOnFunction (ea_fn late_example) = Some (unchanged, ea_fn (map (with_flags (ea_fn late_example)) late_example))"
  "with_flags (ea_fn late_example) (hd late_example) \<noteq> hd late_example"
proof -
  have ok: "analysable (ea_fn late_example)"
    by (rule analysable_ea) (simp_all add: late_example_def ssa_def copy_ops_def)
  have no: "\<not> leaks (ea_fn late_example) 0"
    by (subst leaks_list) (simp add: late_example_def flow_simps)
  have one: "leaks (ea_fn late_example) 1"
    by (subst leaks_list) (simp add: late_example_def flow_simps)
  have "(0, 1) \<in> phi_flow (ea_fn late_example)"
  proof -
    have "feeding (ea_phi 1 1 [0]) = [0]" by (simp add: feeding_def isAllocationOpcode_def allocation_ops_def)
    then show ?thesis by (simp add: phi_flow_def late_example_def)
  qed
  then have "phi_leaks (ea_fn late_example) 0"
    using one by (auto simp: phi_leaks_def late_example_def)
  then show "with_flags (ea_fn late_example) (hd late_example) \<noteq> hd late_example"
    by (auto simp: late_example_def flag_simps dest: arg_cong [where f = escapes])
  have "\<not> list_ex (alloc_reports (ea_fn late_example)) late_example"
    using no by (simp add: list_ex_iff flag_simps) (simp add: late_example_def)
  then show "ea_runOnFunction (ea_fn late_example) =
      Some (unchanged, ea_fn (map (with_flags (ea_fn late_example)) late_example))"
    by (simp add: flags_of_ea [OF ok] result_of_def)
qed

end
