(* ===== verification/BuiltinRegistry.thy ===== *)
theory BuiltinRegistry
  imports HIR
begin

text \<open>
  The registry of builtin methods and functions, \<open>src/src/compiler/hir/BuiltinRegistry.cpp\<close> and
  \<open>BuiltinRegistry.h\<close>. The constructor of the singleton fills three tables; each
  \<open>register...\<close> function of the source is the list of its assignments here, in order. A later
  assignment to a key replaces an earlier one, so a lookup takes the last.
\<close>

section \<open>Resolutions\<close>

datatype method_kind = HIROpcode | RuntimeCall | Dynamic

record method_resolution =
  mr_kind :: method_kind
  mr_opcode :: hiropcode
  mr_function :: string
  mr_expectedArgCount :: int
  mr_returnType :: "htype option"

definition makeDynamic :: method_resolution where
  "makeDynamic = \<lparr>mr_kind = Dynamic, mr_opcode = Call, mr_function = [],
     mr_expectedArgCount = -1, mr_returnType = None\<rparr>"

definition makeOpcode :: "hiropcode \<Rightarrow> htype option \<Rightarrow> method_resolution" where
  "makeOpcode op t = makeDynamic\<lparr>mr_kind := HIROpcode, mr_opcode := op, mr_returnType := t\<rparr>"

definition makeRuntimeCall :: "string \<Rightarrow> int \<Rightarrow> htype option \<Rightarrow> method_resolution" where
  "makeRuntimeCall f n t = makeDynamic\<lparr>mr_kind := RuntimeCall, mr_function := f,
     mr_expectedArgCount := n, mr_returnType := t\<rparr>"

datatype builtin_kind = BuiltinCall | Inline | Unknown

record builtin_resolution =
  br_kind :: builtin_kind
  br_function :: "string option"
  br_returnType :: "htype option"

definition makeUnknown :: builtin_resolution where
  "makeUnknown = \<lparr>br_kind = Unknown, br_function = None, br_returnType = None\<rparr>"

definition makeInline :: builtin_resolution where
  "makeInline = makeUnknown\<lparr>br_kind := Inline\<rparr>"

definition makeBuiltinCall :: "string \<Rightarrow> htype option \<Rightarrow> builtin_resolution" where
  "makeBuiltinCall f t = \<lparr>br_kind = BuiltinCall, br_function = Some f, br_returnType = t\<rparr>"

abbreviation array_of :: "htype \<Rightarrow> htype" where
  "array_of t \<equiv> makeArray (Some t) False"

type_synonym method_table = "((htkind \<times> string) \<times> method_resolution) list"
type_synonym global_table = "((string \<times> string) \<times> builtin_resolution) list"

section \<open>The tables\<close>

definition registerArrayMethods :: method_table where
  "registerArrayMethods =
    [((KArray, ''push''), makeOpcode ArrayPush (Some (mkType KInt64))),
     ((KArray, ''length''), makeOpcode ArrayLength (Some (mkType KInt64))),
     ((KArray, ''pop''), makeRuntimeCall ''ts_array_pop'' 0 (Some (mkType KAny))),
     ((KArray, ''shift''), makeRuntimeCall ''ts_array_shift'' 0 (Some (mkType KAny))),
     ((KArray, ''unshift''), makeRuntimeCall ''ts_array_unshift'' (-1) (Some (mkType KInt64))),
     ((KArray, ''reverse''), makeRuntimeCall ''ts_array_reverse'' 0 (Some (array_of (mkType KAny)))),
     ((KArray, ''sort''), makeRuntimeCall ''ts_array_sort'' (-1) (Some (array_of (mkType KAny)))),
     ((KArray, ''splice''), makeRuntimeCall ''ts_array_splice'' (-1) (Some (array_of (mkType KAny)))),
     ((KArray, ''fill''), makeRuntimeCall ''ts_array_fill'' (-1) (Some (array_of (mkType KAny)))),
     ((KArray, ''copyWithin''), makeRuntimeCall ''ts_array_copyWithin'' (-1) (Some (array_of (mkType KAny)))),
     ((KArray, ''join''), makeRuntimeCall ''ts_array_join'' (-1) (Some (mkType KString))),
     ((KArray, ''toLocaleString''), makeRuntimeCall ''ts_array_toLocaleString'' 0 (Some (mkType KString))),
     ((KArray, ''indexOf''), makeRuntimeCall ''ts_array_indexOf'' (-1) (Some (mkType KInt64))),
     ((KArray, ''lastIndexOf''), makeRuntimeCall ''ts_array_lastIndexOf'' (-1) (Some (mkType KInt64))),
     ((KArray, ''includes''), makeRuntimeCall ''ts_array_includes'' (-1) (Some (mkType KBool))),
     ((KArray, ''slice''), makeRuntimeCall ''ts_array_slice'' (-1) (Some (array_of (mkType KAny)))),
     ((KArray, ''concat''), makeRuntimeCall ''ts_array_concat'' (-1) (Some (array_of (mkType KAny)))),
     ((KArray, ''flat''), makeRuntimeCall ''ts_array_flat'' (-1) (Some (array_of (mkType KAny)))),
     ((KArray, ''at''), makeRuntimeCall ''ts_array_at'' 1 (Some (mkType KAny))),
     ((KArray, ''toReversed''), makeRuntimeCall ''ts_array_toReversed'' 0 (Some (array_of (mkType KAny)))),
     ((KArray, ''toSorted''), makeRuntimeCall ''ts_array_toSorted'' (-1) (Some (array_of (mkType KAny)))),
     ((KArray, ''toSpliced''), makeRuntimeCall ''ts_array_toSpliced'' (-1) (Some (array_of (mkType KAny)))),
     ((KArray, ''with''), makeRuntimeCall ''ts_array_with'' 2 (Some (array_of (mkType KAny)))),
     ((KArray, ''entries''), makeRuntimeCall ''ts_array_entries_iter'' 0 (Some (mkType KObject))),
     ((KArray, ''keys''), makeRuntimeCall ''ts_array_keys_iter'' 0 (Some (mkType KObject))),
     ((KArray, ''values''), makeRuntimeCall ''ts_array_values_iter'' 0 (Some (mkType KObject))),
     ((KArray, ''map''), makeRuntimeCall ''ts_array_map'' (-1) (Some (array_of (mkType KAny)))),
     ((KArray, ''filter''), makeRuntimeCall ''ts_array_filter'' (-1) (Some (array_of (mkType KAny)))),
     ((KArray, ''reduce''), makeRuntimeCall ''ts_array_reduce'' (-1) (Some (mkType KAny))),
     ((KArray, ''reduceRight''), makeRuntimeCall ''ts_array_reduceRight'' (-1) (Some (mkType KAny))),
     ((KArray, ''forEach''), makeRuntimeCall ''ts_array_forEach'' (-1) (Some (mkType KVoid))),
     ((KArray, ''find''), makeRuntimeCall ''ts_array_find'' (-1) (Some (mkType KAny))),
     ((KArray, ''findIndex''), makeRuntimeCall ''ts_array_findIndex'' (-1) (Some (mkType KInt64))),
     ((KArray, ''findLast''), makeRuntimeCall ''ts_array_findLast'' (-1) (Some (mkType KAny))),
     ((KArray, ''findLastIndex''), makeRuntimeCall ''ts_array_findLastIndex'' (-1) (Some (mkType KInt64))),
     ((KArray, ''some''), makeRuntimeCall ''ts_array_some'' (-1) (Some (mkType KBool))),
     ((KArray, ''every''), makeRuntimeCall ''ts_array_every'' (-1) (Some (mkType KBool))),
     ((KArray, ''flatMap''), makeRuntimeCall ''ts_array_flatMap'' (-1) (Some (array_of (mkType KAny))))]"

definition registerArrayStaticMethods :: global_table where
  "registerArrayStaticMethods =
    [((''Array'', ''isArray''), makeBuiltinCall ''ts_array_isArray'' (Some (mkType KBool))),
     ((''Array'', ''from''), makeBuiltinCall ''ts_array_from'' (Some (array_of (mkType KAny)))),
     ((''Array'', ''of''), makeBuiltinCall ''ts_array_of'' (Some (array_of (mkType KAny))))]"

definition registerStringMethods :: method_table where
  "registerStringMethods =
    [((KString, ''charAt''), makeRuntimeCall ''ts_string_charAt'' 1 (Some (mkType KString))),
     ((KString, ''charCodeAt''), makeRuntimeCall ''ts_string_charCodeAt'' 1 (Some (mkType KFloat64))),
     ((KString, ''codePointAt''), makeRuntimeCall ''ts_string_codePointAt'' 1 (Some (mkType KAny))),
     ((KString, ''at''), makeRuntimeCall ''ts_string_at'' 1 (Some (mkType KString))),
     ((KString, ''substring''), makeRuntimeCall ''ts_string_substring'' (-1) (Some (mkType KString))),
     ((KString, ''substr''), makeRuntimeCall ''ts_string_substr'' (-1) (Some (mkType KString))),
     ((KString, ''slice''), makeRuntimeCall ''ts_string_slice'' (-1) (Some (mkType KString))),
     ((KString, ''indexOf''), makeRuntimeCall ''ts_string_indexOf'' (-1) (Some (mkType KInt64))),
     ((KString, ''lastIndexOf''), makeRuntimeCall ''ts_string_lastIndexOf'' (-1) (Some (mkType KInt64))),
     ((KString, ''includes''), makeRuntimeCall ''ts_string_includes'' (-1) (Some (mkType KBool))),
     ((KString, ''startsWith''), makeRuntimeCall ''ts_string_startsWith'' (-1) (Some (mkType KBool))),
     ((KString, ''endsWith''), makeRuntimeCall ''ts_string_endsWith'' (-1) (Some (mkType KBool))),
     ((KString, ''toLowerCase''), makeRuntimeCall ''ts_string_toLowerCase'' 0 (Some (mkType KString))),
     ((KString, ''toUpperCase''), makeRuntimeCall ''ts_string_toUpperCase'' 0 (Some (mkType KString))),
     ((KString, ''toLocaleLowerCase''), makeRuntimeCall ''ts_string_toLocaleLowerCase'' (-1) (Some (mkType KString))),
     ((KString, ''toLocaleUpperCase''), makeRuntimeCall ''ts_string_toLocaleUpperCase'' (-1) (Some (mkType KString))),
     ((KString, ''trim''), makeRuntimeCall ''ts_string_trim'' 0 (Some (mkType KString))),
     ((KString, ''trimStart''), makeRuntimeCall ''ts_string_trimStart'' 0 (Some (mkType KString))),
     ((KString, ''trimEnd''), makeRuntimeCall ''ts_string_trimEnd'' 0 (Some (mkType KString))),
     ((KString, ''trimLeft''), makeRuntimeCall ''ts_string_trimStart'' 0 (Some (mkType KString))),
     ((KString, ''trimRight''), makeRuntimeCall ''ts_string_trimEnd'' 0 (Some (mkType KString))),
     ((KString, ''padStart''), makeRuntimeCall ''ts_string_padStart'' (-1) (Some (mkType KString))),
     ((KString, ''padEnd''), makeRuntimeCall ''ts_string_padEnd'' (-1) (Some (mkType KString))),
     ((KString, ''split''), makeRuntimeCall ''ts_string_split'' (-1) (Some (array_of (mkType KString)))),
     ((KString, ''repeat''), makeRuntimeCall ''ts_string_repeat'' 1 (Some (mkType KString))),
     ((KString, ''replace''), makeRuntimeCall ''ts_string_replace'' 2 (Some (mkType KString))),
     ((KString, ''replaceAll''), makeRuntimeCall ''ts_string_replaceAll'' 2 (Some (mkType KString))),
     ((KString, ''normalize''), makeRuntimeCall ''ts_string_normalize'' (-1) (Some (mkType KString))),
     ((KString, ''isWellFormed''), makeRuntimeCall ''ts_string_isWellFormed'' 0 (Some (mkType KBool))),
     ((KString, ''toWellFormed''), makeRuntimeCall ''ts_string_toWellFormed'' 0 (Some (mkType KString))),
     ((KString, ''match''), makeRuntimeCall ''ts_string_match_regexp'' 1 None),
     ((KString, ''matchAll''), makeRuntimeCall ''ts_string_matchAll_regexp'' 1 None),
     ((KString, ''search''), makeRuntimeCall ''ts_string_search'' 1 None)]"

definition registerStringStaticMethods :: global_table where
  "registerStringStaticMethods =
    [((''String'', ''fromCharCode''), makeBuiltinCall ''ts_string_fromCharCode'' (Some (mkType KString))),
     ((''String'', ''fromCodePoint''), makeBuiltinCall ''ts_string_fromCodePoint'' (Some (mkType KString)))]"

definition registerNumberStaticMethods :: global_table where
  "registerNumberStaticMethods =
    [((''Number'', ''isNaN''), makeBuiltinCall ''ts_number_isNaN'' (Some (mkType KBool))),
     ((''Number'', ''isFinite''), makeBuiltinCall ''ts_number_isFinite'' (Some (mkType KBool))),
     ((''Number'', ''isInteger''), makeBuiltinCall ''ts_number_isInteger'' (Some (mkType KBool))),
     ((''Number'', ''isSafeInteger''), makeBuiltinCall ''ts_number_isSafeInteger'' (Some (mkType KBool))),
     ((''Number'', ''parseInt''), makeBuiltinCall ''ts_number_parseInt'' (Some (mkType KInt64))),
     ((''Number'', ''parseFloat''), makeBuiltinCall ''ts_number_parseFloat'' (Some (mkType KFloat64))),
     (([], ''parseInt''), makeBuiltinCall ''ts_number_parseInt'' (Some (mkType KInt64))),
     (([], ''parseFloat''), makeBuiltinCall ''ts_number_parseFloat'' (Some (mkType KFloat64))),
     (([], ''isNaN''), makeBuiltinCall ''ts_number_isNaN'' (Some (mkType KBool))),
     (([], ''isFinite''), makeBuiltinCall ''ts_number_isFinite'' (Some (mkType KBool)))]"

definition registerObjectMethods :: global_table where
  "registerObjectMethods =
    [((''Object'', ''keys''), makeBuiltinCall ''ts_object_keys'' (Some (array_of (mkType KString)))),
     ((''Object'', ''values''), makeBuiltinCall ''ts_object_values'' (Some (array_of (mkType KAny)))),
     ((''Object'', ''entries''), makeBuiltinCall ''ts_object_entries'' (Some (array_of (mkType KAny)))),
     ((''Object'', ''assign''), makeBuiltinCall ''ts_object_assign'' (Some (mkType KObject))),
     ((''Object'', ''hasOwn''), makeBuiltinCall ''ts_object_has_own'' (Some (mkType KBool))),
     ((''Object'', ''fromEntries''), makeBuiltinCall ''ts_object_from_entries'' (Some (mkType KObject))),
     ((''Object'', ''getOwnPropertyNames''), makeBuiltinCall ''ts_object_getOwnPropertyNames'' (Some (array_of (mkType KString)))),
     ((''Object'', ''getOwnPropertyDescriptor''), makeBuiltinCall ''ts_object_getOwnPropertyDescriptor'' (Some (mkType KObject))),
     ((''Object'', ''create''), makeBuiltinCall ''ts_object_create'' (Some (mkType KObject))),
     ((''Object'', ''freeze''), makeBuiltinCall ''ts_object_freeze'' (Some (mkType KObject))),
     ((''Object'', ''seal''), makeBuiltinCall ''ts_object_seal'' (Some (mkType KObject))),
     ((''Object'', ''is''), makeBuiltinCall ''ts_object_is'' (Some (mkType KBool))),
     ((''Object'', ''getPrototypeOf''), makeBuiltinCall ''ts_object_getPrototypeOf'' (Some (mkType KObject))),
     ((''Object'', ''setPrototypeOf''), makeBuiltinCall ''ts_object_setPrototypeOf_checked'' (Some (mkType KObject))),
     ((''Object'', ''isFrozen''), makeBuiltinCall ''ts_object_isFrozen'' (Some (mkType KBool))),
     ((''Object'', ''isSealed''), makeBuiltinCall ''ts_object_isSealed'' (Some (mkType KBool))),
     ((''Object'', ''isExtensible''), makeBuiltinCall ''ts_object_isExtensible'' (Some (mkType KBool))),
     ((''Object'', ''preventExtensions''), makeBuiltinCall ''ts_object_preventExtensions'' (Some (mkType KObject))),
     ((''Object'', ''defineProperty''), makeBuiltinCall ''ts_object_defineProperty'' (Some (mkType KObject))),
     ((''Object'', ''defineProperties''), makeBuiltinCall ''ts_object_defineProperties'' (Some (mkType KObject))),
     ((''Object'', ''getOwnPropertyDescriptors''), makeBuiltinCall ''ts_object_getOwnPropertyDescriptors'' (Some (mkType KObject))),
     ((''Object'', ''groupBy''), makeBuiltinCall ''ts_object_groupBy'' (Some (mkType KObject)))]"

definition registerMapMethods :: method_table where
  "registerMapMethods =
    [((KMap, ''get''), makeRuntimeCall ''ts_map_get'' 1 (Some (mkType KAny))),
     ((KMap, ''set''), makeRuntimeCall ''ts_map_set'' 2 (Some (mkType KMap))),
     ((KMap, ''has''), makeRuntimeCall ''ts_map_has'' 1 (Some (mkType KBool))),
     ((KMap, ''delete''), makeRuntimeCall ''ts_map_delete'' 1 (Some (mkType KBool))),
     ((KMap, ''clear''), makeRuntimeCall ''ts_map_clear'' 0 (Some (mkType KVoid))),
     ((KMap, ''size''), makeRuntimeCall ''ts_map_size'' 0 (Some (mkType KInt64))),
     ((KMap, ''forEach''), makeRuntimeCall ''ts_map_forEach'' (-1) (Some (mkType KVoid))),
     ((KMap, ''entries''), makeRuntimeCall ''ts_map_entries_iter'' 0 (Some (mkType KObject))),
     ((KMap, ''keys''), makeRuntimeCall ''ts_map_keys_iter'' 0 (Some (mkType KObject))),
     ((KMap, ''values''), makeRuntimeCall ''ts_map_values_iter'' 0 (Some (mkType KObject)))]"

definition registerStaticMapMethods :: global_table where
  "registerStaticMapMethods =
    [((''Map'', ''groupBy''), makeBuiltinCall ''ts_map_groupBy'' (Some (mkType KMap)))]"

definition registerSetMethods :: method_table where
  "registerSetMethods =
    [((KSet, ''add''), makeRuntimeCall ''ts_set_add'' 1 (Some (mkType KSet))),
     ((KSet, ''has''), makeRuntimeCall ''ts_set_has'' 1 (Some (mkType KBool))),
     ((KSet, ''delete''), makeRuntimeCall ''ts_set_delete'' 1 (Some (mkType KBool))),
     ((KSet, ''clear''), makeRuntimeCall ''ts_set_clear'' 0 (Some (mkType KVoid))),
     ((KSet, ''size''), makeRuntimeCall ''ts_set_size'' 0 (Some (mkType KInt64))),
     ((KSet, ''forEach''), makeRuntimeCall ''ts_set_forEach'' (-1) (Some (mkType KVoid))),
     ((KSet, ''entries''), makeRuntimeCall ''ts_set_entries_iterator'' 0 (Some (mkType KAny))),
     ((KSet, ''keys''), makeRuntimeCall ''ts_set_keys_iterator'' 0 (Some (mkType KAny))),
     ((KSet, ''values''), makeRuntimeCall ''ts_set_values_iterator'' 0 (Some (mkType KAny))),
     ((KSet, ''union''), makeRuntimeCall ''ts_set_union'' 1 (Some (mkType KSet))),
     ((KSet, ''intersection''), makeRuntimeCall ''ts_set_intersection'' 1 (Some (mkType KSet))),
     ((KSet, ''difference''), makeRuntimeCall ''ts_set_difference'' 1 (Some (mkType KSet))),
     ((KSet, ''symmetricDifference''), makeRuntimeCall ''ts_set_symmetricDifference'' 1 (Some (mkType KSet))),
     ((KSet, ''isSubsetOf''), makeRuntimeCall ''ts_set_isSubsetOf'' 1 (Some (mkType KBool))),
     ((KSet, ''isSupersetOf''), makeRuntimeCall ''ts_set_isSupersetOf'' 1 (Some (mkType KBool))),
     ((KSet, ''isDisjointFrom''), makeRuntimeCall ''ts_set_isDisjointFrom'' 1 (Some (mkType KBool)))]"

definition registerMathBuiltins :: global_table where
  "registerMathBuiltins =
    [((''Math'', ''abs''), makeBuiltinCall ''ts_math_abs'' (Some (mkType KFloat64))),
     ((''Math'', ''ceil''), makeBuiltinCall ''ts_math_ceil'' (Some (mkType KFloat64))),
     ((''Math'', ''floor''), makeBuiltinCall ''ts_math_floor'' (Some (mkType KFloat64))),
     ((''Math'', ''round''), makeBuiltinCall ''ts_math_round'' (Some (mkType KFloat64))),
     ((''Math'', ''trunc''), makeBuiltinCall ''ts_math_trunc'' (Some (mkType KFloat64))),
     ((''Math'', ''sqrt''), makeBuiltinCall ''ts_math_sqrt'' (Some (mkType KFloat64))),
     ((''Math'', ''cbrt''), makeBuiltinCall ''ts_math_cbrt'' (Some (mkType KFloat64))),
     ((''Math'', ''exp''), makeBuiltinCall ''ts_math_exp'' (Some (mkType KFloat64))),
     ((''Math'', ''expm1''), makeBuiltinCall ''ts_math_expm1'' (Some (mkType KFloat64))),
     ((''Math'', ''log''), makeBuiltinCall ''ts_math_log'' (Some (mkType KFloat64))),
     ((''Math'', ''log10''), makeBuiltinCall ''ts_math_log10'' (Some (mkType KFloat64))),
     ((''Math'', ''log2''), makeBuiltinCall ''ts_math_log2'' (Some (mkType KFloat64))),
     ((''Math'', ''log1p''), makeBuiltinCall ''ts_math_log1p'' (Some (mkType KFloat64))),
     ((''Math'', ''sin''), makeBuiltinCall ''ts_math_sin'' (Some (mkType KFloat64))),
     ((''Math'', ''cos''), makeBuiltinCall ''ts_math_cos'' (Some (mkType KFloat64))),
     ((''Math'', ''tan''), makeBuiltinCall ''ts_math_tan'' (Some (mkType KFloat64))),
     ((''Math'', ''asin''), makeBuiltinCall ''ts_math_asin'' (Some (mkType KFloat64))),
     ((''Math'', ''acos''), makeBuiltinCall ''ts_math_acos'' (Some (mkType KFloat64))),
     ((''Math'', ''atan''), makeBuiltinCall ''ts_math_atan'' (Some (mkType KFloat64))),
     ((''Math'', ''sinh''), makeBuiltinCall ''ts_math_sinh'' (Some (mkType KFloat64))),
     ((''Math'', ''cosh''), makeBuiltinCall ''ts_math_cosh'' (Some (mkType KFloat64))),
     ((''Math'', ''tanh''), makeBuiltinCall ''ts_math_tanh'' (Some (mkType KFloat64))),
     ((''Math'', ''asinh''), makeBuiltinCall ''ts_math_asinh'' (Some (mkType KFloat64))),
     ((''Math'', ''acosh''), makeBuiltinCall ''ts_math_acosh'' (Some (mkType KFloat64))),
     ((''Math'', ''atanh''), makeBuiltinCall ''ts_math_atanh'' (Some (mkType KFloat64))),
     ((''Math'', ''sign''), makeBuiltinCall ''ts_math_sign'' (Some (mkType KFloat64))),
     ((''Math'', ''fround''), makeBuiltinCall ''ts_math_fround'' (Some (mkType KFloat64))),
     ((''Math'', ''clz32''), makeBuiltinCall ''ts_math_clz32'' (Some (mkType KInt64))),
     ((''Math'', ''pow''), makeBuiltinCall ''ts_math_pow'' (Some (mkType KFloat64))),
     ((''Math'', ''atan2''), makeBuiltinCall ''ts_math_atan2'' (Some (mkType KFloat64))),
     ((''Math'', ''imul''), makeBuiltinCall ''ts_math_imul'' (Some (mkType KInt64))),
     ((''Math'', ''min''), makeBuiltinCall ''ts_math_min'' (Some (mkType KFloat64))),
     ((''Math'', ''max''), makeBuiltinCall ''ts_math_max'' (Some (mkType KFloat64))),
     ((''Math'', ''hypot''), makeBuiltinCall ''ts_math_hypot'' (Some (mkType KFloat64))),
     ((''Math'', ''random''), makeBuiltinCall ''ts_math_random'' (Some (mkType KFloat64)))]"

definition registerConsoleBuiltins :: global_table where
  "registerConsoleBuiltins =
    [((''console'', ''log''), makeBuiltinCall ''ts_console_log'' (Some (mkType KVoid))),
     ((''console'', ''error''), makeBuiltinCall ''ts_console_error'' (Some (mkType KVoid))),
     ((''console'', ''warn''), makeBuiltinCall ''ts_console_warn'' (Some (mkType KVoid))),
     ((''console'', ''info''), makeBuiltinCall ''ts_console_info'' (Some (mkType KVoid))),
     ((''console'', ''debug''), makeBuiltinCall ''ts_console_debug'' (Some (mkType KVoid))),
     ((''console'', ''trace''), makeBuiltinCall ''ts_console_trace'' (Some (mkType KVoid))),
     ((''console'', ''dir''), makeBuiltinCall ''ts_console_dir'' (Some (mkType KVoid))),
     ((''console'', ''table''), makeBuiltinCall ''ts_console_table'' (Some (mkType KVoid))),
     ((''console'', ''time''), makeBuiltinCall ''ts_console_time'' (Some (mkType KVoid))),
     ((''console'', ''timeEnd''), makeBuiltinCall ''ts_console_timeEnd'' (Some (mkType KVoid))),
     ((''console'', ''timeLog''), makeBuiltinCall ''ts_console_timeLog'' (Some (mkType KVoid))),
     ((''console'', ''count''), makeBuiltinCall ''ts_console_count'' (Some (mkType KVoid))),
     ((''console'', ''countReset''), makeBuiltinCall ''ts_console_count_reset'' (Some (mkType KVoid))),
     ((''console'', ''group''), makeBuiltinCall ''ts_console_group'' (Some (mkType KVoid))),
     ((''console'', ''groupCollapsed''), makeBuiltinCall ''ts_console_group_collapsed'' (Some (mkType KVoid))),
     ((''console'', ''groupEnd''), makeBuiltinCall ''ts_console_group_end'' (Some (mkType KVoid))),
     ((''console'', ''clear''), makeBuiltinCall ''ts_console_clear'' (Some (mkType KVoid))),
     ((''console'', ''assert''), makeBuiltinCall ''ts_console_assert'' (Some (mkType KVoid)))]"

definition registerJSONBuiltins :: global_table where
  "registerJSONBuiltins =
    [((''JSON'', ''parse''), makeBuiltinCall ''ts_json_parse'' (Some (mkType KAny))),
     ((''JSON'', ''stringify''), makeBuiltinCall ''ts_json_stringify'' (Some (mkType KAny)))]"

definition builtinGlobals :: "string list" where
  "builtinGlobals =
    [''Array'', ''String'', ''Number'', ''Object'', ''Map'', ''Set'', ''Math'', ''Temporal'', ''console'', ''JSON'']"

definition methodTable :: method_table where
  "methodTable = registerArrayMethods @ registerStringMethods @ registerMapMethods @ registerSetMethods"

definition globalTable :: global_table where
  "globalTable =
     registerArrayStaticMethods @ registerStringStaticMethods @ registerNumberStaticMethods @ registerObjectMethods @ registerStaticMapMethods @ registerMathBuiltins @ registerConsoleBuiltins @ registerJSONBuiltins"

text \<open>A method call on a receiver of a known type; \<open>argCount\<close> is -1 when it is not known.\<close>

definition resolveMethod :: "htkind \<Rightarrow> string \<Rightarrow> int \<Rightarrow> method_resolution" where
  "resolveMethod receiverType methodName argCount =
     (case map_of (rev methodTable) (receiverType, methodName) of
        Some r \<Rightarrow>
          if 0 \<le> argCount \<and> 0 \<le> mr_expectedArgCount r \<and> argCount \<noteq> mr_expectedArgCount r
          then makeDynamic else r
      | None \<Rightarrow> makeDynamic)"

definition resolveGlobalBuiltin :: "string \<Rightarrow> string \<Rightarrow> int \<Rightarrow> builtin_resolution" where
  "resolveGlobalBuiltin glob methodName argCount =
     (if glob = ''JSON'' \<and> methodName = ''parse'' \<and> 2 \<le> argCount
      then makeBuiltinCall ''ts_json_parse_reviver'' (Some (mkType KAny))
      else case map_of (rev globalTable) (glob, methodName) of
        Some r \<Rightarrow> r
      | None \<Rightarrow> makeUnknown)"

definition isBuiltinType :: "htkind \<Rightarrow> bool" where
  "isBuiltinType k \<longleftrightarrow> k \<in> {KArray, KString, KObject, KMap, KSet}"

definition isBuiltinGlobal :: "string \<Rightarrow> bool" where
  "isBuiltinGlobal nm \<longleftrightarrow> nm \<in> set builtinGlobals"

end
