(* ===== verification/BuiltinPasses.thy ===== *)
theory BuiltinPasses
  imports BuiltinRegistry InstMap PassContract
begin

text \<open>
  The two passes that turn method calls into calls of the runtime,
  \<open>src/src/compiler/hir/passes/MethodResolutionPass.cpp\<close> (receivers of a known builtin type) and
  \<open>BuiltinResolutionPass.cpp\<close> (receivers that are global objects such as \<open>Math\<close>). Both walk over
  the instructions and replace a \<open>CallMethod\<close> in its slot; the replacement takes over the address.
  Argument counts are C++ \<open>int\<close>s made from the length of a vector; here they do not wrap.
\<close>

section \<open>Method resolution\<close>

text \<open>Operands of a \<open>CallMethod\<close>: receiver, method name, arguments; other operands are skipped.\<close>

definition call_args :: "hinst \<Rightarrow> vref list" where
  "call_args i = List.map_filter op_val (drop 2 (operands i))"

definition value_operands :: "vref list \<Rightarrow> hoperand list" where
  "value_operands vs = map (\<lambda>v. OVal (Some v)) vs"

definition derived_inst :: "hiropcode \<Rightarrow> hinst \<Rightarrow> hoperand list \<Rightarrow> hinst" where
  "derived_inst op original xs = (mk_inst op (iaddr original))\<lparr>result := result original,
     sourceFileIdx := sourceFileIdx original, sourceLine := sourceLine original,
     sourceColumn := sourceColumn original, operands := xs\<rparr>"

definition createOpcodeInstruction :: "hinst \<Rightarrow> hiropcode \<Rightarrow> vref \<Rightarrow> vref list \<Rightarrow> hinst" where
  "createOpcodeInstruction original op receiver args =
     derived_inst op original (value_operands (receiver # args))"

definition createRuntimeCallInstruction ::
  "hinst \<Rightarrow> string \<Rightarrow> vref \<Rightarrow> vref list \<Rightarrow> htype option \<Rightarrow> hstore \<Rightarrow> hinst \<times> hstore" where
  "createRuntimeCallInstruction original f receiver args t st =
     (derived_inst Call original (OStr f # value_operands (receiver # args)),
      case (result original, t) of (Some r, Some _) \<Rightarrow> set_type r t st | _ \<Rightarrow> st)"

definition tryResolveMethod :: "hstore \<Rightarrow> hinst \<Rightarrow> (hinst \<times> hstore) option" where
  "tryResolveMethod st i =
     (case operands i of
        OVal (Some receiver) # OStr methodName # _ \<Rightarrow>
          let args = call_args i in
          (case type_of st receiver of
             None \<Rightarrow> None
           | Some t \<Rightarrow>
               let r = resolveMethod (kind t) methodName (int (length args)) in
               if mr_kind r = RuntimeCall \<and> mr_function r = ''ts_array_toSpliced'' \<and> 2 < length args
               then None
               else if mr_kind r = RuntimeCall \<and> mr_function r = ''ts_array_concat'' \<and> args = []
               then Some (createRuntimeCallInstruction i ''ts_array_concat_none'' receiver args
                 (mr_returnType r) st)
               else (case mr_kind r of
                   HIROpcode \<Rightarrow> Some (createOpcodeInstruction i (mr_opcode r) receiver args, st)
                 | RuntimeCall \<Rightarrow> Some (createRuntimeCallInstruction i (mr_function r) receiver args
                     (mr_returnType r) st)
                 | Dynamic \<Rightarrow> None))
      | _ \<Rightarrow> None)"

definition mr_step :: "hstore \<times> bool \<Rightarrow> hinst \<Rightarrow> (hstore \<times> bool) \<times> hinst" where
  "mr_step s i =
     (if opcode i \<noteq> CallMethod then (s, i)
      else case tryResolveMethod (fst s) i of
        None \<Rightarrow> (s, i)
      | Some (j, st) \<Rightarrow> ((st, True), j))"

definition mr_runOnFunction :: function_pass where
  "mr_runOnFunction m fn st =
     (let ((st', ch), fn') = walk_fn mr_step (st, False) fn in (result_of ch, fn', st'))"

section \<open>Builtin resolution\<close>

text \<open>The first instruction whose result has the id of the value. The pass may already have
  replaced some instructions, but a replacement has the result of the call it replaces and, like
  it, is no \<open>LoadGlobal\<close>, so the search may look at the function as it was.\<close>

definition findDefiningInstruction :: "hstore \<Rightarrow> vref \<Rightarrow> hfunction \<Rightarrow> hinst option" where
  "findDefiningInstruction st v fn =
     find (\<lambda>i. case result i of None \<Rightarrow> False | Some r \<Rightarrow> val_id (vals st r) = val_id (vals st v))
       (fn_insts fn)"

definition getBuiltinGlobalName :: "hstore \<Rightarrow> vref \<Rightarrow> hfunction \<Rightarrow> string" where
  "getBuiltinGlobalName st v fn =
     (case findDefiningInstruction st v fn of
        None \<Rightarrow> []
      | Some d \<Rightarrow>
          if opcode d \<noteq> LoadGlobal then []
          else (case operands d of
              OStr g # _ \<Rightarrow> if isBuiltinGlobal g then g else []
            | _ \<Rightarrow> []))"

definition tryResolveBuiltin :: "hstore \<Rightarrow> hfunction \<Rightarrow> hinst \<Rightarrow> hinst option" where
  "tryResolveBuiltin st fn i =
     (case operands i of
        OVal (Some receiver) # x # _ \<Rightarrow>
          let g = getBuiltinGlobalName st receiver fn in
          if g = [] then None
          else (case x of
              OStr methodName \<Rightarrow>
                let args = call_args i;
                    r = resolveGlobalBuiltin g methodName (int (length args)) in
                if br_kind r = Unknown then None
                else if g = ''Object'' \<and> methodName = ''create'' \<and> 2 \<le> length args then None
                else map_option (\<lambda>f. derived_inst Call i (OStr f # value_operands args)) (br_function r)
            | _ \<Rightarrow> None)
      | _ \<Rightarrow> None)"

definition br_step :: "hstore \<Rightarrow> hfunction \<Rightarrow> bool \<Rightarrow> hinst \<Rightarrow> bool \<times> hinst" where
  "br_step st fn ch i =
     (if opcode i \<noteq> CallMethod then (ch, i)
      else case tryResolveBuiltin st fn i of None \<Rightarrow> (ch, i) | Some j \<Rightarrow> (True, j))"

definition br_runOnFunction :: function_pass where
  "br_runOnFunction m fn st =
     (let (ch, fn') = walk_fn (br_step st fn) False fn in (result_of ch, fn', st))"

section \<open>Both passes are honest\<close>

lemma derived_sel [simp]:
  "iaddr (derived_inst op i xs) = iaddr i" "opcode (derived_inst op i xs) = op"
  "result (derived_inst op i xs) = result i" "operands (derived_inst op i xs) = xs"
  "sourceFileIdx (derived_inst op i xs) = sourceFileIdx i"
  "sourceLine (derived_inst op i xs) = sourceLine i" "sourceColumn (derived_inst op i xs) = sourceColumn i"
  by (simp_all add: derived_inst_def)

lemma mr_contract:
  "case mr_runOnFunction m fn st of (r, fn', st') \<Rightarrow>
     success r \<and> (changed r \<or> fn' = fn \<and> st' = st) \<and> fn_rel (\<lambda>_ _. True) fn fn'"
proof -
  let ?w = "walk_fn mr_step (st, False) fn"
  have "fn_rel (\<lambda>_ _. True) fn (snd ?w)"
    using walk_fn_rel [of "\<lambda>_. True" fn mr_step "\<lambda>_ _. True"] by simp
  moreover have "snd (fst ?w) \<or> snd ?w = fn \<and> fst (fst ?w) = st"
  proof -
    have "snd (mr_step s x) = x \<and> \<not> snd s \<and> fst (fst (mr_step s x)) = fst s"
      if "\<not> snd (fst (mr_step s x))" for s x
      using that by (auto simp: mr_step_def split: option.splits if_splits)
    from walk_fn_flag [of snd mr_step fst "(st, False)" fn, OF this] show ?thesis by auto
  qed
  ultimately show ?thesis by (auto simp: mr_runOnFunction_def split: prod.splits)
qed

lemma br_contract:
  "case br_runOnFunction m fn st of (r, fn', st') \<Rightarrow>
     success r \<and> (changed r \<or> fn' = fn) \<and> st' = st \<and> fn_rel (\<lambda>_ _. True) fn fn'"
proof -
  let ?w = "walk_fn (br_step st fn) False fn"
  have "fn_rel (\<lambda>_ _. True) fn (snd ?w)"
    using walk_fn_rel [of "\<lambda>_. True" fn "br_step st fn" "\<lambda>_ _. True"] by simp
  moreover have "fst ?w \<or> snd ?w = fn"
  proof -
    have "snd (br_step st fn s x) = x \<and> \<not> s \<and> () = ()" if "\<not> fst (br_step st fn s x)" for s x
      using that by (auto simp: br_step_def split: option.splits if_splits)
    from walk_fn_flag [of "\<lambda>b. b" "br_step st fn" "\<lambda>_. ()" False fn, OF this] show ?thesis by auto
  qed
  ultimately show ?thesis by (auto simp: br_runOnFunction_def split: prod.splits)
qed

interpretation method_resolution: honest_pass mr_runOnFunction
proof
  fix m fn st
  show "success (fst (mr_runOnFunction m fn st))"
    and "changed (fst (mr_runOnFunction m fn st)) \<or> snd (mr_runOnFunction m fn st) = (fn, st)"
    and "fn_name (fst (snd (mr_runOnFunction m fn st))) = fn_name fn"
    using mr_contract [where m = m and fn = fn and st = st] by (auto dest: fn_rel_name split: prod.splits)
qed

interpretation builtin_resolution: honest_pass br_runOnFunction
proof
  fix m fn st
  show "success (fst (br_runOnFunction m fn st))"
    and "changed (fst (br_runOnFunction m fn st)) \<or> snd (br_runOnFunction m fn st) = (fn, st)"
    and "fn_name (fst (snd (br_runOnFunction m fn st))) = fn_name fn"
    using br_contract [where m = m and fn = fn and st = st] by (auto dest: fn_rel_name split: prod.splits)
qed


section \<open>The registry\<close>

lemma method_keys_distinct: "distinct (map fst methodTable)"
  by code_simp

lemma global_keys_distinct: "distinct (map fst globalTable)"
  by code_simp

text \<open>The runtime functions of the method table, with the number of arguments after the receiver.\<close>

definition runtime_functions :: "(string \<times> int) list" where
  "runtime_functions = map (\<lambda>(k, r). (mr_function r, mr_expectedArgCount r)) methodTable"

fun one_arity :: "(string \<times> int) list \<Rightarrow> bool" where
  "one_arity [] \<longleftrightarrow> True"
| "one_arity ((f, n) # fs) \<longleftrightarrow> list_all (\<lambda>(g, k). g = f \<longrightarrow> k = n) fs \<and> one_arity fs"

lemma one_arityD: "one_arity fs \<Longrightarrow> (f, n) \<in> set fs \<Longrightarrow> (f, k) \<in> set fs \<Longrightarrow> n = k"
  by (induction fs) (auto simp: list_all_iff)

lemma runtime_functions_arity: "one_arity runtime_functions"
  by code_simp

lemma concat_none_unlisted: "list_all (\<lambda>(f, n). f \<noteq> ''ts_array_concat_none'') runtime_functions"
  by code_simp


section \<open>Method resolution respects the arity of the runtime functions\<close>

text \<open>How an instruction relates to the one that method resolution leaves in its slot.\<close>

definition resolved_from :: "hinst \<Rightarrow> hinst \<Rightarrow> bool" where
  "resolved_from i j \<longleftrightarrow> j = i \<or>
     opcode i = CallMethod \<and> result j = result i \<and> iaddr j = iaddr i \<and>
     sourceLine j = sourceLine i \<and>
     (\<exists>receiver methodName xs args. operands i = OVal (Some receiver) # OStr methodName # xs \<and>
        args = value_operands (receiver # List.map_filter op_val xs) \<and>
        (if opcode j = Call
         then \<exists>f. operands j = OStr f # args \<and>
                (\<forall>n. (f, n) \<in> set runtime_functions \<and> 0 \<le> n \<longrightarrow> int (length args) = 1 + n)
         else opcode j \<in> {ArrayPush, ArrayLength} \<and> operands j = args))"

lemma table_lookup: "map_of (rev methodTable) k = Some r \<Longrightarrow> (k, r) \<in> set methodTable"
  by (drule map_of_SomeD) simp

lemma table_opcodes:
  "list_all (\<lambda>(k, r). mr_kind r = HIROpcode \<longrightarrow> mr_opcode r \<in> {ArrayPush, ArrayLength}) methodTable"
  by (simp add: methodTable_def registerArrayMethods_def registerStringMethods_def
      registerMapMethods_def registerSetMethods_def makeOpcode_def makeRuntimeCall_def makeDynamic_def)

lemma resolveMethod_entry:
  assumes "resolveMethod k nm n = r" and "mr_kind r \<noteq> Dynamic"
  shows "((k, nm), r) \<in> set methodTable" and "0 \<le> n \<Longrightarrow> 0 \<le> mr_expectedArgCount r \<Longrightarrow> n = mr_expectedArgCount r"
  using assms by (auto simp: resolveMethod_def makeDynamic_def split: option.splits if_splits dest: table_lookup)

lemma entry_arity:
  assumes "((k, nm), r) \<in> set methodTable" and "(mr_function r, n) \<in> set runtime_functions"
  shows "n = mr_expectedArgCount r"
proof -
  have "(mr_function r, mr_expectedArgCount r) \<in> set runtime_functions"
    using assms(1) by (force simp: runtime_functions_def)
  then show ?thesis using one_arityD [OF runtime_functions_arity assms(2)] by simp
qed

lemma tryResolveMethod_resolved:
  assumes "tryResolveMethod st i = Some (j, st')" and "opcode i = CallMethod"
  shows "resolved_from i j"
proof -
  obtain recv nm xs where ops: "operands i = OVal (Some recv) # OStr nm # xs"
    using assms(1) by (auto simp: tryResolveMethod_def split: list.splits hoperand.splits option.splits)
  obtain t where t: "type_of st recv = Some t"
    using assms(1) ops by (cases "type_of st recv") (auto simp: tryResolveMethod_def)
  let ?args = "List.map_filter op_val xs"
  have ca: "call_args i = ?args" by (simp add: call_args_def ops)
  obtain r where r: "resolveMethod (kind t) nm (int (length ?args)) = r" by simp
  have len: "length (value_operands (recv # ?args)) = Suc (length ?args)" by (simp add: value_operands_def)
  show ?thesis
  proof (cases "mr_kind r")
    case HIROpcode
    then have j: "j = createOpcodeInstruction i (mr_opcode r) recv ?args"
      using assms(1) ops t r ca by (simp add: tryResolveMethod_def)
    have "mr_opcode r \<in> {ArrayPush, ArrayLength}"
      using resolveMethod_entry(1) [OF r] HIROpcode table_opcodes by (auto simp: list_all_iff)
    then show ?thesis
      using j assms(2) ops by (auto simp: resolved_from_def createOpcodeInstruction_def)
  next
    case RuntimeCall
    note entry = resolveMethod_entry [OF r]
    have ar: "int (length ?args) = n"
      if "(mr_function r, n) \<in> set runtime_functions" "0 \<le> n" for n
      using entry entry_arity that RuntimeCall by simp
    show ?thesis
    proof (cases "mr_function r = ''ts_array_concat'' \<and> ?args = []")
      case True
      then have "createRuntimeCallInstruction i ''ts_array_concat_none'' recv ?args (mr_returnType r) st = (j, st')"
        using assms(1) ops t r ca RuntimeCall by (auto simp: tryResolveMethod_def)
      moreover have "(''ts_array_concat_none'', n) \<notin> set runtime_functions" for n
        using concat_none_unlisted by (auto simp: list_all_iff)
      ultimately show ?thesis
        using assms(2) ops by (auto simp: resolved_from_def createRuntimeCallInstruction_def)
    next
      case False
      then have "createRuntimeCallInstruction i (mr_function r) recv ?args (mr_returnType r) st = (j, st')"
        using assms(1) ops t r ca RuntimeCall
        by (simp add: tryResolveMethod_def Let_def split: if_split_asm)
      then show ?thesis
        using assms(2) ops ar len by (auto simp: resolved_from_def createRuntimeCallInstruction_def)
    qed
  next
    case Dynamic
    then show ?thesis using assms(1) ops t r ca by (simp add: tryResolveMethod_def)
  qed
qed


section \<open>Builtin resolution leaves nothing to resolve\<close>

definition br_inst :: "hstore \<Rightarrow> hfunction \<Rightarrow> hinst \<Rightarrow> hinst" where
  "br_inst st fn i =
     (if opcode i \<noteq> CallMethod then i
      else case tryResolveBuiltin st fn i of None \<Rightarrow> i | Some j \<Rightarrow> j)"

definition br_resolves :: "hstore \<Rightarrow> hfunction \<Rightarrow> hinst \<Rightarrow> bool" where
  "br_resolves st fn i \<longleftrightarrow> opcode i = CallMethod \<and> tryResolveBuiltin st fn i \<noteq> None"

lemma br_walk:
  "walk_fn (br_step st fn) ch gn =
     (ch \<or> (\<exists>i\<in>set (fn_insts gn). br_resolves st fn i), map_insts (br_inst st fn) gn)"
  by (rule walk_fn_flagged [of _ _ "\<lambda>s. s"])
     (auto simp: br_step_def br_inst_def br_resolves_def split: option.split)

lemma tryResolveBuiltin_call:
  "tryResolveBuiltin st fn i = Some j \<Longrightarrow> opcode j = Call \<and> result j = result i"
  by (auto simp: tryResolveBuiltin_def Let_def
      split: list.splits hoperand.splits option.splits if_splits)

lemma br_inst_keeps:
  "result (br_inst st fn i) = result i"
  "opcode (br_inst st fn i) = LoadGlobal \<longleftrightarrow> opcode i = LoadGlobal"
  "opcode i \<noteq> CallMethod \<Longrightarrow> br_inst st fn i = i"
  using tryResolveBuiltin_call [of st fn i] by (auto simp: br_inst_def split: option.split)

lemma global_name_kept:
  "getBuiltinGlobalName st v (map_insts (br_inst st fn) fn) = getBuiltinGlobalName st v fn"
proof -
  let ?P = "\<lambda>i. case result i of None \<Rightarrow> False | Some r \<Rightarrow> val_id (vals st r) = val_id (vals st v)"
  have "find ?P (map h is) = map_option h (find ?P is)" if "\<And>i. result (h i) = result i" for h "is"
    using that by (induction "is") auto
  from this [of "br_inst st fn" "fn_insts fn"]
  have "findDefiningInstruction st v (map_insts (br_inst st fn) fn) =
      map_option (br_inst st fn) (findDefiningInstruction st v fn)"
    by (simp add: findDefiningInstruction_def br_inst_keeps(1))
  then show ?thesis
    by (cases "findDefiningInstruction st v fn") (auto simp: getBuiltinGlobalName_def br_inst_keeps)
qed

lemma resolve_kept: "tryResolveBuiltin st (map_insts (br_inst st fn) fn) i = tryResolveBuiltin st fn i"
  unfolding tryResolveBuiltin_def global_name_kept ..

text \<open>
  C34. Builtin resolution is complete and idempotent: in the function it returns no method call on
  a builtin global is left that it could resolve, and a second run changes nothing and says so.
\<close>

theorem builtin_resolution_idempotent:
  "case br_runOnFunction m fn st of (r, fn', st') \<Rightarrow>
     br_runOnFunction m' fn' st' = (unchanged, fn', st') \<and> filter (br_resolves st' fn') (fn_insts fn') = []"
proof -
  let ?fn = "map_insts (br_inst st fn) fn"
  have none: "\<not> br_resolves st ?fn (br_inst st fn i)" for i
    using tryResolveBuiltin_call [of st fn i]
    by (auto simp: br_resolves_def resolve_kept br_inst_def split: option.splits)
  have settled: "\<not> br_resolves st gn i \<Longrightarrow> br_inst st gn i = i" for gn i
    by (auto simp: br_inst_def br_resolves_def)
  have "map_insts (br_inst st ?fn) ?fn = ?fn"
    using none settled by (intro map_insts_id) auto
  then show ?thesis
    using none by (simp add: br_runOnFunction_def br_walk result_of_def filter_empty_conv)
qed


text \<open>Properties that a method call reaches: \<open>arr.length()\<close> and \<open>map.size()\<close> are resolved like
  methods, although calling the number they hold is a TypeError.\<close>

lemma properties_called:
  "resolveMethod KArray ''length'' 0 = makeOpcode ArrayLength (Some (mkType KInt64))"
  "resolveMethod KMap ''size'' 0 = makeRuntimeCall ''ts_map_size'' 0 (Some (mkType KInt64))"
  by (simp_all add: resolveMethod_def methodTable_def registerArrayMethods_def registerStringMethods_def
      registerMapMethods_def registerSetMethods_def makeOpcode_def makeRuntimeCall_def makeDynamic_def)

end
