(* ===== verification/Inlining.thy ===== *)
theory Inlining
  imports HIR Worklist "HOL-Library.AList"
begin

text \<open>
  Function inlining, \<open>src/src/compiler/hir/passes/InliningPass.cpp\<close>: the call graph, the search for
  recursive functions, the decision to inline, and the replacement of a call by a copy of the
  callee's block.

  A null pointer that the C++ code would dereference ends the model with \<open>None\<close>. The ordered
  containers of the source (\<open>std::set\<close> of names, \<open>std::map\<close> keyed by pointers) are lists in the
  order of insertion here. \<open>currentInlineDepth_\<close> is raised and lowered inside one \<open>inlineCall\<close>
  and only read between calls, where it is 0.
\<close>

section \<open>The call graph\<close>

record inline_config =
  maxInlineSize :: nat
  singleCallSiteBonus :: nat
  inlineLambdas :: bool
  allowMultiBlock :: bool
  maxInlineDepth :: nat

definition default_config :: inline_config where
  "default_config = \<lparr>maxInlineSize = 20, singleCallSiteBonus = 10, inlineLambdas = True,
     allowMultiBlock = False, maxInlineDepth = 3\<rparr>"

definition callee_name :: "hinst \<Rightarrow> string option" where
  "callee_name i =
     (if opcode i = Call then (case operands i of OStr f # _ \<Rightarrow> Some f | _ \<Rightarrow> None) else None)"

definition countCalls :: "hfunction \<Rightarrow> string list" where
  "countCalls fn = List.map_filter callee_name (fn_insts fn)"

definition callCounts :: "hmodule \<Rightarrow> string \<Rightarrow> nat" where
  "callCounts m f = length (filter (\<lambda>g. g = f) (concat (map countCalls (mod_functions m))))"

text \<open>\<open>callGraph[func->name].insert(*callee)\<close>: functions of one name share an entry.\<close>

definition add_calls :: "string graph \<Rightarrow> hfunction \<Rightarrow> string graph" where
  "add_calls g fn =
     (if countCalls fn = [] then g
      else AList.update (fn_name fn) (remdups (succs g (fn_name fn) @ countCalls fn)) g)"

definition callGraph :: "hmodule \<Rightarrow> string graph" where
  "callGraph m = foldl add_calls [] (mod_functions m)"

text \<open>The lambda \<open>hasCycle\<close> and its loop. A call that answers false takes its node off the stack
  again, so the stack goes down as an argument; after one that answers true nobody reads it.
  The results are the answer, \<open>visited\<close> and \<open>recursiveFunctions_\<close>.\<close>

function hasCycle ::
  "'a graph \<Rightarrow> 'a \<Rightarrow> 'a set \<Rightarrow> 'a set \<Rightarrow> 'a set \<Rightarrow> bool \<times> 'a set \<times> 'a set"
and anyCycle ::
  "'a graph \<Rightarrow> 'a list \<Rightarrow> 'a set \<Rightarrow> 'a set \<Rightarrow> 'a set \<Rightarrow> bool \<times> 'a set \<times> 'a set" where
  "hasCycle g node visited inStack rec =
     (if node \<in> inStack then (True, visited, rec)
      else if node \<in> visited then (False, visited, rec)
      else
        let (b, v, r) = anyCycle g (succs g node) (insert node visited) (insert node inStack) rec
        in (b, v, if b then insert node r else r))"
| "anyCycle g [] visited inStack rec = (False, visited, rec)"
| "anyCycle g (c # cs) visited inStack rec =
     (let (b, v, r) = hasCycle g c visited inStack rec
      in if b then (True, v, r) else anyCycle g cs v inStack r)"
  by pat_completeness auto

termination
proof (relation "measures
    [case_sum (\<lambda>(g, node, v, s, r). card (insert node (targets g) - s))
       (\<lambda>(g, cs, v, s, r). card (set cs \<union> targets g - s)),
     case_sum (\<lambda>_. 0) (\<lambda>(g, cs, v, s, r). Suc (length cs))]", goal_cases)
  case 1
  then show ?case by simp
next
  case (2 g node visited inStack rec)
  have "set (succs g node) \<union> targets g - insert node inStack \<subset> insert node (targets g) - inStack"
    using 2 succs_targets [of g node] by auto
  then have "card (set (succs g node) \<union> targets g - insert node inStack)
      < card (insert node (targets g) - inStack)"
    by (intro psubset_card_mono) (auto simp: finite_targets)
  then show ?case by simp
next
  case (3 g c cs visited inStack rec)
  have "card (insert c (targets g) - inStack) \<le> card (set (c # cs) \<union> targets g - inStack)"
    by (intro card_mono) (auto simp: finite_targets)
  then show ?case by auto
next
  case (4 g c cs visited inStack rec)
  have "card (set cs \<union> targets g - inStack) \<le> card (set (c # cs) \<union> targets g - inStack)"
    by (intro card_mono) (auto simp: finite_targets)
  then show ?case by auto
qed

declare hasCycle.simps [simp del] anyCycle.simps(2) [simp del]

definition detectRecursion :: "hmodule \<Rightarrow> string set" where
  "detectRecursion m =
     foldl (\<lambda>rec fn. snd (snd (hasCycle (callGraph m) (fn_name fn) {} {} rec))) {} (mod_functions m)"

section \<open>The decision\<close>

fun contains :: "string \<Rightarrow> string \<Rightarrow> bool" where
  "contains pat [] \<longleftrightarrow> pat = []"
| "contains pat (c # cs) \<longleftrightarrow> take (length pat) (c # cs) = pat \<or> contains pat cs"

definition getFunctionSize :: "hfunction \<Rightarrow> nat" where
  "getFunctionSize fn = sum_list (map (\<lambda>b. length (instructions b)) (blocks fn))"

definition isSimpleLambda :: "hfunction \<Rightarrow> bool" where
  "isSimpleLambda fn \<longleftrightarrow>
     (case blocks fn of
        [b] \<Rightarrow> list_all (\<lambda>i. opcode i \<notin> {CondBranch, Switch, SetupTry, Throw}) (instructions b) \<and>
               length (instructions b) \<le> 10
      | _ \<Rightarrow> False)"

definition shouldInline ::
  "inline_config \<Rightarrow> (string \<Rightarrow> nat) \<Rightarrow> string set \<Rightarrow> nat \<Rightarrow> hfunction \<Rightarrow> bool" where
  "shouldInline cfg counts rec depth callee =
     (if fn_name callee \<in> rec then False
      else if fn_name callee = ''user_main'' \<or> fn_name callee = ''ts_main'' then False
      else if captures callee \<noteq> [] \<or>
         (fn_params callee \<noteq> [] \<and> fst (hd (fn_params callee)) = ''__closure__'') then False
      else if isGenerator callee then False
      else if isAsync callee then False
      else if contains ''___getter_'' (fn_name callee) \<or> contains ''___setter_'' (fn_name callee) then False
      else if list_ex (\<lambda>i. opcode i = Throw) (fn_insts callee) then False
      else if maxInlineDepth cfg \<le> depth then False
      else
        let size = getFunctionSize callee;
            threshold = maxInlineSize cfg +
              (if counts (fn_name callee) = 1 then singleCallSiteBonus cfg else 0)
        in if threshold < size then False
           else if \<not> allowMultiBlock cfg \<and> 1 < length (blocks callee) then False
           else if inlineLambdas cfg \<and> isSimpleLambda callee then True
           else size \<le> threshold)"

section \<open>Copying the callee\<close>

text \<open>The map from the callee's values to the caller's; its values may be null.\<close>

type_synonym value_map = "(vref \<times> vref option) list"

definition new_value :: "hvalue \<Rightarrow> hstore \<Rightarrow> vref \<times> hstore" where
  "new_value v st =
     (next_vref st, st\<lparr>vals := (vals st)(next_vref st := v), next_vref := next_vref st + 1\<rparr>)"

definition new_inst :: "hiropcode \<Rightarrow> hstore \<Rightarrow> hinst \<times> hstore" where
  "new_inst op st = (mk_inst op (next_iaddr st), st\<lparr>next_iaddr := next_iaddr st + 1\<rparr>)"

record clone_state =
  cl_caller :: hfunction
  cl_store :: hstore
  cl_map :: value_map
  cl_out :: "hinst list"

text \<open>The loop over the parameters: an argument, or a new undefined value where one is missing.\<close>

definition bind_param ::
  "vref option list \<Rightarrow> clone_state \<Rightarrow> nat \<times> string \<times> htype option \<Rightarrow> clone_state" where
  "bind_param args s p =
     (case p of (i, nm, ty) \<Rightarrow>
        let (pv, st) = new_value (mk_value (word_of_nat i) ty nm) (cl_store s) in
        if i < length args
        then s\<lparr>cl_store := st, cl_map := AList.update pv (args ! i) (cl_map s)\<rparr>
        else
          let (r, caller, st) = createValue (cl_caller s) st (Some (mkType KAny)) (nm @ ''_undef_inline'');
              (u, st) = new_inst ConstUndefined st
          in s\<lparr>cl_caller := caller, cl_store := st,
               cl_map := AList.update pv (Some r) (cl_map s),
               cl_out := cl_out s @ [u\<lparr>result := Some r\<rparr>]\<rparr>)"

definition bind_params :: "vref option list \<Rightarrow> hfunction \<Rightarrow> clone_state \<Rightarrow> clone_state" where
  "bind_params args callee s =
     foldl (bind_param args) s (zip [0..<length (fn_params callee)] (fn_params callee))"

text \<open>A value of the callee in the caller: by its address, else by id and name, else itself.\<close>

definition remap_value :: "hstore \<Rightarrow> value_map \<Rightarrow> vref \<Rightarrow> vref option" where
  "remap_value st vm r =
     (case map_of vm r of
        Some x \<Rightarrow> x
      | None \<Rightarrow>
          (case find (\<lambda>(k, x). val_id (vals st k) = val_id (vals st r) \<and>
                 val_name (vals st k) = val_name (vals st r)) vm of
             Some (k, x) \<Rightarrow> x
           | None \<Rightarrow> Some r))"

definition remap :: "hstore \<Rightarrow> value_map \<Rightarrow> vref option \<Rightarrow> vref option option" where
  "remap st vm v =
     (case v of
        None \<Rightarrow> if vm = [] then Some None else None
      | Some r \<Rightarrow> Some (remap_value st vm r))"

definition remap_operand :: "hstore \<Rightarrow> value_map \<Rightarrow> hoperand \<Rightarrow> hoperand option" where
  "remap_operand st vm x = (case x of OVal v \<Rightarrow> map_option OVal (remap st vm v) | _ \<Rightarrow> Some x)"

text \<open>The phi entries look a value up by its address first, so a null entry that is not mapped is
  dereferenced as soon as the map has an element.\<close>

definition remap_entry ::
  "hstore \<Rightarrow> value_map \<Rightarrow> vref option \<times> bref option \<Rightarrow> (vref option \<times> bref option) option" where
  "remap_entry st vm e = map_option (\<lambda>v. (v, snd e)) (remap st vm (fst e))"

fun map_all :: "('a \<Rightarrow> 'b option) \<Rightarrow> 'a list \<Rightarrow> 'b list option" where
  "map_all f [] = Some []"
| "map_all f (x # xs) =
     (case f x of None \<Rightarrow> None | Some y \<Rightarrow> map_option ((#) y) (map_all f xs))"

definition clone_result :: "hinst \<Rightarrow> clone_state \<Rightarrow> vref option \<times> clone_state" where
  "clone_result i s =
     (case result i of
        None \<Rightarrow> (None, s)
      | Some r \<Rightarrow>
          let (r', caller, st) = createValue (cl_caller s) (cl_store s) (type_of (cl_store s) r)
                (val_name (vals (cl_store s) r) @ ''_inline'')
          in (Some r', s\<lparr>cl_caller := caller, cl_store := st,
                cl_map := AList.update r (Some r') (cl_map s)\<rparr>))"

definition clone_inst :: "hinst \<Rightarrow> clone_state \<Rightarrow> clone_state option" where
  "clone_inst i s =
     (let (c, st) = new_inst (opcode i) (cl_store s);
          (r, s) = clone_result i (s\<lparr>cl_store := st\<rparr>)
      in case (map_all (remap_operand (cl_store s) (cl_map s)) (operands i),
               map_all (remap_entry (cl_store s) (cl_map s)) (phiIncoming i)) of
           (Some xs, Some ps) \<Rightarrow>
             Some (s\<lparr>cl_out := cl_out s @ [c\<lparr>result := r, operands := xs, phiIncoming := ps,
               switchCases := switchCases i, switchDefault := switchDefault i,
               sourceFileIdx := sourceFileIdx i, sourceLine := sourceLine i,
               sourceColumn := sourceColumn i\<rparr>]\<rparr>)
         | _ \<Rightarrow> None)"

fun clone_list :: "hinst list \<Rightarrow> clone_state \<Rightarrow> clone_state option" where
  "clone_list [] s = Some s"
| "clone_list (i # is) s = (case clone_inst i s of None \<Rightarrow> None | Some s' \<Rightarrow> clone_list is s')"

definition cloneInstructions ::
  "hfunction \<Rightarrow> vref option list \<Rightarrow> hfunction \<Rightarrow> hstore \<Rightarrow> clone_state option" where
  "cloneInstructions callee args caller st =
     (let s = \<lparr>cl_caller = caller, cl_store = st, cl_map = [], cl_out = []\<rparr> in
      case blocks callee of
        [] \<Rightarrow> Some s
      | b # _ \<Rightarrow> clone_list (instructions b) (bind_params args callee s))"

definition findReturnValue :: "hinst list \<Rightarrow> vref option" where
  "findReturnValue is =
     (case find (\<lambda>i. opcode i = Return \<and> (case operands i of OVal _ # _ \<Rightarrow> True | _ \<Rightarrow> False)) is of
        None \<Rightarrow> None
      | Some i \<Rightarrow> op_val (hd (operands i)))"

section \<open>Inlining a call\<close>

definition replace_value :: "vref \<Rightarrow> vref \<Rightarrow> vref option \<Rightarrow> vref option" where
  "replace_value r v x = (if x = Some r then Some v else x)"

definition replace_uses :: "vref \<Rightarrow> vref \<Rightarrow> hinst \<Rightarrow> hinst" where
  "replace_uses r v i =
     i\<lparr>operands := map (\<lambda>x. case x of OVal y \<Rightarrow> OVal (replace_value r v y) | _ \<Rightarrow> x) (operands i),
       phiIncoming := map (\<lambda>(y, b). (replace_value r v y, b)) (phiIncoming i)\<rparr>"

text \<open>The instructions of the block that holds the call: the copies take the place of the call.\<close>

definition splice_at :: "iref \<Rightarrow> hinst list \<Rightarrow> hinst list \<Rightarrow> hinst list" where
  "splice_at a new is = concat (map (\<lambda>i. if iaddr i = a then new else [i]) is)"

definition value_args :: "hinst \<Rightarrow> vref option list" where
  "value_args i = List.map_filter (\<lambda>x. case x of OVal v \<Rightarrow> Some v | _ \<Rightarrow> None) (drop 1 (operands i))"

definition inlineCall ::
  "hfunction \<Rightarrow> hstore \<Rightarrow> hinst \<Rightarrow> hfunction \<Rightarrow> (hfunction \<times> hstore) option" where
  "inlineCall caller st callInst callee =
     (case cloneInstructions callee (value_args callInst) caller st of
        None \<Rightarrow> None
      | Some s \<Rightarrow>
          let new = filter (\<lambda>i. opcode i \<notin> {Return, ReturnVoid}) (cl_out s);
              fix_uses = (case (result callInst, findReturnValue (cl_out s)) of
                  (Some r, Some v) \<Rightarrow> replace_uses r v
                | _ \<Rightarrow> (\<lambda>i. i))
          in Some ((cl_caller s)\<lparr>blocks :=
               map (\<lambda>b. b\<lparr>instructions := splice_at (iaddr callInst) new (map fix_uses (instructions b))\<rparr>)
                 (blocks (cl_caller s))\<rparr>, cl_store s))"


section \<open>The pass\<close>

text \<open>The calls of a function that are to be inlined, in order.\<close>

definition callsToInline ::
  "inline_config \<Rightarrow> (string \<Rightarrow> nat) \<Rightarrow> string set \<Rightarrow> hmodule \<Rightarrow> hfunction \<Rightarrow> hinst list" where
  "callsToInline cfg counts rec m fn =
     filter (\<lambda>i. case callee_name i of None \<Rightarrow> False
       | Some f \<Rightarrow> (case getFunction m f of None \<Rightarrow> False
           | Some callee \<Rightarrow> shouldInline cfg counts rec 0 callee)) (fn_insts fn)"

text \<open>The calls of function number \<open>k\<close>, given by their addresses, are inlined one after the other;
  the callee is looked up again in the module as it then is.\<close>

fun inline_calls :: "nat \<Rightarrow> iref list \<Rightarrow> bool \<times> hmodule \<Rightarrow> (bool \<times> hmodule) option" where
  "inline_calls k [] s = Some s"
| "inline_calls k (a # as) (ch, m) =
     (case find (\<lambda>i. iaddr i = a) (fn_insts (mod_functions m ! k)) of
        None \<Rightarrow> inline_calls k as (ch, m)
      | Some i \<Rightarrow>
          (case callee_name i of
             None \<Rightarrow> inline_calls k as (ch, m)
           | Some f \<Rightarrow>
               (case getFunction m f of
                  None \<Rightarrow> inline_calls k as (ch, m)
                | Some callee \<Rightarrow>
                    (case inlineCall (mod_functions m ! k) (mod_store m) i callee of
                       None \<Rightarrow> None
                     | Some (fn', st') \<Rightarrow>
                         inline_calls k as (True,
                           m\<lparr>mod_functions := (mod_functions m)[k := fn'], mod_store := st'\<rparr>)))))"

fun inline_functions ::
  "inline_config \<Rightarrow> (string \<Rightarrow> nat) \<Rightarrow> string set \<Rightarrow> nat list \<Rightarrow> bool \<times> hmodule \<Rightarrow> (bool \<times> hmodule) option" where
  "inline_functions cfg counts rec [] s = Some s"
| "inline_functions cfg counts rec (k # ks) s =
     (case inline_calls k (rev (map iaddr (callsToInline cfg counts rec (snd s) (mod_functions (snd s) ! k)))) s of
        None \<Rightarrow> None
      | Some s' \<Rightarrow> inline_functions cfg counts rec ks s')"

text \<open>Rounds over the module until nothing is inlined, at most \<open>maxIterations\<close>.\<close>

fun inline_rounds ::
  "inline_config \<Rightarrow> (string \<Rightarrow> nat) \<Rightarrow> string set \<Rightarrow> nat \<Rightarrow> bool \<times> hmodule \<Rightarrow> (bool \<times> hmodule) option" where
  "inline_rounds cfg counts rec 0 s = Some s"
| "inline_rounds cfg counts rec (Suc n) (ch, m) =
     (case inline_functions cfg counts rec [0..<length (mod_functions m)] (False, m) of
        None \<Rightarrow> None
      | Some (progress, m') \<Rightarrow>
          if progress then inline_rounds cfg counts rec n (True, m') else Some (ch, m'))"

definition inlining_maxIterations :: nat where
  "inlining_maxIterations = 10"

definition inlining_run :: "inline_config \<Rightarrow> hmodule \<Rightarrow> (pass_result \<times> hmodule) option" where
  "inlining_run cfg m =
     map_option (\<lambda>(ch, m'). (result_of ch, m'))
       (inline_rounds cfg (callCounts m) (detectRecursion m) inlining_maxIterations (False, m))"

end
