(* ===== verification/InliningCorrect.thy ===== *)
theory InliningCorrect
  imports Inlining Execution
begin

text \<open>
  What inlining relies on: the depth-first search for recursive functions marks exactly those
  from which a cycle of the call graph can be reached, so that no function is inlined into itself
  forever.
\<close>

section \<open>Recursive functions\<close>

definition calls :: "hmodule \<Rightarrow> (string \<times> string) set" where
  "calls m = {(fn_name fn, g) | fn g. fn \<in> set (mod_functions m) \<and> g \<in> set (countCalls fn)}"

lemma succs_update: "succs (AList.update k ys g) x = (if x = k then ys else succs g x)"
  by (simp add: succs_def update_conv)

lemma edges_add_calls: "edges (add_calls g fn) = edges g \<union> {fn_name fn} \<times> set (countCalls fn)"
  by (auto simp: add_calls_def edges_def succs_update split: if_splits)

lemma edges_callGraph: "edges (callGraph m) = calls m"
proof -
  have "edges (foldl add_calls g fns) = edges g \<union> {(fn_name fn, h) | fn h. fn \<in> set fns \<and> h \<in> set (countCalls fn)}"
    for g fns
    by (induction fns arbitrary: g) (auto simp: edges_add_calls)
  from this [of "[]" "mod_functions m"] show ?thesis
    by (simp add: callGraph_def calls_def edges_def succs_def)
qed

definition reaches_cycle :: "'a graph \<Rightarrow> 'a set" where
  "reaches_cycle g = {x. \<exists>y. (x, y) \<in> (edges g)\<^sup>* \<and> (y, y) \<in> (edges g)\<^sup>+}"

text \<open>Nodes that have left the stack are finished: their successors are, and no cycle goes
  through them.\<close>

definition finished :: "'a graph \<Rightarrow> 'a set \<Rightarrow> bool" where
  "finished g D \<longleftrightarrow> (\<forall>x\<in>D. (x, x) \<notin> (edges g)\<^sup>+ \<and> (\<forall>y. (x, y) \<in> edges g \<longrightarrow> y \<in> D))"

lemma finished_closed: "finished g D \<Longrightarrow> (x, y) \<in> (edges g)\<^sup>* \<Longrightarrow> x \<in> D \<Longrightarrow> y \<in> D"
  by (rotate_tac 1, induction rule: rtrancl_induct) (auto simp: finished_def)

lemma finished_acyclic:
  assumes "finished g D"
  shows "D \<inter> reaches_cycle g = {}"
proof -
  have False if "x \<in> D" "(x, y) \<in> (edges g)\<^sup>*" "(y, y) \<in> (edges g)\<^sup>+" for x y
    using finished_closed [OF assms that(2,1)] that(3) assms by (simp add: finished_def)
  then show ?thesis by (auto simp: reaches_cycle_def)
qed

lemma finished_insert:
  assumes D: "finished g D" and cs: "\<And>c. (x, c) \<in> edges g \<Longrightarrow> c \<in> D" and "x \<notin> D"
  shows "finished g (insert x D)"
proof -
  have "(x, x) \<notin> (edges g)\<^sup>+"
  proof
    assume "(x, x) \<in> (edges g)\<^sup>+"
    then obtain c where "(x, c) \<in> edges g" "(c, x) \<in> (edges g)\<^sup>*" by (meson tranclD)
    with cs finished_closed [OF D] \<open>x \<notin> D\<close> show False by blast
  qed
  with D cs show ?thesis by (auto simp: finished_def)
qed

lemma reaches_step: "(x, y) \<in> edges g \<Longrightarrow> y \<in> reaches_cycle g \<Longrightarrow> x \<in> reaches_cycle g"
  by (auto simp: reaches_cycle_def intro: converse_rtrancl_into_rtrancl)

lemma hasCycle_correct:
  shows "hasCycle g node vis stk rec = (b, v, r) \<Longrightarrow> finished g (vis - stk) \<Longrightarrow>
      (\<forall>s\<in>stk. (s, node) \<in> (edges g)\<^sup>+) \<Longrightarrow>
      rec \<subseteq> r \<and> r \<subseteq> rec \<union> reaches_cycle g \<and> (b \<longrightarrow> node \<in> reaches_cycle g \<and> node \<in> r \<union> stk) \<and>
      (\<not> b \<longrightarrow> vis \<subseteq> v \<and> node \<in> v - stk \<and> finished g (v - stk))"
    and "anyCycle g cs vis stk rec = (b, v, r) \<Longrightarrow> finished g (vis - stk) \<Longrightarrow>
      (\<forall>s\<in>stk. \<forall>c\<in>set cs. (s, c) \<in> (edges g)\<^sup>+) \<Longrightarrow>
      rec \<subseteq> r \<and> r \<subseteq> rec \<union> reaches_cycle g \<and> (b \<longrightarrow> (\<exists>c\<in>set cs. c \<in> reaches_cycle g)) \<and>
      (\<not> b \<longrightarrow> vis \<subseteq> v \<and> set cs \<subseteq> v - stk \<and> finished g (v - stk))"
proof (induction g node vis stk rec and g cs vis stk rec arbitrary: b v r and b v r
    rule: hasCycle_anyCycle.induct)
  case (1 g node vis stk rec)
  consider "node \<in> stk" | "node \<notin> stk" "node \<in> vis" | "node \<notin> stk" "node \<notin> vis" by blast
  then show ?case
  proof cases
    case 1
    then have "node \<in> reaches_cycle g" using "1.prems"(3) by (auto simp: reaches_cycle_def)
    then show ?thesis using 1 "1.prems"(1) by (simp add: hasCycle.simps)
  next
    case 2
    then show ?thesis using "1.prems" by (auto simp: hasCycle.simps)
  next
    case 3
    obtain b' v' r' where any: "anyCycle g (succs g node) (insert node vis) (insert node stk) rec = (b', v', r')"
      by (rule prod_cases3)
    have res: "b = b'" "v = v'" "r = (if b' then insert node r' else r')"
      using "1.prems"(1) 3 any by (auto simp: hasCycle.simps)
    have edge: "(node, c) \<in> edges g \<longleftrightarrow> c \<in> set (succs g node)" for c by (simp add: edges_def)
    have "finished g (insert node vis - insert node stk)" using "1.prems"(2) 3 by simp
    moreover have "\<forall>s\<in>insert node stk. \<forall>c\<in>set (succs g node). (s, c) \<in> (edges g)\<^sup>+"
      using "1.prems"(3) edge by (blast intro: trancl_into_trancl r_into_trancl)
    ultimately have C: "rec \<subseteq> r' \<and> r' \<subseteq> rec \<union> reaches_cycle g \<and> (b' \<longrightarrow> (\<exists>c\<in>set (succs g node). c \<in> reaches_cycle g)) \<and>
        (\<not> b' \<longrightarrow> insert node vis \<subseteq> v' \<and> set (succs g node) \<subseteq> v' - insert node stk \<and>
          finished g (v' - insert node stk))"
      by (rule "1.IH" [OF 3 any])
    note C2 = conjunct2 [OF C] and C3 = conjunct2 [OF conjunct2 [OF C]]
    note IH = conjunct1 [OF C] conjunct1 [OF C2] mp [OF conjunct1 [OF C3]] mp [OF conjunct2 [OF C3]]
    have "node \<in> reaches_cycle g" if b'
    proof -
      from IH(3) [OF that] obtain c where "c \<in> set (succs g node)" "c \<in> reaches_cycle g" by blast
      then show ?thesis using reaches_step [of node c g] edge [of c] by simp
    qed
    moreover have "finished g (v' - stk)" if "\<not> b'"
    proof -
      have "v' - stk = insert node (v' - insert node stk)" using IH(4) [OF that] 3 by auto
      moreover have "finished g (insert node (v' - insert node stk))"
        by (rule finished_insert) (use IH(4) [OF that] edge in auto)
      ultimately show ?thesis by (simp only:)
    qed
    ultimately show ?thesis
    proof (cases b')
      case True
      then show ?thesis using IH(1,2) \<open>b' \<Longrightarrow> node \<in> reaches_cycle g\<close> unfolding res by auto
    next
      case False
      then show ?thesis using IH(1,2) IH(4) [OF False] 3 \<open>\<not> b' \<Longrightarrow> finished g (v' - stk)\<close> unfolding res by auto
    qed
  qed
next
  case (2 g vis stk rec)
  then show ?case by simp
next
  case (3 g c cs vis stk rec)
  obtain b1 v1 r1 where h: "hasCycle g c vis stk rec = (b1, v1, r1)" by (rule prod_cases3)
  from "3.IH"(1) [OF h "3.prems"(2)] "3.prems"(3)
  have one: "rec \<subseteq> r1" "r1 \<subseteq> rec \<union> reaches_cycle g" "b1 \<Longrightarrow> c \<in> reaches_cycle g"
    "\<not> b1 \<Longrightarrow> vis \<subseteq> v1 \<and> c \<in> v1 - stk \<and> finished g (v1 - stk)" by auto
  show ?case
  proof (cases b1)
    case True
    then show ?thesis using one "3.prems"(1) h by (auto simp: anyCycle.simps(2))
  next
    case False
    then have any: "anyCycle g cs v1 stk r1 = (b, v, r)" using "3.prems"(1) h by (simp add: anyCycle.simps(2))
    show ?thesis
      using "3.IH"(2) [OF h [symmetric] refl refl False any] one(1,2) one(4) [OF False] "3.prems"(3) by auto
  qed
qed

lemma hasCycle_root:
  assumes "hasCycle g f {} {} rec = (b, v, r)"
  shows "rec \<subseteq> r" and "r \<subseteq> rec \<union> reaches_cycle g" and "f \<in> reaches_cycle g \<Longrightarrow> f \<in> r"
proof -
  have "finished g {}" by (simp add: finished_def)
  then have c: "rec \<subseteq> r" "r \<subseteq> rec \<union> reaches_cycle g" "b \<Longrightarrow> f \<in> r"
    "\<not> b \<Longrightarrow> f \<in> v - {} \<and> finished g (v - {})"
    using hasCycle_correct(1) [OF assms] by simp_all
  show "rec \<subseteq> r" "r \<subseteq> rec \<union> reaches_cycle g" by (rule c(1), rule c(2))
  show "f \<in> r" if "f \<in> reaches_cycle g"
    using that c(3,4) finished_acyclic [of g v] by (cases b) auto
qed

text \<open>
  C11. The depth-first search finds exactly the functions from which a cycle of the call graph can
  be reached, whatever the order of the functions and calls; these are never inlined.
\<close>

theorem recursion_detected:
  "detectRecursion m = {f. \<exists>g. (f, g) \<in> (calls m)\<^sup>* \<and> (g, g) \<in> (calls m)\<^sup>+}"
proof -
  let ?g = "callGraph m"
  let ?step = "\<lambda>rec fn. snd (snd (hasCycle ?g (fn_name fn) {} {} rec))"
  have step: "R \<subseteq> ?step R fn \<and> ?step R fn \<subseteq> R \<union> reaches_cycle ?g \<and>
    (fn_name fn \<in> reaches_cycle ?g \<longrightarrow> fn_name fn \<in> ?step R fn)" for R fn
    using hasCycle_root [of ?g "fn_name fn" R] by (metis prod.collapse)
  have "R \<subseteq> foldl ?step R fns \<and> foldl ?step R fns \<subseteq> R \<union> reaches_cycle ?g \<and>
      fn_name ` set fns \<inter> reaches_cycle ?g \<subseteq> foldl ?step R fns" for R fns
  proof (induction fns arbitrary: R)
    case (Cons fn fns)
    from Cons.IH [of "?step R fn"] step [of R fn] show ?case by auto
  qed simp
  from this [of "{}" "mod_functions m"] have "detectRecursion m \<subseteq> reaches_cycle ?g"
    "fn_name ` set (mod_functions m) \<inter> reaches_cycle ?g \<subseteq> detectRecursion m"
    by (auto simp: detectRecursion_def)
  moreover have "reaches_cycle ?g \<subseteq> fn_name ` set (mod_functions m)"
  proof
    fix x assume "x \<in> reaches_cycle ?g"
    then obtain y where "(x, y) \<in> (edges ?g)\<^sup>*" "(y, y) \<in> (edges ?g)\<^sup>+" by (auto simp: reaches_cycle_def)
    then have "(x, y) \<in> (edges ?g)\<^sup>+" by (rule rtrancl_trancl_trancl)
    then obtain z where "(x, z) \<in> edges ?g" by (meson tranclD)
    then show "x \<in> fn_name ` set (mod_functions m)" by (auto simp: edges_callGraph calls_def)
  qed
  ultimately have "detectRecursion m = reaches_cycle ?g" by blast
  then show ?thesis by (simp add: reaches_cycle_def edges_callGraph)
qed

end
