(* ===== verification/InliningSim.thy ===== *)
theory InliningSim
  imports InliningCorrect
begin

text \<open>
  A block in which a call is replaced by the copy of the callee's block computes what the block
  with the call computes. Blocks run instruction by instruction, each producing a value it can
  compute; the call produces the value the callee returns.
\<close>

section \<open>Runs of straight-line code\<close>

inductive line :: "runtime \<Rightarrow> hinst list \<Rightarrow> env \<Rightarrow> env \<Rightarrow> bool" for rt where
  line_nil: "line rt [] env env"
| line_cons: "computes rt i env x \<Longrightarrow> line rt is (setValue env (result i) x) env' \<Longrightarrow>
    line rt (i # is) env env'"

inductive_simps line_Nil [simp]: "line rt [] env env'"
inductive_simps line_Cons: "line rt (i # is) env env'"

lemma line_append: "line rt (is @ js) env env' \<longleftrightarrow> (\<exists>mid. line rt is env mid \<and> line rt js mid env')"
  by (induction "is" arbitrary: env) (auto simp: line_Cons)

text \<open>A step without a result leaves the environment alone, so it can be left out.\<close>

lemma line_filter:
  "line rt is env env' \<Longrightarrow> (\<And>i. i \<in> set is \<Longrightarrow> \<not> P i \<Longrightarrow> result i = None) \<Longrightarrow>
   line rt (filter P is) env env'"
  by (induction rule: line.induct) (auto intro: line.intros)

lemma line_other: "line rt is env env' \<Longrightarrow> v \<notin> set (results is) \<Longrightarrow> env' v = env v"
  by (induction rule: line.induct) (auto split: option.splits)

text \<open>Operands that read the same in two environments.\<close>

definition same_operand :: "env \<Rightarrow> env \<Rightarrow> hoperand \<Rightarrow> hoperand \<Rightarrow> bool" where
  "same_operand env env' x y \<longleftrightarrow>
     (case x of OVal v \<Rightarrow> (\<exists>w. y = OVal w) \<and> getOperandValue env' y = getOperandValue env x | _ \<Rightarrow> y = x)"

lemma same_operand_value: "same_operand env env' x y \<Longrightarrow> getOperandValue env' y = getOperandValue env x"
  by (auto simp: same_operand_def getOperandValue_def split: hoperand.splits)

lemma same_operand_const:
  "same_operand env env' x y \<Longrightarrow> getOperandInt y = getOperandInt x"
  "same_operand env env' x y \<Longrightarrow> getOperandString y = getOperandString x"
  "same_operand env env' x y \<Longrightarrow> y = OFloat d \<longleftrightarrow> x = OFloat d"
  "same_operand env env' x y \<Longrightarrow> y = OBool b \<longleftrightarrow> x = OBool b"
  by (auto simp: same_operand_def getOperandInt_def getOperandString_def split: hoperand.splits)

lemma computes_same:
  assumes "computes rt i env x" and op: "opcode j = opcode i"
    and ops: "list_all2 (same_operand env env') (operands i) (operands j)"
  shows "computes rt j env' x"
  using assms(1)
proof cases
  case computes_const
  have j: "opcode j \<in> const_ops" using computes_const op by simp
  show ?thesis
  proof (cases "operands i")
    case Nil
    then have "operands j = []" using ops by simp
    then have "const_loads rt j x" using computes_const(2) Nil unfolding const_loads_def op by simp
    then show ?thesis by (rule computes.computes_const [OF j])
  next
    case (Cons a zs)
    then obtain a' zs' where k: "operands j = a' # zs'" and s: "same_operand env env' a a'"
      using ops by (auto simp: list_all2_Cons1)
    have "const_loads rt j x"
      using computes_const(2) unfolding const_loads_def op Cons k
      by (simp add: same_operand_const [OF s])
    then show ?thesis by (rule computes.computes_const [OF j])
  qed
next
  case (computes_binary a b zs l r k)
  then obtain a' b' zs' where "operands j = a' # b' # zs'" "same_operand env env' a a'" "same_operand env env' b b'"
    using ops by (auto simp: list_all2_Cons1)
  then show ?thesis
    using computes_binary op
    by (intro computes.computes_binary [of j a' b' zs' env' l r]) (simp_all add: same_operand_value)
next
  case (computes_unary a zs l)
  then obtain a' zs' where "operands j = a' # zs'" "same_operand env env' a a'"
    using ops by (auto simp: list_all2_Cons1)
  then show ?thesis
    using computes_unary op
    by (intro computes.computes_unary [of j a' zs' env' l]) (simp_all add: same_operand_value)
next
  case (computes_concat a b zs l r)
  then obtain a' b' zs' where "operands j = a' # b' # zs'" "same_operand env env' a a'" "same_operand env env' b b'"
    using ops by (auto simp: list_all2_Cons1)
  then show ?thesis
    using computes_concat op
    by (intro computes.computes_concat [of j a' b' zs' env' l r]) (simp_all add: same_operand_value)
next
  case computes_other
  then show ?thesis using op by (intro computes.computes_other) simp
qed

section \<open>The map of values\<close>

text \<open>\<open>v\<close> stands for the parameter number \<open>i\<close> of the callee.\<close>

definition param_of :: "hfunction \<Rightarrow> hstore \<Rightarrow> vref \<Rightarrow> nat \<Rightarrow> bool" where
  "param_of callee st v i \<longleftrightarrow> i < length (fn_params callee) \<and> v < next_vref st \<and>
     val_id (vals st v) = word_of_nat i \<and> val_name (vals st v) = fst (fn_params callee ! i)"

lemma find_update_other:
  "\<not> Q k \<Longrightarrow> find (\<lambda>(k, x). Q k) (AList.update k y al) = find (\<lambda>(k, x). Q k) al"
  by (induction al) auto

lemma remap_update_other:
  assumes "v \<noteq> k" and "val_id (vals st k) \<noteq> val_id (vals st v)"
  shows "remap_value st (AList.update k y vm) v = remap_value st vm v"
  using find_update_other [of "\<lambda>k. val_id (vals st k) = val_id (vals st v) \<and> val_name (vals st k) = val_name (vals st v)" k y vm]
    assms by (cases "map_of vm v") (simp_all add: remap_value_def update_conv)

lemma remap_update_mapped:
  "v \<noteq> k \<Longrightarrow> map_of vm v \<noteq> None \<Longrightarrow> remap_value st (AList.update k y vm) v = remap_value st vm v"
  by (auto simp: remap_value_def update_conv)

lemma remap_update_same [simp]: "remap_value st (AList.update k y vm) k = y"
  by (simp add: remap_value_def update_conv)

lemma remap_store:
  assumes "\<And>k. k \<in> insert v (fst ` set vm) \<Longrightarrow> vals st' k = vals st k"
  shows "remap_value st' vm v = remap_value st vm v"
proof -
  have "find (\<lambda>(k, x). val_id (vals st' k) = val_id (vals st' v) \<and> val_name (vals st' k) = val_name (vals st' v)) vm =
      find (\<lambda>(k, x). val_id (vals st k) = val_id (vals st v) \<and> val_name (vals st k) = val_name (vals st v)) vm"
  proof (rule find_cong [OF refl], clarify)
    fix k x assume "(k, x) \<in> set vm"
    then have "vals st' k = vals st k" "vals st' v = vals st v" using assms [of k] assms [of v] by force+
    then show "(val_id (vals st' k) = val_id (vals st' v) \<and> val_name (vals st' k) = val_name (vals st' v)) =
        (val_id (vals st k) = val_id (vals st v) \<and> val_name (vals st k) = val_name (vals st v))" by simp
  qed
  then show ?thesis unfolding remap_value_def by (simp only:)
qed


lemma find_update_new:
  "find (\<lambda>(k, x). Q k) al = None \<Longrightarrow> k \<notin> fst ` set al \<Longrightarrow> Q k \<Longrightarrow>
   find (\<lambda>(k, x). Q k) (AList.update k y al) = Some (k, y)"
  by (induction al) (auto split: if_splits)

section \<open>Binding the parameters\<close>

definition arg_value :: "env \<Rightarrow> vref option list \<Rightarrow> nat \<Rightarrow> rtval option" where
  "arg_value env args i =
     (if i < length args then (case args ! i of Some a \<Rightarrow> env a | None \<Rightarrow> None)
      else Some lowerConstUndefined)"

text \<open>A state of the copying: \<open>st\<close> and \<open>env0\<close> are the store and the environment before it.\<close>

definition copying :: "runtime \<Rightarrow> hstore \<Rightarrow> env \<Rightarrow> clone_state \<Rightarrow> env \<Rightarrow> bool" where
  "copying rt st env0 s env \<longleftrightarrow>
     next_vref st \<le> next_vref (cl_store s) \<and>
     (\<forall>v<next_vref st. vals (cl_store s) v = vals st v) \<and>
     (\<forall>k\<in>fst ` set (cl_map s). k < next_vref (cl_store s)) \<and>
     line rt (cl_out s) env0 env \<and> (\<forall>v<next_vref st. env v = env0 v)"

lemma copyingD:
  assumes "copying rt st env0 s env"
  shows "next_vref st \<le> next_vref (cl_store s)" and "v < next_vref st \<Longrightarrow> vals (cl_store s) v = vals st v"
    and "k \<in> fst ` set (cl_map s) \<Longrightarrow> k < next_vref (cl_store s)" and "line rt (cl_out s) env0 env"
    and "v < next_vref st \<Longrightarrow> env v = env0 v"
  using assms by (auto simp: copying_def)

definition mapped :: "clone_state \<Rightarrow> env \<Rightarrow> vref \<Rightarrow> rtval option \<Rightarrow> bool" where
  "mapped s env v x \<longleftrightarrow>
     (\<exists>w<next_vref (cl_store s). remap_value (cl_store s) (cl_map s) v = Some w \<and> env w = x)"

text \<open>The first \<open>j\<close> parameters are bound.\<close>

definition bound :: "hfunction \<Rightarrow> hstore \<Rightarrow> vref option list \<Rightarrow> env \<Rightarrow> nat \<Rightarrow> clone_state \<Rightarrow> env \<Rightarrow> bool" where
  "bound callee st args env0 j s env \<longleftrightarrow>
     (\<forall>k\<in>fst ` set (cl_map s). next_vref st \<le> k \<and> (\<exists>i<j. val_id (vals (cl_store s) k) = word_of_nat i)) \<and>
     (\<forall>i v. i < j \<longrightarrow> param_of callee st v i \<longrightarrow> mapped s env v (arg_value env0 args i)) \<and>
     (\<forall>i\<in>set (cl_out s). opcode i = ConstUndefined)"

lemma word32_of_nat_inj: "i < 2 ^ 32 \<Longrightarrow> j < 2 ^ 32 \<Longrightarrow> (word_of_nat i :: u32) = word_of_nat j \<Longrightarrow> i = j"
  by (simp add: of_nat_inverse word_of_nat_eq_iff take_bit_nat_eq_self)

text \<open>One more entry of the map, for a fresh parameter value at the end of the store.\<close>

lemma bind_entry:
  assumes cp: "copying rt st env0 s env" and bd: "bound callee st args env0 j s env"
    and j: "j < length (fn_params callee)" "length (fn_params callee) < 2 ^ 32"
    and pv: "pv = next_vref (cl_store s)" "vals st' pv = mk_value (word_of_nat j) ty (fst (fn_params callee ! j))"
    and old: "\<And>k. k < pv \<Longrightarrow> vals st' k = vals (cl_store s) k"
    and i: "i < Suc j" and v: "param_of callee st v i"
  shows "remap_value st' (AList.update pv y (cl_map s)) v =
    (if i = j then y else remap_value (cl_store s) (cl_map s) v)"
proof -
  note D = copyingD [OF cp]
  have vn: "v < next_vref st" "val_id (vals st v) = word_of_nat i" "i < length (fn_params callee)"
    "val_name (vals st v) = fst (fn_params callee ! i)"
    using v by (auto simp: param_of_def)
  have vst: "vals st' v = vals st v" "vals (cl_store s) v = vals st v" "v \<noteq> pv" "v < pv"
    using vn(1) D(1,2) old [of v] pv(1) by auto
  have keys: "next_vref st \<le> k" "k < pv" "\<exists>i'<j. val_id (vals (cl_store s) k) = word_of_nat i'"
    if "k \<in> fst ` set (cl_map s)" for k
    using that bd D(3) pv(1) by (auto simp: bound_def)
  show ?thesis
  proof (cases "i = j")
    case True
    have none: "map_of (cl_map s) v = None"
      using keys(1) [of v] vn(1) by (force simp: map_of_eq_None_iff)
    have "val_id (vals st' k) \<noteq> val_id (vals st' v)" if kin: "k \<in> fst ` set (cl_map s)" for k
    proof -
      obtain i' where "i' < j" "val_id (vals st' k) = word_of_nat i'"
        using keys(2,3) [OF kin] old [of k] by auto
      moreover have "(word_of_nat i' :: u32) \<noteq> word_of_nat j"
        using word32_of_nat_inj [of i' j] \<open>i' < j\<close> j by auto
      ultimately show ?thesis using vst(1) vn(2) True by simp
    qed
    then have "find (\<lambda>(k, x). val_id (vals st' k) = val_id (vals st' v) \<and>
        val_name (vals st' k) = val_name (vals st' v)) (cl_map s) = None"
      by (force simp: find_None_iff)
    moreover have "pv \<notin> fst ` set (cl_map s)" using keys(2) [of pv] by auto
    ultimately have "find (\<lambda>(k, x). val_id (vals st' k) = val_id (vals st' v) \<and>
        val_name (vals st' k) = val_name (vals st' v)) (AList.update pv y (cl_map s)) = Some (pv, y)"
      by (rule find_update_new) (use vst vn pv True in \<open>simp add: mk_value_def\<close>)
    then show ?thesis using True none vst(3) by (simp add: remap_value_def update_conv)
  next
    case False
    then have "(word_of_nat i :: u32) \<noteq> word_of_nat j"
      using word32_of_nat_inj [of i j] i j by auto
    then have "remap_value st' (AList.update pv y (cl_map s)) v = remap_value st' (cl_map s) v"
      using vst vn pv by (intro remap_update_other) (auto simp: mk_value_def)
    also have "\<dots> = remap_value (cl_store s) (cl_map s) v"
      by (rule remap_store) (use keys(2) vst old in auto)
    finally show ?thesis using False by simp
  qed
qed


definition good_args :: "hstore \<Rightarrow> vref option list \<Rightarrow> bool" where
  "good_args st args \<longleftrightarrow> list_all (\<lambda>a. case a of None \<Rightarrow> False | Some v \<Rightarrow> v < next_vref st) args"

lemma good_argsD: "good_args st args \<Longrightarrow> i < length args \<Longrightarrow> \<exists>a. args ! i = Some a \<and> a < next_vref st"
  by (auto simp: good_args_def list_all_length split: option.splits)

lemma undefined_computes:
  "computes rt (fst (new_inst ConstUndefined st)\<lparr>result := r\<rparr>) env lowerConstUndefined"
  by (rule computes_const) (simp_all add: new_inst_def const_loads_def const_ops_def)

lemma bind_param_step:
  assumes cp: "copying rt st env0 s env" and bd: "bound callee st args env0 j s env"
    and j: "j < length (fn_params callee)" "length (fn_params callee) < 2 ^ 32"
    and args: "good_args st args"
  shows "\<exists>env'. copying rt st env0 (bind_param args s (j, fn_params callee ! j)) env' \<and>
    bound callee st args env0 (Suc j) (bind_param args s (j, fn_params callee ! j)) env'"
proof -
  obtain nm ty where p: "fn_params callee ! j = (nm, ty)" by force
  let ?pv = "next_vref (cl_store s)"
  let ?stA = "snd (new_value (mk_value (word_of_nat j) ty nm) (cl_store s))"
  note D = copyingD [OF cp]
  have bdD: "mapped s env v (arg_value env0 args i)" if "i < j" "param_of callee st v i" for i v
    using bd that by (simp add: bound_def)
  show ?thesis
  proof (cases "j < length args")
    case True
    let ?s = "s\<lparr>cl_store := ?stA, cl_map := AList.update ?pv (args ! j) (cl_map s)\<rparr>"
    have s: "bind_param args s (j, fn_params callee ! j) = ?s"
      using True by (simp add: bind_param_def p new_value_def)
    obtain a where a: "args ! j = Some a" "a < next_vref st" using good_argsD [OF args True] by blast
    have "copying rt st env0 ?s env"
      using cp by (auto simp: copying_def new_value_def dom_update less_SucI)
    moreover have "mapped ?s env v (arg_value env0 args i)" if "i < Suc j" "param_of callee st v i" for i v
      using bind_entry [OF cp bd j refl _ _ that, of ?stA ty "args ! j"] bdD [OF _ that(2)] that(1) a D(1,5) True
      by (cases "i = j") (auto simp: mapped_def new_value_def p arg_value_def less_SucI)
    moreover have "next_vref st \<le> k \<and> (\<exists>i<Suc j. val_id (vals ?stA k) = word_of_nat i)"
      if "k \<in> fst ` set (AList.update ?pv (args ! j) (cl_map s))" for k
      using that bd D(1,3) by (cases "k = ?pv") (auto simp: bound_def dom_update new_value_def mk_value_def less_Suc_eq)
    ultimately show ?thesis
      using bd unfolding s by (intro exI [of _ env]) (simp add: bound_def)
  next
    case False
    let ?r = "Suc ?pv"
    let ?stC = "snd (new_inst ConstUndefined (snd (snd (createValue (cl_caller s) ?stA (Some (mkType KAny)) (nm @ ''_undef_inline'')))))"
    let ?u = "fst (new_inst ConstUndefined (snd (snd (createValue (cl_caller s) ?stA (Some (mkType KAny)) (nm @ ''_undef_inline'')))))\<lparr>result := Some ?r\<rparr>"
    let ?c = "fst (snd (createValue (cl_caller s) ?stA (Some (mkType KAny)) (nm @ ''_undef_inline'')))"
    let ?s = "s\<lparr>cl_caller := ?c, cl_store := ?stC, cl_map := AList.update ?pv (Some ?r) (cl_map s),
      cl_out := cl_out s @ [?u]\<rparr>"
    let ?env = "env(?r \<mapsto> lowerConstUndefined)"
    have s: "bind_param args s (j, fn_params callee ! j) = ?s"
      using False by (simp add: bind_param_def p new_value_def createValue_def new_inst_def Let_def)
    have st: "next_vref ?stC = Suc ?r" "vals ?stC ?pv = mk_value (word_of_nat j) ty nm"
      "\<And>k. k < ?pv \<Longrightarrow> vals ?stC k = vals (cl_store s) k"
      by (simp_all add: new_value_def createValue_def new_inst_def Let_def)
    have "line rt (cl_out s @ [?u]) env0 ?env"
      unfolding line_append using D(4) undefined_computes [where rt = rt and r = "Some ?r" and env = env]
      by (intro exI [of _ env]) (auto simp: line_Cons intro!: exI [of _ lowerConstUndefined])
    then have "copying rt st env0 ?s ?env"
      using cp st by (auto simp: copying_def dom_update less_SucI)
    moreover have "mapped ?s ?env v (arg_value env0 args i)"
      if im: "i < Suc j" "param_of callee st v i" for i v
    proof -
      have e: "remap_value ?stC (AList.update ?pv (Some ?r) (cl_map s)) v =
          (if i = j then Some ?r else remap_value (cl_store s) (cl_map s) v)"
        by (rule bind_entry [OF cp bd j refl _ _ im]) (use st p in simp_all)
      show ?thesis
      proof (cases "i = j")
        case True
        then show ?thesis using e st False by (simp add: mapped_def arg_value_def)
      next
        case neq: False
        then obtain w where w: "w < ?pv" "remap_value (cl_store s) (cl_map s) v = Some w"
          "env w = arg_value env0 args i"
          using bdD [OF _ im(2)] im(1) neq by (auto simp: mapped_def)
        then show ?thesis using e st neq by (simp add: mapped_def)
      qed
    qed
    moreover have "next_vref st \<le> k \<and> (\<exists>i<Suc j. val_id (vals ?stC k) = word_of_nat i)"
      if "k \<in> fst ` set (AList.update ?pv (Some ?r) (cl_map s))" for k
      using that bd D(1,3) st by (cases "k = ?pv") (auto simp: bound_def dom_update mk_value_def less_Suc_eq)
    moreover have "opcode ?u = ConstUndefined" by (simp add: new_inst_def)
    ultimately show ?thesis
      using bd unfolding s by (intro exI [of _ ?env]) (auto simp: bound_def)
  qed
qed

lemma bind_params_bound:
  assumes cp: "copying rt st env0 s env" and "cl_map s = []" "cl_out s = []"
    and "length (fn_params callee) < 2 ^ 32" and "good_args st args"
  shows "\<exists>env'. copying rt st env0 (bind_params args callee s) env' \<and>
    bound callee st args env0 (length (fn_params callee)) (bind_params args callee s) env'"
proof -
  let ?n = "length (fn_params callee)"
  let ?s = "\<lambda>j. foldl (bind_param args) s (zip [0..<j] (take j (fn_params callee)))"
  have "\<exists>env'. copying rt st env0 (?s j) env' \<and> bound callee st args env0 j (?s j) env'" if "j \<le> ?n" for j
    using that
  proof (induction j)
    case 0
    have "bound callee st args env0 0 s env" using assms(2,3) by (simp add: bound_def)
    then show ?case using cp by auto
  next
    case (Suc j)
    then obtain env' where "copying rt st env0 (?s j) env'" "bound callee st args env0 j (?s j) env'" by auto
    moreover have "?s (Suc j) = bind_param args (?s j) (j, fn_params callee ! j)"
      using Suc.prems by (simp add: take_Suc_conv_app_nth)
    ultimately show ?case using bind_param_step [OF _ _ _ assms(4,5)] Suc.prems by simp
  qed
  from this [of ?n] show ?thesis by (simp add: bind_params_def)
qed


section \<open>Copying the instructions\<close>

definition rename :: "hstore \<Rightarrow> value_map \<Rightarrow> hoperand \<Rightarrow> hoperand" where
  "rename st vm x = (case x of OVal (Some v) \<Rightarrow> OVal (remap_value st vm v) | _ \<Rightarrow> x)"

lemma map_all_operands:
  "OVal None \<notin> set xs \<Longrightarrow> map_all (remap_operand st vm) xs = Some (map (rename st vm) xs)"
  by (induction xs) (auto simp: remap_operand_def remap_def rename_def split: hoperand.split option.split)

lemma map_all_entries:
  "None \<notin> fst ` set ps \<Longrightarrow> \<exists>qs. map_all (remap_entry st vm) ps = Some qs"
  by (induction ps) (auto simp: remap_entry_def remap_def split: option.split)

text \<open>The values of the callee in \<open>K\<close> have the same values in the copy.\<close>

definition related :: "hfunction \<Rightarrow> hstore \<Rightarrow> vref set \<Rightarrow> clone_state \<Rightarrow> env \<Rightarrow> env \<Rightarrow> bool" where
  "related callee st K s env cenv \<longleftrightarrow>
     (\<forall>v\<in>K. v < next_vref st \<and> mapped s env v (cenv v) \<and>
        ((\<exists>i. param_of callee st v i) \<or> map_of (cl_map s) v \<noteq> None))"

text \<open>Every use is of a parameter or of an earlier result; no pointer is null.\<close>

fun uses_known :: "vref set \<Rightarrow> hinst list \<Rightarrow> bool" where
  "uses_known K [] \<longleftrightarrow> True"
| "uses_known K (i # is) \<longleftrightarrow>
     OVal None \<notin> set (operands i) \<and> None \<notin> fst ` set (phiIncoming i) \<and> set (inst_uses i) \<subseteq> K \<and>
     (case result i of None \<Rightarrow> uses_known K is | Some r \<Rightarrow> r \<notin> K \<and> uses_known (insert r K) is)"

text \<open>The results of the callee are numbered after its parameters.\<close>

definition own_result :: "hfunction \<Rightarrow> hstore \<Rightarrow> vref \<Rightarrow> bool" where
  "own_result callee st r \<longleftrightarrow>
     r < next_vref st \<and> length (fn_params callee) \<le> unat (val_id (vals st r))"

lemma own_result_not_param:
  assumes "own_result callee st r" and "param_of callee st v i" and "length (fn_params callee) < 2 ^ 32"
  shows "val_id (vals st r) \<noteq> val_id (vals st v)"
proof -
  have "i < length (fn_params callee)" "val_id (vals st v) = word_of_nat i"
    using assms(2) by (simp_all add: param_of_def)
  moreover from this assms(3) have "unat (word_of_nat i :: u32) = i"
    by (simp add: of_nat_inverse)
  ultimately show ?thesis using assms(1) by (auto simp: own_result_def)
qed

lemma clone_inst_step:
  assumes cp: "copying rt st env0 s env" and rel: "related callee st K s env cenv"
    and np: "length (fn_params callee) < 2 ^ 32" and uses: "uses_known K [i]"
    and owns: "\<forall>r\<in>set_option (result i). own_result callee st r" and comp: "computes rt i cenv x"
  shows "\<exists>s' c env'. clone_inst i s = Some s' \<and> cl_out s' = cl_out s @ [c] \<and> opcode c = opcode i \<and>
    operands c = map (rename (cl_store s') (cl_map s')) (operands i) \<and>
    (result c = None \<longleftrightarrow> result i = None) \<and>
    copying rt st env0 s' env' \<and>
    related callee st (K \<union> set_option (result i)) s' env' (setValue cenv (result i) x)"
proof -
  note D = copyingD [OF cp]
  have own: "own_result callee st r" if "result i = Some r" for r using owns that by simp
  obtain c0 st1 where ni: "new_inst (opcode i) (cl_store s) = (c0, st1)" by force
  obtain r1 s1 where cr: "clone_result i (s\<lparr>cl_store := st1\<rparr>) = (r1, s1)" by force
  have st1: "vals st1 = vals (cl_store s)" "next_vref st1 = next_vref (cl_store s)" "opcode c0 = opcode i"
    using ni by (auto simp: new_inst_def)
  have s1: "cl_out s1 = cl_out s" "next_vref (cl_store s) \<le> next_vref (cl_store s1)"
    "\<And>v. v < next_vref (cl_store s) \<Longrightarrow> vals (cl_store s1) v = vals (cl_store s) v"
    "r1 = None \<longleftrightarrow> result i = None"
    "\<And>r. result i = Some r \<Longrightarrow> cl_map s1 = AList.update r (Some (next_vref (cl_store s))) (cl_map s) \<and>
       r1 = Some (next_vref (cl_store s)) \<and> next_vref (cl_store s1) = Suc (next_vref (cl_store s))"
    "result i = None \<Longrightarrow> cl_map s1 = cl_map s \<and> next_vref (cl_store s1) = next_vref (cl_store s)"
    using cr st1 by (auto simp: clone_result_def createValue_def Let_def split: option.splits)
  have s1keys: "fst ` set (cl_map s1) = fst ` set (cl_map s) \<union> set_option (result i)"
    using s1(5,6) by (cases "result i") (simp_all add: dom_update)
  have relD: "v < next_vref st" "mapped s env v (cenv v)"
    "(\<exists>j. param_of callee st v j) \<or> map_of (cl_map s) v \<noteq> None" if "v \<in> K" for v
    using rel that by (simp_all add: related_def)
  have kept: "remap_value (cl_store s1) (cl_map s1) v = remap_value (cl_store s) (cl_map s) v" if "v \<in> K" for v
  proof -
    have keep: "remap_value (cl_store s1) (cl_map s) v = remap_value (cl_store s) (cl_map s) v"
      by (rule remap_store) (use s1(3) D(1,3) relD(1) [OF that] in auto)
    show ?thesis
    proof (cases "result i")
      case None
      then show ?thesis using keep s1(6) by simp
    next
      case (Some r)
      then have "v \<noteq> r" "own_result callee st r" using uses own that by auto
      then have "val_id (vals (cl_store s1) r) \<noteq> val_id (vals (cl_store s1) v) \<or> map_of (cl_map s) v \<noteq> None"
        using relD [OF that] own_result_not_param [OF _ _ np] s1(3) D(1,2)
        by (metis own_result_def order.strict_trans2)
      then show ?thesis
        using remap_update_other [OF \<open>v \<noteq> r\<close>] remap_update_mapped [OF \<open>v \<noteq> r\<close>] keep s1(5) [OF Some] by auto
    qed
  qed
  let ?c = "c0\<lparr>result := r1, operands := map (rename (cl_store s1) (cl_map s1)) (operands i),
    phiIncoming := the (map_all (remap_entry (cl_store s1) (cl_map s1)) (phiIncoming i)),
    switchCases := switchCases i, switchDefault := switchDefault i, sourceFileIdx := sourceFileIdx i,
    sourceLine := sourceLine i, sourceColumn := sourceColumn i\<rparr>"
  let ?s = "s1\<lparr>cl_out := cl_out s1 @ [?c]\<rparr>"
  have clone: "clone_inst i s = Some ?s"
    using map_all_operands [of "operands i"] map_all_entries [of "phiIncoming i" "cl_store s1" "cl_map s1"] uses
    by (auto simp: clone_inst_def ni cr)
  have "same_operand cenv env y (rename (cl_store s1) (cl_map s1) y)" if "y \<in> set (operands i)" for y
  proof (cases "op_val y")
    case None
    then show ?thesis using that uses
      by (auto simp: same_operand_def rename_def op_val_def split: hoperand.splits option.splits)
  next
    case (Some v)
    then have y: "y = OVal (Some v)" by (auto simp: op_val_def split: hoperand.splits)
    then have "v \<in> set (inst_uses i)"
      using that Some by (force simp: inst_uses_def List.map_filter_def)
    then have "v \<in> K" using uses by auto
    then show ?thesis
      using kept [OF \<open>v \<in> K\<close>] relD(2) [OF \<open>v \<in> K\<close>]
      by (auto simp: y same_operand_def rename_def mapped_def getOperandValue_def)
  qed
  then have "list_all2 (same_operand cenv env) (operands i) (operands ?c)"
    by (simp add: list_all2_map2 list.rel_refl_strong list_all2_same)
  then have c: "computes rt ?c env x"
    by (intro computes_same [OF comp]) (simp_all add: st1)
  let ?env = "setValue env r1 x"
  have "line rt (cl_out ?s) env0 ?env"
    unfolding hoperand.simps using c D(4) by (auto simp: s1(1) line_append line_Cons)
  then have "copying rt st env0 ?s ?env"
    using D s1 s1keys own
    by (cases "result i") (auto simp: copying_def own_result_def less_SucI)
  moreover have "related callee st (K \<union> set_option (result i)) ?s ?env (setValue cenv (result i) x)"
  proof (cases "result i")
    case None
    then show ?thesis using relD kept s1(4,6) by (simp add: related_def mapped_def)
  next
    case (Some r)
    note new = s1(5) [OF Some]
    have "r \<notin> K" using uses Some by auto
    have "mapped ?s ?env v (cenv v)" if vK: "v \<in> K" for v
    proof -
      obtain w where "w < next_vref (cl_store s)" "remap_value (cl_store s) (cl_map s) v = Some w" "env w = cenv v"
        using relD(2) [OF vK] by (auto simp: mapped_def)
      then show ?thesis using kept [OF vK] new by (simp add: mapped_def)
    qed
    moreover have "mapped ?s ?env r (Some x)" using new by (simp add: mapped_def)
    moreover have "r < next_vref st" using own [OF Some] by (simp add: own_result_def)
    ultimately show ?thesis
      using relD(1,3) Some new \<open>r \<notin> K\<close> by (auto simp: related_def update_conv)
  qed
  ultimately show ?thesis
    using clone s1 st1 by (intro exI [of _ ?s] exI [of _ ?c] exI [of _ ?env]) simp
qed


lemma uses_known_Cons:
  "uses_known K (i # is) \<longleftrightarrow> uses_known K [i] \<and> uses_known (K \<union> set_option (result i)) is"
  by (cases "result i") simp_all

lemma clone_list_step:
  assumes "copying rt st env0 s env" and "related callee st K s env cenv"
    and np: "length (fn_params callee) < 2 ^ 32" and "uses_known K is"
    and "\<forall>r\<in>set (results is). own_result callee st r" and "line rt is cenv cenv'"
  shows "\<exists>s' out env'. clone_list is s = Some s' \<and> cl_out s' = cl_out s @ out \<and>
    list_all2 (\<lambda>i c. opcode c = opcode i \<and> (result c = None \<longleftrightarrow> result i = None)) is out \<and>
    copying rt st env0 s' env' \<and> related callee st (K \<union> set (results is)) s' env' cenv'"
  using assms
proof (induction "is" arbitrary: s env K cenv)
  case Nil
  then show ?case by auto
next
  case (Cons i "is")
  obtain x where x: "computes rt i cenv x" "line rt is (setValue cenv (result i) x) cenv'"
    using Cons.prems(6) by (auto simp: line_Cons)
  have u: "uses_known K [i]" "uses_known (K \<union> set_option (result i)) is"
    using Cons.prems(4) unfolding uses_known_Cons [of K i "is"] by simp_all
  have own: "\<forall>r\<in>set_option (result i). own_result callee st r" "\<forall>r\<in>set (results is). own_result callee st r"
    using Cons.prems(5) by (simp_all split: option.splits)
  obtain s1 c env1 where c: "clone_inst i s = Some s1" "cl_out s1 = cl_out s @ [c]" "opcode c = opcode i"
    "result c = None \<longleftrightarrow> result i = None" "copying rt st env0 s1 env1"
    "related callee st (K \<union> set_option (result i)) s1 env1 (setValue cenv (result i) x)"
    using clone_inst_step [OF Cons.prems(1,2) np u(1) own(1) x(1)]
    by (elim exE conjE) (rule that, assumption+)
  obtain s2 out env2 where s2: "clone_list is s1 = Some s2" "cl_out s2 = cl_out s1 @ out"
    "list_all2 (\<lambda>i c. opcode c = opcode i \<and> (result c = None \<longleftrightarrow> result i = None)) is out"
    "copying rt st env0 s2 env2"
    "related callee st (K \<union> set_option (result i) \<union> set (results is)) s2 env2 cenv'"
    using Cons.IH [OF c(5,6) np u(2) own(2) x(2)] by blast
  have "K \<union> set_option (result i) \<union> set (results is) = K \<union> set (results (i # is))"
    by (auto split: option.split)
  then show ?case
    using c s2 by (intro exI [of _ s2] exI [of _ "c # out"] exI [of _ env2]) simp
qed

lemma clone_list_append:
  "clone_list (xs @ ys) s = (case clone_list xs s of None \<Rightarrow> None | Some s' \<Rightarrow> clone_list ys s')"
  by (induction xs arbitrary: s) (auto split: option.split)

section \<open>The body of the callee\<close>

text \<open>A callee that returns the value \<open>v\<close> at the end of its one block.\<close>

definition inlinable :: "hfunction \<Rightarrow> hstore \<Rightarrow> hinst list \<Rightarrow> hinst \<Rightarrow> vref \<Rightarrow> bool" where
  "inlinable callee st pre ret v \<longleftrightarrow>
     (\<exists>b. blocks callee = [b] \<and> instructions b = pre @ [ret]) \<and>
     opcode ret = Return \<and> operands ret = [OVal (Some v)] \<and> result ret = None \<and> phiIncoming ret = [] \<and>
     list_all (\<lambda>i. opcode i \<notin> {Return, ReturnVoid}) pre \<and>
     length (fn_params callee) < 2 ^ 32 \<and>
     uses_known {u. \<exists>i. param_of callee st u i} (pre @ [ret]) \<and>
     list_all (own_result callee st) (results pre)"

lemma uses_known_append:
  "uses_known K (xs @ ys) \<longleftrightarrow> uses_known K xs \<and> uses_known (K \<union> set (results xs)) ys"
proof (induction xs arbitrary: K)
  case (Cons i xs)
  have "K \<union> set_option (result i) \<union> set (results xs) = K \<union> set (results (i # xs))"
    by (auto split: option.split)
  then show ?case
    using Cons.IH [of "K \<union> set_option (result i)"] uses_known_Cons [of K i xs]
      uses_known_Cons [of K i "xs @ ys"] by simp
qed simp

lemma cloned_body:
  assumes inl: "inlinable callee st pre ret v" and args: "good_args st args"
    and bind: "\<And>u i. param_of callee st u i \<Longrightarrow> cenv u = arg_value env args i"
    and run: "line rt pre cenv cenv'" and x: "cenv' v = Some x"
  shows "\<exists>s w env'. cloneInstructions callee args caller st = Some s \<and> findReturnValue (cl_out s) = Some w \<and>
    line rt (filter (\<lambda>i. opcode i \<notin> {Return, ReturnVoid}) (cl_out s)) env env' \<and> env' w = Some x \<and>
    next_vref st \<le> next_vref (cl_store s) \<and> (\<forall>u<next_vref st. env' u = env u)"
proof -
  obtain b where b: "blocks callee = [b]" "instructions b = pre @ [ret]"
    and ret: "opcode ret = Return" "operands ret = [OVal (Some v)]" "result ret = None"
    and np: "length (fn_params callee) < 2 ^ 32"
    and uses: "uses_known {u. \<exists>i. param_of callee st u i} (pre @ [ret])"
    and own: "\<forall>r\<in>set (results pre). own_result callee st r"
    and body: "\<And>i. i \<in> set pre \<Longrightarrow> opcode i \<notin> {Return, ReturnVoid}"
    using inl by (auto simp: inlinable_def list_all_iff)
  let ?K = "{u. \<exists>i. param_of callee st u i}"
  let ?s0 = "\<lparr>cl_caller = caller, cl_store = st, cl_map = [], cl_out = []\<rparr>"
  let ?s1 = "bind_params args callee ?s0"
  have "copying rt st env ?s0 env" by (simp add: copying_def)
  from bind_params_bound [OF this _ _ np args] obtain env1 where
    cp1: "copying rt st env ?s1 env1" and bd: "bound callee st args env (length (fn_params callee)) ?s1 env1"
    by auto
  have rel1: "related callee st ?K ?s1 env1 cenv"
    using bd bind by (auto simp: related_def bound_def param_of_def)
  obtain s2 out env2 where s2: "clone_list pre ?s1 = Some s2" "cl_out s2 = cl_out ?s1 @ out"
    "list_all2 (\<lambda>i c. opcode c = opcode i \<and> (result c = None \<longleftrightarrow> result i = None)) pre out"
    "copying rt st env s2 env2" "related callee st (?K \<union> set (results pre)) s2 env2 cenv'"
    using clone_list_step [OF cp1 rel1 np _ own run] uses by (auto simp: uses_known_append)
  have "computes rt ret cenv' x"
    by (rule computes_other) (simp add: ret computed_ops_def const_ops_def binary_ops_def unary_ops_def)
  moreover have uret: "uses_known (?K \<union> set (results pre)) [ret]"
    using uses by (simp add: uses_known_append)
  ultimately obtain s3 c env3 where s3: "clone_inst ret s2 = Some s3" "cl_out s3 = cl_out s2 @ [c]"
    "opcode c = Return" "operands c = map (rename (cl_store s3) (cl_map s3)) (operands ret)" "result c = None"
    "copying rt st env s3 env3" "related callee st (?K \<union> set (results pre)) s3 env3 cenv'"
    using clone_inst_step [OF s2(4,5) np uret, of x] ret by auto
  have "v \<in> ?K \<union> set (results pre)"
    using uret ret by (simp add: inst_uses_def List.map_filter_simps)
  then have "mapped s3 env3 v (cenv' v)" using s3(7) unfolding related_def by blast
  then obtain w where w: "remap_value (cl_store s3) (cl_map s3) v = Some w" "env3 w = Some x"
    using x by (auto simp: mapped_def)
  have clone: "cloneInstructions callee args caller st = Some s3"
    using b s2(1) s3(1) by (simp add: cloneInstructions_def clone_list_append)
  have undef: "opcode i = ConstUndefined" if "i \<in> set (cl_out ?s1)" for i
    using bd that by (simp add: bound_def)
  have ops: "opcode c' \<notin> {Return, ReturnVoid}" if mem: "c' \<in> set out" for c'
  proof -
    obtain k where k: "k < length out" "c' = out ! k" using mem by (auto simp: in_set_conv_nth)
    then have "opcode c' = opcode (pre ! k)" "pre ! k \<in> set pre"
      using s2(3) by (auto simp: list_all2_conv_all_nth)
    then show ?thesis using body by simp
  qed
  have before: "opcode c' \<notin> {Return, ReturnVoid}" if "c' \<in> set (cl_out s2)" for c'
    using that undef ops s2(2) by auto
  have "findReturnValue (cl_out s3) = Some w"
  proof -
    have "find P (xs @ [y]) = Some y" if "\<And>z. z \<in> set xs \<Longrightarrow> \<not> P z" "P y" for P :: "hinst \<Rightarrow> bool" and xs y
      using that by (induction xs) auto
    from this [of "cl_out s2" "\<lambda>i. opcode i = Return \<and> (case operands i of OVal _ # _ \<Rightarrow> True | _ \<Rightarrow> False)" c]
    show ?thesis using before s3(2,3,4) ret(2) w(1) by (auto simp: findReturnValue_def rename_def)
  qed
  moreover have "line rt (filter (\<lambda>i. opcode i \<notin> {Return, ReturnVoid}) (cl_out s3)) env env3"
    by (rule line_filter [OF copyingD(4) [OF s3(6)]]) (use before s3(2,5) in auto)
  ultimately show ?thesis
    using clone w(2) copyingD(1,5) [OF s3(6)] by blast
qed


section \<open>The block with the call\<close>

lemma bind_param_blocks [simp]: "blocks (cl_caller (bind_param args s p)) = blocks (cl_caller s)"
  by (auto simp: bind_param_def createValue_def new_value_def new_inst_def Let_def split: prod.split)

lemma bind_params_blocks [simp]: "blocks (cl_caller (bind_params args callee s)) = blocks (cl_caller s)"
proof -
  have "blocks (cl_caller (foldl (bind_param args) s ps)) = blocks (cl_caller s)" for ps
    by (induction ps arbitrary: s) simp_all
  then show ?thesis by (simp add: bind_params_def)
qed

lemma clone_inst_blocks: "clone_inst i s = Some s' \<Longrightarrow> blocks (cl_caller s') = blocks (cl_caller s)"
  by (auto simp: clone_inst_def clone_result_def createValue_def new_inst_def Let_def split: option.splits)

lemma clone_list_blocks: "clone_list is s = Some s' \<Longrightarrow> blocks (cl_caller s') = blocks (cl_caller s)"
  by (induction "is" arbitrary: s) (auto dest: clone_inst_blocks split: option.splits)

lemma cloneInstructions_blocks:
  "cloneInstructions callee args caller st = Some s \<Longrightarrow> blocks (cl_caller s) = blocks caller"
  by (cases "blocks callee") (auto simp: cloneInstructions_def dest: clone_list_blocks)

lemma replace_uses_sel [simp]:
  "opcode (replace_uses r w i) = opcode i" "result (replace_uses r w i) = result i"
  "iaddr (replace_uses r w i) = iaddr i"
  by (simp_all add: replace_uses_def)

lemma phi_in_uses: "(Some u, b) \<in> set (phiIncoming i) \<Longrightarrow> u \<in> set (inst_uses i)"
  by (force simp: inst_uses_def List.map_filter_def image_iff)

lemma replace_uses_other:
  assumes "r \<notin> set (inst_uses i)"
  shows "replace_uses r w i = i"
proof -
  have "(case x of OVal y \<Rightarrow> OVal (replace_value r w y) | _ \<Rightarrow> x) = x" if "x \<in> set (operands i)" for x
    using that assms by (force simp: inst_uses_def List.map_filter_def replace_value_def split: hoperand.split)
  then have o: "map (\<lambda>x. case x of OVal y \<Rightarrow> OVal (replace_value r w y) | _ \<Rightarrow> x) (operands i) = operands i"
    by (intro map_idI)
  have "(case p of (y, b) \<Rightarrow> (replace_value r w y, b)) = p" if "p \<in> set (phiIncoming i)" for p
    by (cases p) (use that assms phi_in_uses [of r "snd p" i] in \<open>auto simp: replace_value_def\<close>)
  then have "map (\<lambda>(y, b). (replace_value r w y, b)) (phiIncoming i) = phiIncoming i"
    by (intro map_idI)
  with o show ?thesis by (simp add: replace_uses_def)
qed

text \<open>What follows the call reads the returned value under its new name.\<close>

lemma line_replace:
  assumes "line rt is envO envO'" and "\<forall>i\<in>set is. \<forall>u\<in>set (inst_uses i). u < n"
    and "\<forall>u\<in>set (results is). u < n \<and> u \<noteq> r \<and> u \<noteq> w"
    and "\<forall>u<n. u \<noteq> r \<longrightarrow> envI u = envO u" and "envI w = Some x" and "envO r = Some x"
  shows "\<exists>envI'. line rt (map (replace_uses r w) is) envI envI' \<and> (\<forall>u<n. u \<noteq> r \<longrightarrow> envI' u = envO' u)"
  using assms
proof (induction arbitrary: envI rule: line.induct)
  case (line_nil env)
  then show ?case by auto
next
  case (line_cons i envO y "is" envO')
  have "same_operand envO envI z (case z of OVal v \<Rightarrow> OVal (replace_value r w v) | _ \<Rightarrow> z)"
    if "z \<in> set (operands i)" for z
  proof (cases "op_val z")
    case None
    then show ?thesis
      by (auto simp: same_operand_def op_val_def replace_value_def getOperandValue_def split: hoperand.splits)
  next
    case (Some u)
    then have z: "z = OVal (Some u)" by (auto simp: op_val_def split: hoperand.splits)
    then have "u \<in> set (inst_uses i)" using that Some by (force simp: inst_uses_def List.map_filter_def)
    then have "u < n" using line_cons.prems(1) by simp
    then show ?thesis using line_cons.prems(3,4,5)
      by (auto simp: z same_operand_def replace_value_def getOperandValue_def)
  qed
  then have "list_all2 (same_operand envO envI) (operands i) (operands (replace_uses r w i))"
    by (simp add: replace_uses_def list_all2_map2 list_all2_same)
  then have comp: "computes rt (replace_uses r w i) envI y"
    by (intro computes_same [OF line_cons.hyps(1)]) simp_all
  let ?I = "setValue envI (result i) y"
  have res: "\<forall>u\<in>set_option (result i). u < n \<and> u \<noteq> r \<and> u \<noteq> w"
    "\<forall>u\<in>set (results is). u < n \<and> u \<noteq> r \<and> u \<noteq> w"
    using line_cons.prems(2) by (simp_all split: option.splits)
  have "\<exists>envI'. line rt (map (replace_uses r w) is) ?I envI' \<and> (\<forall>u<n. u \<noteq> r \<longrightarrow> envI' u = envO' u)"
  proof (rule line_cons.IH)
    show "\<forall>i\<in>set is. \<forall>u\<in>set (inst_uses i). u < n" using line_cons.prems(1) by simp
    show "\<forall>u<n. u \<noteq> r \<longrightarrow> ?I u = setValue envO (result i) y u"
      using line_cons.prems(3) by (cases "result i") auto
    show "?I w = Some x" "setValue envO (result i) y r = Some x"
      using line_cons.prems(4,5) res(1) by (cases "result i"; auto)+
  qed (rule res(2))
  then obtain envI' where "line rt (map (replace_uses r w) is) ?I envI'" "\<forall>u<n. u \<noteq> r \<longrightarrow> envI' u = envO' u"
    by blast
  moreover from this have "line rt (map (replace_uses r w) (i # is)) envI envI'"
    using comp by (auto simp: line_Cons)
  ultimately show ?case by blast
qed

lemma splice_at_simps [simp]:
  "splice_at a new [] = []"
  "splice_at a new (i # is) = (if iaddr i = a then new else [i]) @ splice_at a new is"
  "splice_at a new (xs @ ys) = splice_at a new xs @ splice_at a new ys"
  by (simp_all add: splice_at_def)

lemma splice_at_other: "a \<notin> iaddr ` set is \<Longrightarrow> splice_at a new is = is"
  by (induction "is") auto

text \<open>The run of a block around a call of the callee: what comes before the call, the callee on
  its own values with the parameters bound to the arguments, and what comes after with the value
  that the callee returned.\<close>

definition call_run ::
  "runtime \<Rightarrow> hfunction \<Rightarrow> hstore \<Rightarrow> hinst list \<Rightarrow> vref \<Rightarrow> hinst list \<Rightarrow> hinst \<Rightarrow> vref \<Rightarrow> hinst list \<Rightarrow> env \<Rightarrow> env \<Rightarrow> bool" where
  "call_run rt callee st pre v before call r after env0 env' \<longleftrightarrow>
     (\<exists>env cenv cenv' x. line rt before env0 env \<and>
        (\<forall>u i. param_of callee st u i \<longrightarrow> cenv u = arg_value env (value_args call) i) \<and>
        line rt pre cenv cenv' \<and> cenv' v = Some x \<and>
        (\<forall>u\<in>set (results after). env u = None) \<and>
        line rt after (env(r \<mapsto> x)) env')"

text \<open>The values around the call: allocated, assigned once, and the result not used before.\<close>

definition call_scope :: "hstore \<Rightarrow> hinst list \<Rightarrow> hinst \<Rightarrow> vref \<Rightarrow> hinst list \<Rightarrow> bool" where
  "call_scope st before call r after \<longleftrightarrow>
     result call = Some r \<and> good_args st (value_args call) \<and>
     iaddr call \<notin> iaddr ` set (before @ after) \<and>
     list_all (\<lambda>i. r \<notin> set (inst_uses i)) before \<and>
     list_all (\<lambda>i. list_all (\<lambda>u. u < next_vref st) (inst_uses i)) after \<and>
     list_all (\<lambda>u. u < next_vref st \<and> u \<noteq> r) (results after)"

lemma inlined_call:
  assumes inl: "inlinable callee st pre ret v" and scope: "call_scope st before call r after"
    and blk: "blk \<in> set (blocks caller)" "instructions blk = before @ call # after"
    and run: "call_run rt callee st pre v before call r after env0 env'"
  shows "\<exists>caller' st' new w envI. inlineCall caller st call callee = Some (caller', st') \<and>
    blocks caller' = map (\<lambda>b. b\<lparr>instructions := splice_at (iaddr call) new (map (replace_uses r w) (instructions b))\<rparr>) (blocks caller) \<and>
    line rt (splice_at (iaddr call) new (map (replace_uses r w) (instructions blk))) env0 envI \<and>
    (\<forall>u<next_vref st. u \<noteq> r \<longrightarrow> envI u = env' u)"
proof -
  from run obtain env cenv cenv' x where r1: "line rt before env0 env"
    and bind: "\<And>u i. param_of callee st u i \<Longrightarrow> cenv u = arg_value env (value_args call) i"
    and body: "line rt pre cenv cenv'" "cenv' v = Some x"
    and fresh: "\<forall>u\<in>set (results after). env u = None" and r2: "line rt after (env(r \<mapsto> x)) env'"
    by (auto simp: call_run_def)
  from scope have call: "result call = Some r" "good_args st (value_args call)"
    and addr: "iaddr call \<notin> iaddr ` set before" "iaddr call \<notin> iaddr ` set after"
    and unused: "\<And>i. i \<in> set before \<Longrightarrow> r \<notin> set (inst_uses i)"
    and known: "\<forall>i\<in>set after. \<forall>u\<in>set (inst_uses i). u < next_vref st"
    and res: "\<forall>u\<in>set (results after). u < next_vref st \<and> u \<noteq> r"
    by (auto simp: call_scope_def list_all_iff)
  obtain s w env1 where s: "cloneInstructions callee (value_args call) caller st = Some s"
    "findReturnValue (cl_out s) = Some w"
    "line rt (filter (\<lambda>i. opcode i \<notin> {Return, ReturnVoid}) (cl_out s)) env env1" "env1 w = Some x"
    "\<forall>u<next_vref st. env1 u = env u"
    using cloned_body [OF inl call(2) bind body, of caller] by blast
  let ?new = "filter (\<lambda>i. opcode i \<notin> {Return, ReturnVoid}) (cl_out s)"
  have "u \<noteq> w" if "u \<in> set (results after)" for u
  proof
    assume "u = w"
    then have "env u = Some x" using that res s(4,5) by auto
    then show False using fresh that by simp
  qed
  then have "\<exists>envI. line rt (map (replace_uses r w) after) env1 envI \<and> (\<forall>u<next_vref st. u \<noteq> r \<longrightarrow> envI u = env' u)"
    using res s(4,5) by (intro line_replace [OF r2 known, where envI = env1 and x = x]) auto
  then obtain envI where I: "line rt (map (replace_uses r w) after) env1 envI"
    "\<forall>u<next_vref st. u \<noteq> r \<longrightarrow> envI u = env' u" by blast
  have "map (replace_uses r w) before = before"
    using unused by (intro map_idI replace_uses_other) auto
  moreover have "splice_at (iaddr call) ?new (map (replace_uses r w) after) = map (replace_uses r w) after"
    using addr(2) by (intro splice_at_other) (auto simp: image_image)
  ultimately have "splice_at (iaddr call) ?new (map (replace_uses r w) (instructions blk)) =
      before @ ?new @ map (replace_uses r w) after"
    using blk(2) splice_at_other [OF addr(1)] by simp
  moreover have "line rt (before @ ?new @ map (replace_uses r w) after) env0 envI"
    unfolding line_append using r1 s(3) I(1) by blast
  moreover have "blocks (cl_caller s) = blocks caller" by (rule cloneInstructions_blocks [OF s(1)])
  ultimately show ?thesis
    using s(1,2) call(1) I(2)
    by (intro exI [of _ "(cl_caller s)\<lparr>blocks := map (\<lambda>b. b\<lparr>instructions := splice_at (iaddr call) ?new (map (replace_uses r w) (instructions b))\<rparr>) (blocks caller)\<rparr>"]
        exI [of _ "cl_store s"] exI [of _ ?new] exI [of _ w] exI [of _ envI])
      (simp add: inlineCall_def Let_def)
qed



text \<open>The callee doubles its parameter; the caller doubles 5 and negates the result.\<close>

definition inl_inst :: "nat \<Rightarrow> hiropcode \<Rightarrow> vref option \<Rightarrow> hoperand list \<Rightarrow> hinst" where
  "inl_inst a op r xs = (mk_inst op a)\<lparr>result := r, operands := xs\<rparr>"

definition inl_store :: hstore where
  "inl_store = \<lparr>vals = (\<lambda>v. mk_value (if v = 20 then 0 else word_of_nat (v + 1)) None (if v = 20 then ''x'' else [])),
     next_vref = 30, next_iaddr = 10\<rparr>"

definition inl_fn :: "string \<Rightarrow> (string \<times> htype option) list \<Rightarrow> hinst list \<Rightarrow> hfunction" where
  "inl_fn nm ps is = \<lparr>fn_name = nm, mangledName = nm, fn_returnType = None, fn_params = ps,
     blocks = [\<lparr>baddr = 0, blk_label = ''entry'', blk_params = [], instructions = is,
       predecessors = [], successors = []\<rparr>],
     captures = [], isAsync = False, isGenerator = False, nextValueId = 40\<rparr>"

definition inl_pre :: "hinst list" where
  "inl_pre = [inl_inst 0 MulI64 (Some 21) [OVal (Some 20), OInt 2]]"

definition inl_ret :: hinst where
  "inl_ret = inl_inst 1 Return None [OVal (Some 21)]"

definition inl_before :: "hinst list" where
  "inl_before = [inl_inst 2 ConstInt (Some 10) [OInt 5]]"

definition inl_call :: hinst where
  "inl_call = inl_inst 3 Call (Some 11) [OStr ''double'', OVal (Some 10)]"

definition inl_after :: "hinst list" where
  "inl_after = [inl_inst 4 NegI64 (Some 12) [OVal (Some 11)]]"

definition inl_callee :: hfunction where
  "inl_callee = inl_fn ''double'' [(''x'', None)] (inl_pre @ [inl_ret])"

definition inl_caller :: hfunction where
  "inl_caller = inl_fn ''user_main'' [] (inl_before @ inl_call # inl_after)"

lemma inl_inst_sel [simp]:
  "opcode (inl_inst a op r xs) = op" "result (inl_inst a op r xs) = r" "operands (inl_inst a op r xs) = xs"
  "iaddr (inl_inst a op r xs) = a" "phiIncoming (inl_inst a op r xs) = []"
  "inst_uses (inl_inst a op r xs) = List.map_filter op_val xs"
  by (simp_all add: inl_inst_def mk_inst_def inst_uses_def List.map_filter_simps)

lemma inl_param: "param_of inl_callee inl_store u i \<longleftrightarrow> u = 20 \<and> i = 0"
  by (auto simp: param_of_def inl_callee_def inl_fn_def inl_store_def mk_value_def)

lemma inl_inlinable: "inlinable inl_callee inl_store inl_pre inl_ret 21"
  unfolding inlinable_def inl_param
  by (simp add: inl_callee_def inl_fn_def inl_pre_def inl_ret_def own_result_def inl_store_def mk_value_def
      List.map_filter_simps)

lemma inl_scope: "call_scope inl_store inl_before inl_call 11 inl_after"
  by (simp add: call_scope_def inl_call_def inl_before_def inl_after_def good_args_def value_args_def
      inl_store_def List.map_filter_simps)


lemma inl_run:
  "call_run rt inl_callee inl_store inl_pre 21 inl_before inl_call 11 inl_after Map.empty
     [10 \<mapsto> RI64 5, 11 \<mapsto> RI64 10, 12 \<mapsto> RI64 (-10)]"
proof -
  have one: "computes rt (inl_inst 2 ConstInt (Some 10) [OInt 5]) env (RI64 5)" for env
    by (rule computes_const) (simp_all add: const_loads_def const_ops_def getOperandInt_def lowerConstInt_def)
  have two: "computes rt (inl_inst 0 MulI64 (Some 21) [OVal (Some 20), OInt 2]) [20 \<mapsto> RI64 5] (RI64 10)"
    by (rule computes_binary [of _ "OVal (Some 20)" "OInt 2" "[]" _ "RI64 5" "RI64 2"])
       (simp_all add: binary_ops_def getOperandValue_def lowerMulI64_def coerceToI64Operand_def)
  have three: "computes rt (inl_inst 4 NegI64 (Some 12) [OVal (Some 11)]) [10 \<mapsto> RI64 5, 11 \<mapsto> RI64 10] (RI64 (-10))"
    by (rule computes_unary [of _ "OVal (Some 11)" "[]" _ "RI64 10"])
       (simp_all add: unary_ops_def getOperandValue_def lowerNegI64_def coerceToI64Operand_def)
  have "line rt inl_before Map.empty [10 \<mapsto> RI64 5]"
    using one by (auto simp: inl_before_def line_Cons)
  moreover have "line rt inl_pre [20 \<mapsto> RI64 5] [20 \<mapsto> RI64 5, 21 \<mapsto> RI64 10]"
    using two by (auto simp: inl_pre_def line_Cons)
  moreover have "line rt inl_after [10 \<mapsto> RI64 5, 11 \<mapsto> RI64 10] [10 \<mapsto> RI64 5, 11 \<mapsto> RI64 10, 12 \<mapsto> RI64 (-10)]"
    using three by (auto simp: inl_after_def line_Cons)
  ultimately show ?thesis
    unfolding call_run_def inl_param
    by (intro exI [of _ "[10 \<mapsto> RI64 5]"] exI [of _ "[20 \<mapsto> RI64 5]"] exI [of _ "[20 \<mapsto> RI64 5, 21 \<mapsto> RI64 10]"]
        exI [of _ "RI64 10"])
      (simp add: arg_value_def value_args_def inl_call_def inl_after_def List.map_filter_simps)
qed


text \<open>A callee without a result: its body is gone after inlining, but whoever read the result of
  the call still does.\<close>

lemma void_result_dangles:
  "map_option (\<lambda>(fn, st). (map opcode (fn_insts fn), map operands (fn_insts fn)))
     (inlineCall (inl_fn ''f'' [] (inl_call # inl_after)) inl_store inl_call
       (inl_fn ''double'' [(''x'', None)] [inl_inst 1 ReturnVoid None []])) =
   Some ([NegI64], [[OVal (Some 11)]])"
  by (simp add: inlineCall_def cloneInstructions_def inl_fn_def bind_params_def bind_param_def
      clone_inst_def clone_result_def new_inst_def new_value_def value_args_def inl_call_def inl_after_def
      fn_insts_def splice_at_def findReturnValue_def Let_def List.map_filter_simps)

end
