(* ===== verification/TaggedValue.thy ===== *)
theory TaggedValue
  imports FloatOrder NanBox
begin

text \<open>
  The 16-byte value struct that maps and sets store, \<open>TaggedValue\<close> of
  \<open>src/src/runtime/include/TsObject.h\<close>: its conversion from and to NaN-boxed words, the hash
  and the equality that \<open>src/src/runtime/include/TsHashTable.h\<close> defines on it, and the
  canonical form of Map and Set keys (\<open>TsMap.cpp\<close>, \<open>TsSet.cpp\<close>). What lies behind a pointer
  (the type tags, the text of a string or BigInt) is read through a heap record; the caching of
  string hashes has no counterpart.
\<close>

unbundle bit_operations_syntax

section \<open>The value struct\<close>

text \<open>A value by its \<open>ValueType\<close>; a pointer is its address.\<close>

datatype TsValue = UNDEFINED | NUMBER_INT i64 | NUMBER_DBL f64 | BOOLEAN bool | STRING_PTR u64
  | OBJECT_PTR u64 | PROMISE_PTR u64 | ARRAY_PTR u64 | BIGINT_PTR u64 | SYMBOL_PTR u64 | FUNCTION_PTR u64

text \<open>What lies behind pointers, and the hash of the bytes of a double.\<close>

record value_heap =
  string_text :: "u64 \<Rightarrow> string"
  bigint_text :: "u64 \<Rightarrow> string option"
  magic_at_0 :: "u64 \<Rightarrow> u32"
  magic_at_16 :: "u64 \<Rightarrow> u32"
  hash_bytes :: "f64 \<Rightarrow> u64"

section \<open>Conversion from and to NaN-boxed words\<close>

text \<open>The tags at offsets 0 and 16 of the object behind a pointer decide its type.\<close>

definition nanbox_to_tagged :: "value_heap \<Rightarrow> u64 \<Rightarrow> TsValue" where
  "nanbox_to_tagged hp nb =
     (if nb = 0 then UNDEFINED
      else if nanbox_is_undefined nb then UNDEFINED
      else if nanbox_is_null nb then OBJECT_PTR 0
      else if nanbox_is_int32 nb then NUMBER_INT (scast (nanbox_to_int32 nb))
      else if nanbox_is_double nb then NUMBER_DBL (nanbox_to_double nb)
      else if nanbox_is_bool nb then BOOLEAN (nanbox_to_bool nb)
      else if nanbox_is_ptr nb then
        (let ptr = nanbox_to_ptr nb; magic0 = magic_at_0 hp ptr; magic16 = magic_at_16 hp ptr
         in if magic0 = 0x53545247 \<or> magic0 = 0x434F4E53 then STRING_PTR ptr
            else if magic0 = 0x41525259 then ARRAY_PTR ptr
            else if magic0 = 0x42494749 then BIGINT_PTR ptr
            else if magic0 = 0x464C4154 then OBJECT_PTR ptr
            else if magic16 = 0x50524F4D then PROMISE_PTR ptr
            else if magic16 = 0x53594D42 then SYMBOL_PTR ptr
            else if magic16 = 0x46554E43 then FUNCTION_PTR ptr
            else if magic16 = 0x434C5352 then FUNCTION_PTR ptr
            else OBJECT_PTR ptr)
      else UNDEFINED)"

definition pointer_or_undefined :: "u64 \<Rightarrow> u64" where
  "pointer_or_undefined p = (if p \<noteq> 0 then p else NANBOX_UNDEFINED)"

fun nanbox_from_tagged :: "TsValue \<Rightarrow> u64" where
  "nanbox_from_tagged UNDEFINED = NANBOX_UNDEFINED"
| "nanbox_from_tagged (NUMBER_INT i) =
     (if - (2 ^ 31) \<le> sint i \<and> sint i \<le> 2 ^ 31 - 1 then nanbox_int32 (ucast i)
      else nanbox_double (f64_of_int (sint i)))"
| "nanbox_from_tagged (NUMBER_DBL d) = nanbox_double d"
| "nanbox_from_tagged (BOOLEAN b) = nanbox_bool b"
| "nanbox_from_tagged (OBJECT_PTR p) = (if p = 0 then NANBOX_NULL else p)"
| "nanbox_from_tagged (STRING_PTR p) = pointer_or_undefined p"
| "nanbox_from_tagged (ARRAY_PTR p) = pointer_or_undefined p"
| "nanbox_from_tagged (PROMISE_PTR p) = pointer_or_undefined p"
| "nanbox_from_tagged (BIGINT_PTR p) = pointer_or_undefined p"
| "nanbox_from_tagged (SYMBOL_PTR p) = pointer_or_undefined p"
| "nanbox_from_tagged (FUNCTION_PTR p) = pointer_or_undefined p"

section \<open>Hash and equality\<close>

text \<open>\<open>std::hash\<close> of integers, booleans and pointers is the identity; of a double it is 0 for
  zeros and a function of the bytes otherwise, a field of the heap record.\<close>

text \<open>The C string up to its terminator.\<close>

definition c_string :: "string \<Rightarrow> string" where
  "c_string s = takeWhile (\<lambda>c. of_char c \<noteq> (0 :: nat)) s"

definition TsString_Hash :: "string \<Rightarrow> u32" where
  "TsString_Hash s = fold (\<lambda>c h. (push_bit 5 h + h) + of_char c) (c_string s) 5381"

definition bigint_hash :: "string \<Rightarrow> u64" where
  "bigint_hash s = fold (\<lambda>c h. (push_bit 5 h + h) + of_char c) (c_string s) 5381"

definition std_hash_double :: "value_heap \<Rightarrow> f64 \<Rightarrow> u64" where
  "std_hash_double hp d = (if f64_eq d f64_zero then 0 else hash_bytes hp d)"

fun TsValueHash :: "value_heap \<Rightarrow> TsValue \<Rightarrow> u64" where
  "TsValueHash hp UNDEFINED = 0"
| "TsValueHash hp (NUMBER_INT i) = i"
| "TsValueHash hp (NUMBER_DBL d) = std_hash_double hp d"
| "TsValueHash hp (BOOLEAN b) = (if b then 1 else 0)"
| "TsValueHash hp (STRING_PTR p) = (if p = 0 then 0 else ucast (TsString_Hash (string_text hp p)))"
| "TsValueHash hp (BIGINT_PTR p) =
     (if p = 0 then 0 else case bigint_text hp p of None \<Rightarrow> 0 | Some s \<Rightarrow> bigint_hash s)"
| "TsValueHash hp (OBJECT_PTR p) = p"
| "TsValueHash hp (PROMISE_PTR p) = p"
| "TsValueHash hp (ARRAY_PTR p) = p"
| "TsValueHash hp (SYMBOL_PTR p) = p"
| "TsValueHash hp (FUNCTION_PTR p) = p"

text \<open>Values of different types are not equal: the \<open>_\<close> branches are the test on \<open>type\<close>.\<close>

definition TsValueEqual :: "value_heap \<Rightarrow> TsValue \<Rightarrow> TsValue \<Rightarrow> bool" where
  "TsValueEqual hp l r =
     (case l of
        UNDEFINED \<Rightarrow> (case r of UNDEFINED \<Rightarrow> True | _ \<Rightarrow> False)
      | NUMBER_INT i \<Rightarrow> (case r of NUMBER_INT j \<Rightarrow> i = j | _ \<Rightarrow> False)
      | NUMBER_DBL x \<Rightarrow>
          (case r of NUMBER_DBL y \<Rightarrow> (if f64_isnan x \<and> f64_isnan y then True else f64_eq x y) | _ \<Rightarrow> False)
      | BOOLEAN a \<Rightarrow> (case r of BOOLEAN b \<Rightarrow> a = b | _ \<Rightarrow> False)
      | STRING_PTR p \<Rightarrow>
          (case r of
             STRING_PTR q \<Rightarrow>
               (if p = q then True else if p = 0 \<or> q = 0 then False else string_text hp p = string_text hp q)
           | _ \<Rightarrow> False)
      | BIGINT_PTR p \<Rightarrow>
          (case r of
             BIGINT_PTR q \<Rightarrow>
               (if p = 0 \<or> q = 0 then p = q
                else case (bigint_text hp p, bigint_text hp q) of
                       (Some a, Some b) \<Rightarrow> c_string a = c_string b
                     | (None, None) \<Rightarrow> True
                     | _ \<Rightarrow> False)
           | _ \<Rightarrow> False)
      | OBJECT_PTR p \<Rightarrow> (case r of OBJECT_PTR q \<Rightarrow> p = q | _ \<Rightarrow> False)
      | PROMISE_PTR p \<Rightarrow> (case r of PROMISE_PTR q \<Rightarrow> p = q | _ \<Rightarrow> False)
      | ARRAY_PTR p \<Rightarrow> (case r of ARRAY_PTR q \<Rightarrow> p = q | _ \<Rightarrow> False)
      | SYMBOL_PTR p \<Rightarrow> (case r of SYMBOL_PTR q \<Rightarrow> p = q | _ \<Rightarrow> False)
      | FUNCTION_PTR p \<Rightarrow> (case r of FUNCTION_PTR q \<Rightarrow> p = q | _ \<Rightarrow> False))"

section \<open>Canonical keys of Map and Set\<close>

definition ts_map_canon_key :: "TsValue \<Rightarrow> TsValue" where
  "ts_map_canon_key v =
     (case v of
        NUMBER_DBL d \<Rightarrow>
          (if f64_eq d f64_zero then NUMBER_INT 0
           else if f64_eq d (f64_of_int (sint (f64_to_i64 d))) \<and>
                   f64_le (f64_of_int (- 9007199254740992)) d \<and> f64_le d (f64_of_int 9007199254740992)
                then NUMBER_INT (f64_to_i64 d) else v)
      | _ \<Rightarrow> v)"

definition ts_set_canon_key :: "TsValue \<Rightarrow> TsValue" where
  "ts_set_canon_key v =
     (case v of
        NUMBER_DBL d \<Rightarrow>
          (if f64_eq d f64_zero then NUMBER_INT 0
           else if f64_eq d (f64_of_int (sint (f64_to_i64 d))) \<and>
                   f64_le (f64_of_int (- 9007199254740992)) d \<and> f64_le d (f64_of_int 9007199254740992)
                then NUMBER_INT (f64_to_i64 d) else v)
      | _ \<Rightarrow> v)"


section \<open>What the hash table needs of its keys\<close>

text \<open>On proper keys the equality is an equivalence that the hash respects.\<close>

locale hash_keys =
  fixes hs :: "'a \<Rightarrow> u64" and eq :: "'a \<Rightarrow> 'a \<Rightarrow> bool" and ok :: "'a \<Rightarrow> bool"
  assumes eq_refl: "ok a \<Longrightarrow> eq a a"
    and eq_sym: "ok a \<Longrightarrow> ok b \<Longrightarrow> eq a b \<Longrightarrow> eq b a"
    and eq_trans: "ok a \<Longrightarrow> ok b \<Longrightarrow> ok c \<Longrightarrow> eq a b \<Longrightarrow> eq b c \<Longrightarrow> eq a c"
    and eq_hash: "ok a \<Longrightarrow> ok b \<Longrightarrow> eq a b \<Longrightarrow> hs a = hs b"

text \<open>The equality takes all NaNs for one key but the hash reads their bytes, so the keys have to
  carry the canonical NaN. Words made by \<open>nanbox_double\<close> decode to such keys.\<close>

definition proper_key :: "TsValue \<Rightarrow> bool" where
  "proper_key v \<longleftrightarrow> (case v of NUMBER_DBL d \<Rightarrow> f64_isnan d \<longrightarrow> d = quiet_nan | _ \<Rightarrow> True)"

lemma f64_eq_cases: "f64_eq x y \<Longrightarrow> x = y \<or> (f64_mag x = 0 \<and> f64_mag y = 0)"
  using f64_eqI [of x y] by (auto simp: f64_eq_def f64_key_def split: if_splits)

lemma f64_eq_zero_iff: "f64_eq x f64_zero \<longleftrightarrow> f64_mag x = 0"
proof -
  have "f64_mag f64_zero = 0" "\<not> f64_neg_sign f64_zero"
    by (simp_all add: f64_mag_def f64_zero_def f64_neg_sign_def)
  then show ?thesis by (auto simp: f64_eq_def f64_key_def f64_isnan_def inf_mag_def)
qed

lemma std_hash_double_eq: "f64_eq x y \<Longrightarrow> std_hash_double hp x = std_hash_double hp y"
  using f64_eq_cases [of x y] by (auto simp: std_hash_double_def f64_eq_zero_iff)

lemma f64_eq_sym: "f64_eq x y \<Longrightarrow> f64_eq y x" and f64_eq_trans: "f64_eq x y \<Longrightarrow> f64_eq y z \<Longrightarrow> f64_eq x z"
  and f64_eq_not_nan: "f64_eq x y \<Longrightarrow> \<not> f64_isnan x" "f64_eq x y \<Longrightarrow> \<not> f64_isnan y"
  and f64_eq_refl: "\<not> f64_isnan x \<Longrightarrow> f64_eq x x"
  by (simp_all add: f64_eq_def)

text \<open>Equality and hash depend on a few data of a value; that makes them an equivalence.\<close>

lemma string_equal_iff: "TsValueEqual hp (STRING_PTR p) v \<longleftrightarrow>
  (\<exists>q. v = STRING_PTR q \<and> (p = q \<or> (p \<noteq> 0 \<and> q \<noteq> 0 \<and> string_text hp p = string_text hp q)))"
  by (cases v) (auto simp: TsValueEqual_def)

lemma bigint_equal_iff: "TsValueEqual hp (BIGINT_PTR p) v \<longleftrightarrow>
  (\<exists>q. v = BIGINT_PTR q \<and> (p = 0 \<longleftrightarrow> q = 0) \<and>
     (p = 0 \<or> map_option c_string (bigint_text hp p) = map_option c_string (bigint_text hp q)))"
  by (cases v) (auto simp: TsValueEqual_def split: option.splits)

lemma double_equal_iff: "TsValueEqual hp (NUMBER_DBL x) v \<longleftrightarrow>
  (\<exists>y. v = NUMBER_DBL y \<and> ((f64_isnan x \<and> f64_isnan y) \<or> f64_eq x y))"
  by (cases v) (auto simp: TsValueEqual_def)

lemma plain_equal_iff:
  "TsValueEqual hp UNDEFINED v \<longleftrightarrow> v = UNDEFINED"
  "TsValueEqual hp (NUMBER_INT i) v \<longleftrightarrow> v = NUMBER_INT i"
  "TsValueEqual hp (BOOLEAN b) v \<longleftrightarrow> v = BOOLEAN b"
  "TsValueEqual hp (OBJECT_PTR p) v \<longleftrightarrow> v = OBJECT_PTR p"
  "TsValueEqual hp (PROMISE_PTR p) v \<longleftrightarrow> v = PROMISE_PTR p"
  "TsValueEqual hp (ARRAY_PTR p) v \<longleftrightarrow> v = ARRAY_PTR p"
  "TsValueEqual hp (SYMBOL_PTR p) v \<longleftrightarrow> v = SYMBOL_PTR p"
  "TsValueEqual hp (FUNCTION_PTR p) v \<longleftrightarrow> v = FUNCTION_PTR p"
  by (cases v; auto simp: TsValueEqual_def)+

lemmas equal_iffs = string_equal_iff bigint_equal_iff double_equal_iff plain_equal_iff

lemma bigint_hash_c_string: "c_string a = c_string b \<Longrightarrow> bigint_hash a = bigint_hash b"
  by (simp add: bigint_hash_def)

lemma bigint_texts_hash:
  "map_option c_string a = map_option c_string b \<Longrightarrow>
   (case a of None \<Rightarrow> 0 | Some s \<Rightarrow> bigint_hash s) = (case b of None \<Rightarrow> 0 | Some s \<Rightarrow> bigint_hash s)"
  by (cases a; cases b) (auto intro: bigint_hash_c_string)

lemma equal_hash:
  assumes "proper_key a" "proper_key b" "TsValueEqual hp a b"
  shows "TsValueHash hp a = TsValueHash hp b"
proof (cases a)
  case (NUMBER_DBL x)
  then obtain y where "b = NUMBER_DBL y" "(f64_isnan x \<and> f64_isnan y) \<or> f64_eq x y"
    using assms(3) by (auto simp: double_equal_iff)
  then show ?thesis using assms(1,2) NUMBER_DBL by (auto simp: proper_key_def std_hash_double_eq)
next
  case (STRING_PTR p)
  then show ?thesis using assms(3) by (auto simp: string_equal_iff)
next
  case (BIGINT_PTR p)
  then obtain q where q: "b = BIGINT_PTR q" "p = 0 \<longleftrightarrow> q = 0"
    "p = 0 \<or> map_option c_string (bigint_text hp p) = map_option c_string (bigint_text hp q)"
    using assms(3) by (auto simp: bigint_equal_iff)
  then show ?thesis using bigint_texts_hash [of "bigint_text hp p" "bigint_text hp q"] BIGINT_PTR by auto
qed (use assms(3) in \<open>simp_all add: plain_equal_iff\<close>)

interpretation tagged: hash_keys "TsValueHash hp" "TsValueEqual hp" proper_key for hp
proof
  fix a b c
  show "TsValueEqual hp a a"
    by (cases a) (auto simp: equal_iffs f64_eq_def)
  show "TsValueEqual hp b a" if "TsValueEqual hp a b"
    using that by (cases a) (auto simp: equal_iffs f64_eq_sym)
  show "TsValueEqual hp a c" if "TsValueEqual hp a b" "TsValueEqual hp b c"
    using that by (cases a) (auto simp: equal_iffs f64_eq_def)
qed (rule equal_hash)

section \<open>Round trip\<close>

lemma int32_in_range:
  fixes i :: i32
  shows "- (2 ^ 31) \<le> sint (scast i :: i64) \<and> sint (scast i :: i64) \<le> 2 ^ 31 - 1 \<and> ucast (scast i :: i64) = i"
proof -
  have "sint (scast i :: i64) = sint i" by (rule sint_up_scast) (simp add: is_up)
  moreover have "ucast (scast i :: i64) = i" by (rule bit_word_eqI) (simp add: bit_simps)
  ultimately show ?thesis using sint_range_size [of i] by (simp add: word_size)
qed

lemma double_of_special: "v \<le> NANBOX_UNDEFINED \<Longrightarrow> \<not> nanbox_is_int32 v \<and> \<not> nanbox_is_double v \<and> \<not> nanbox_is_ptr v"
  by (simp add: kind_iffs box_defs word_le_nat_alt)

lemma tagged_double: "nanbox_to_tagged hp (nanbox_double d) = NUMBER_DBL (if f64_isnan d then quiet_nan else d)"
proof -
  have "nanbox_double d \<noteq> 0 \<and> nanbox_double d \<noteq> NANBOX_UNDEFINED \<and> nanbox_double d \<noteq> NANBOX_NULL"
    using double_box_kinds(5) [of d] by (auto simp: nanbox_is_special_def box_defs)
  then show ?thesis
    by (simp add: nanbox_to_tagged_def nanbox_is_undefined_def nanbox_is_null_def double_box_kinds double_box_decodes)
qed

lemma tagged_int32: "nanbox_to_tagged hp (nanbox_int32 i) = NUMBER_INT (scast i)"
proof -
  have "nanbox_int32 i \<noteq> 0 \<and> nanbox_int32 i \<noteq> NANBOX_UNDEFINED \<and> nanbox_int32 i \<noteq> NANBOX_NULL"
    using int32_box_kinds(4) [of i] by (auto simp: nanbox_is_special_def box_defs)
  then show ?thesis
    by (simp add: nanbox_to_tagged_def nanbox_is_undefined_def nanbox_is_null_def int32_box_kinds int32_box_decodes)
qed

lemma tagged_constants:
  "nanbox_to_tagged hp NANBOX_UNDEFINED = UNDEFINED" "nanbox_to_tagged hp NANBOX_NULL = OBJECT_PTR 0"
  "nanbox_to_tagged hp (nanbox_bool b) = BOOLEAN b"
  by (auto simp: nanbox_to_tagged_def nanbox_is_undefined_def nanbox_is_null_def nanbox_bool_def
      nanbox_is_bool_def nanbox_to_bool_def nanbox_is_int32_def nanbox_is_double_def nanbox_is_number_def box_defs)

lemma tagged_pointer:
  assumes "nanbox_is_ptr p"
  shows "nanbox_from_tagged (nanbox_to_tagged hp p) = p" "proper_key (nanbox_to_tagged hp p)"
proof -
  have p: "10 < unat p" "unat p < 2 ^ 48" using assms by (simp_all add: is_ptr_iff)
  then have "p \<noteq> 0 \<and> p \<noteq> NANBOX_UNDEFINED \<and> p \<noteq> NANBOX_NULL \<and> p \<noteq> NANBOX_TRUE \<and> p \<noteq> NANBOX_FALSE"
    by (auto simp: box_defs)
  moreover have "\<not> nanbox_is_int32 p" "\<not> nanbox_is_double p" using p by (simp_all add: kind_iffs)
  ultimately show "nanbox_from_tagged (nanbox_to_tagged hp p) = p" "proper_key (nanbox_to_tagged hp p)"
    using assms by (simp_all add: nanbox_to_tagged_def nanbox_is_undefined_def nanbox_is_null_def nanbox_is_bool_def
        nanbox_to_ptr_def pointer_or_undefined_def proper_key_def Let_def)
qed

text \<open>C24. Storing a value in a map and reading it back gives the same word: for every boxed double
  (NaNs included), int32, boolean, undefined, null and heap pointer, whatever the type tags behind
  the pointer, the conversion to the value struct and back is the identity. The structs made
  from words are proper keys: their only NaN is the canonical one.\<close>

theorem tagged_roundtrip:
  "nanbox_from_tagged (nanbox_to_tagged hp (nanbox_double d)) = nanbox_double d
   \<and> nanbox_from_tagged (nanbox_to_tagged hp (nanbox_int32 i)) = nanbox_int32 i
   \<and> nanbox_from_tagged (nanbox_to_tagged hp (nanbox_bool b)) = nanbox_bool b
   \<and> nanbox_from_tagged (nanbox_to_tagged hp NANBOX_UNDEFINED) = NANBOX_UNDEFINED
   \<and> nanbox_from_tagged (nanbox_to_tagged hp NANBOX_NULL) = NANBOX_NULL
   \<and> (nanbox_is_ptr p \<longrightarrow> nanbox_from_tagged (nanbox_to_tagged hp p) = p \<and> proper_key (nanbox_to_tagged hp p))
   \<and> proper_key (nanbox_to_tagged hp (nanbox_double d)) \<and> proper_key (nanbox_to_tagged hp (nanbox_int32 i))"
proof -
  have "nanbox_double (if f64_isnan d then quiet_nan else d) = nanbox_double d"
    by (simp add: nanbox_double_def Let_def)
  then show ?thesis
    using int32_in_range [of i] tagged_pointer [of p hp]
    by (simp add: tagged_double tagged_int32 tagged_constants proper_key_def)
qed

theorem tagged_roundtrip_witness:
  "\<exists>hp. nanbox_to_tagged hp 0x1000 = STRING_PTR 0x1000 \<and> nanbox_from_tagged (nanbox_to_tagged hp 0x1000) = 0x1000"
proof -
  let ?hp = "\<lparr>string_text = \<lambda>_. [], bigint_text = \<lambda>_. None, magic_at_0 = \<lambda>_. 0x53545247,
    magic_at_16 = \<lambda>_. 0, hash_bytes = f64_bits\<rparr>"
  have p: "nanbox_is_ptr 0x1000" by (simp add: nanbox_is_ptr_def box_defs)
  then have "nanbox_from_tagged (nanbox_to_tagged ?hp 0x1000) = 0x1000"
    using tagged_roundtrip [of ?hp f64_zero 0 True "0x1000"] by blast
  moreover have "nanbox_to_tagged ?hp 0x1000 = STRING_PTR 0x1000"
    by (simp add: nanbox_to_tagged_def nanbox_is_undefined_def nanbox_is_null_def nanbox_is_bool_def p
        nanbox_is_int32_def nanbox_is_double_def nanbox_is_number_def nanbox_to_ptr_def box_defs)
  ultimately show ?thesis by blast
qed

section \<open>SameValueZero\<close>

text \<open>The ECMAScript equality of Map and Set keys: numbers by value, whatever their
  representation, zeros equal, NaN equal to itself; all else by \<open>TsValueEqual\<close>.\<close>

definition number_of :: "TsValue \<Rightarrow> f64 option" where
  "number_of v = (case v of NUMBER_INT i \<Rightarrow> Some (f64_of_int (sint i)) | NUMBER_DBL d \<Rightarrow> Some d | _ \<Rightarrow> None)"

definition same_value_zero :: "value_heap \<Rightarrow> TsValue \<Rightarrow> TsValue \<Rightarrow> bool" where
  "same_value_zero hp a b \<longleftrightarrow>
     (case (number_of a, number_of b) of
        (Some x, Some y) \<Rightarrow> (f64_isnan x \<and> f64_isnan y) \<or> f64_eq x y
      | (None, None) \<Rightarrow> TsValueEqual hp a b
      | _ \<Rightarrow> False)"

text \<open>An integer value that a double represents exactly; the words of the runtime only hold 32-bit
  ones.\<close>

definition safe_key :: "TsValue \<Rightarrow> bool" where
  "safe_key v \<longleftrightarrow> (case v of NUMBER_INT i \<Rightarrow> \<bar>sint i\<bar> \<le> 2 ^ 53 | _ \<Rightarrow> True)"

lemma f64_holds_eq:
  assumes "f64_holds y i" "f64_eq x y"
  shows "f64_holds x i"
proof -
  have "f64_units x = f64_units y"
    using f64_cmp_units(1) [OF f64_eq_not_nan [OF assms(2)]] assms(2) by blast
  moreover have "f64_isfinite x"
    using f64_eq_cases [OF assms(2)] assms(1) by (auto simp: f64_holds_def f64_isfinite_def inf_mag_def)
  ultimately show ?thesis using assms(1) by (simp add: f64_holds_def)
qed

lemma f64_zero_holds: "f64_holds f64_zero 0"
  by (simp add: f64_holds_def f64_zero_def f64_isfinite_def f64_units_def f64_mag_def f64_neg_sign_def inf_mag_def)

lemma to_i64_of_holds:
  assumes "f64_holds d i" "\<bar>i\<bar> \<le> 2 ^ 53"
  shows "f64_to_i64 d = word_of_int i" "sint (f64_to_i64 d) = i"
proof -
  show 1: "f64_to_i64 d = word_of_int i" by (rule f64_to_i64_holds [OF assms(1) fits_53 [OF assms(2)]])
  show "sint (f64_to_i64 d) = i" unfolding 1 by (rule sint_of_int_64 [OF fits_53 [OF assms(2)]])
qed

text \<open>The limits of the exact integers.\<close>

lemma limits_hold:
  "f64_holds (f64_of_int (- 9007199254740992)) (- 9007199254740992)"
  "f64_holds (f64_of_int 9007199254740992) 9007199254740992"
  by (rule f64_of_int_holds; simp)+

text \<open>The canonical form of a double: the integer it holds, when a double in
  \<open>[- 2 ^ 53, 2 ^ 53]\<close> holds one.\<close>

lemma canon_integer:
  assumes "f64_holds d i" "\<bar>i\<bar> \<le> 2 ^ 53"
  shows "ts_map_canon_key (NUMBER_DBL d) = NUMBER_INT (word_of_int i)"
proof (cases "f64_eq d f64_zero")
  case True
  then have "i = 0" using f64_cmp_holds(1) [OF assms(1) f64_zero_holds] by simp
  then show ?thesis using True by (simp add: ts_map_canon_key_def)
next
  case False
  have h: "f64_holds (f64_of_int (sint (f64_to_i64 d))) i"
    unfolding to_i64_of_holds(2) [OF assms] by (rule f64_of_int_holds [OF assms(2)])
  have "f64_eq d (f64_of_int (sint (f64_to_i64 d)))" using f64_cmp_holds(1) [OF assms(1) h] by simp
  moreover have "f64_le (f64_of_int (- 9007199254740992)) d" "f64_le d (f64_of_int 9007199254740992)"
    using f64_cmp_holds(3) [OF limits_hold(1) assms(1)] f64_cmp_holds(3) [OF assms(1) limits_hold(2)] assms(2)
    by simp_all
  ultimately show ?thesis using False to_i64_of_holds(1) [OF assms] by (simp add: ts_map_canon_key_def)
qed

lemma trunc_between:
  assumes "\<bar>f64_units d\<bar> \<le> m * int unit_one" "0 \<le> m"
  shows "\<bar>f64_trunc d\<bar> \<le> m"
proof -
  have "int (mag_units (f64_mag d)) \<le> m * int unit_one"
    using assms(1) by (simp add: f64_units_def split: if_splits)
  then have "int (mag_units (f64_mag d)) div int unit_one \<le> m"
    using unit_one_pos zdiv_mono1 [of "int (mag_units (f64_mag d))" "m * int unit_one" "int unit_one"] by simp
  moreover have "0 \<le> int (mag_units (f64_mag d)) div int unit_one"
    using unit_one_pos by (simp add: pos_imp_zdiv_nonneg_iff)
  ultimately show ?thesis using assms(2) by (simp add: f64_trunc_def zdiv_int)
qed

lemma canon_other:
  assumes "\<And>i. \<bar>i\<bar> \<le> 2 ^ 53 \<Longrightarrow> \<not> f64_holds d i"
  shows "ts_map_canon_key (NUMBER_DBL d) = NUMBER_DBL d"
proof -
  have "\<not> f64_eq d f64_zero" using assms [of 0] f64_holds_eq [OF f64_zero_holds] by auto
  moreover have False if e: "f64_eq d (f64_of_int (sint (f64_to_i64 d)))"
    and lo: "f64_le (f64_of_int (- 9007199254740992)) d" and hi: "f64_le d (f64_of_int 9007199254740992)"
  proof -
    have n: "\<not> f64_isnan d" by (rule f64_eq_not_nan(1) [OF e])
    have u: "- 9007199254740992 * int unit_one \<le> f64_units d" "f64_units d \<le> 9007199254740992 * int unit_one"
      using lo hi f64_cmp_units(3) [OF f64_holds_not_nan [OF limits_hold(1)] n]
        f64_cmp_units(3) [OF n f64_holds_not_nan [OF limits_hold(2)]] limits_hold by (simp_all add: f64_holds_def)
    then have t: "\<bar>f64_trunc d\<bar> \<le> 9007199254740992" by (intro trunc_between) simp_all
    have "\<bar>sint (f64_to_i64 d)\<bar> \<le> 2 ^ 53"
    proof (cases "f64_isfinite d")
      case True
      have "fits_i64 (f64_trunc d)" by (rule fits_53) (use t in simp)
      then have "f64_to_i64 d = word_of_int (f64_trunc d)" using True by (simp add: f64_to_i64_def)
      moreover have "sint (word_of_int (f64_trunc d) :: i64) = f64_trunc d"
        by (rule sint_of_int_64 [OF fits_53]) (use t in simp)
      ultimately show ?thesis using t by simp
    next
      case False
      then have "inf_mag \<le> f64_mag d" using n by (simp add: f64_isfinite_def)
      then have "1076 * 2 ^ 52 < f64_mag d" by (simp add: inf_mag_def)
      then have "2 ^ 53 * unit_one < mag_units (f64_mag d)" by (simp only: mag_units_less_iff flip: mag_units_big)
      then have "int (2 ^ 53 * unit_one) < int (mag_units (f64_mag d))" by (simp only: of_nat_less_iff)
      moreover have "int (mag_units (f64_mag d)) \<le> 9007199254740992 * int unit_one"
        using u by (simp add: f64_units_def split: if_splits)
      ultimately show ?thesis by simp
    qed
    from assms [OF this] f64_holds_eq [OF f64_of_int_holds [OF this] e] show False by blast
  qed
  ultimately show ?thesis by (auto simp: ts_map_canon_key_def)
qed

lemma set_canon_is_map_canon: "ts_set_canon_key = ts_map_canon_key"
  by (intro ext) (simp add: ts_set_canon_key_def ts_map_canon_key_def)

lemma canon_key_int [simp]: "ts_map_canon_key (NUMBER_INT i) = NUMBER_INT i"
  and canon_key_other: "number_of v = None \<Longrightarrow> ts_map_canon_key v = v"
  by (simp_all add: ts_map_canon_key_def number_of_def split: TsValue.splits)

lemma canon_number: "number_of (ts_map_canon_key v) = None \<longleftrightarrow> number_of v = None"
  by (cases v) (simp_all add: ts_map_canon_key_def number_of_def)

text \<open>The canonical form of a number: an integer it holds, or a double that holds none.\<close>

lemma canon_number_cases:
  assumes "number_of v = Some x" "safe_key v"
  obtains i where "ts_map_canon_key v = NUMBER_INT (word_of_int i)" "\<bar>i\<bar> \<le> 2 ^ 53" "f64_holds x i"
  | "ts_map_canon_key v = NUMBER_DBL x" "\<And>i. \<bar>i\<bar> \<le> 2 ^ 53 \<Longrightarrow> \<not> f64_holds x i"
proof (cases v)
  case (NUMBER_INT i)
  then have "\<bar>sint i\<bar> \<le> 2 ^ 53" "x = f64_of_int (sint i)" using assms by (simp_all add: safe_key_def number_of_def)
  then show ?thesis using that(1) [of "sint i"] f64_of_int_holds NUMBER_INT by simp
next
  case (NUMBER_DBL d)
  then have x: "d = x" using assms(1) by (simp add: number_of_def)
  show ?thesis
  proof (cases "\<exists>i. \<bar>i\<bar> \<le> 2 ^ 53 \<and> f64_holds x i")
    case True
    then obtain i where "\<bar>i\<bar> \<le> 2 ^ 53" "f64_holds x i" by blast
    then show ?thesis using that(1) canon_integer NUMBER_DBL x by blast
  next
    case False
    then show ?thesis using that(2) canon_other NUMBER_DBL x by blast
  qed
qed (use assms(1) in \<open>simp_all add: number_of_def\<close>)

lemma word_of_int_inj: "\<bar>i\<bar> \<le> 2 ^ 53 \<Longrightarrow> \<bar>j\<bar> \<le> 2 ^ 53 \<Longrightarrow> (word_of_int i :: i64) = word_of_int j \<longleftrightarrow> i = j"
  using sint_of_int_64 [OF fits_53, of i] sint_of_int_64 [OF fits_53, of j] by metis

lemma canon_numbers:
  assumes "number_of a = Some x" "safe_key a" "number_of b = Some y" "safe_key b"
  shows "TsValueEqual hp (ts_map_canon_key a) (ts_map_canon_key b) \<longleftrightarrow> (f64_isnan x \<and> f64_isnan y) \<or> f64_eq x y"
proof (rule canon_number_cases [OF assms(1,2)]; rule canon_number_cases [OF assms(3,4)])
  fix i j
  assume i: "ts_map_canon_key a = NUMBER_INT (word_of_int i)" "\<bar>i\<bar> \<le> 2 ^ 53" "f64_holds x i"
    and j: "ts_map_canon_key b = NUMBER_INT (word_of_int j)" "\<bar>j\<bar> \<le> 2 ^ 53" "f64_holds y j"
  then show ?thesis
    using f64_cmp_holds(1) [OF i(3) j(3)] f64_holds_not_nan [OF i(3)] word_of_int_inj [OF i(2) j(2)]
    by (auto simp: plain_equal_iff)
next
  fix i
  assume i: "ts_map_canon_key a = NUMBER_INT (word_of_int i)" "\<bar>i\<bar> \<le> 2 ^ 53" "f64_holds x i"
    and y: "ts_map_canon_key b = NUMBER_DBL y" "\<And>i. \<bar>i\<bar> \<le> 2 ^ 53 \<Longrightarrow> \<not> f64_holds y i"
  then show ?thesis
    using f64_holds_eq [OF i(3)] f64_holds_not_nan [OF i(3)] f64_eq_sym [of x y] by (auto simp: plain_equal_iff)
next
  fix i
  assume x: "ts_map_canon_key a = NUMBER_DBL x" "\<And>i. \<bar>i\<bar> \<le> 2 ^ 53 \<Longrightarrow> \<not> f64_holds x i"
    and i: "ts_map_canon_key b = NUMBER_INT (word_of_int i)" "\<bar>i\<bar> \<le> 2 ^ 53" "f64_holds y i"
  then show ?thesis
    using f64_holds_eq [OF i(3)] f64_holds_not_nan [OF i(3)] by (auto simp: double_equal_iff)
next
  assume "ts_map_canon_key a = NUMBER_DBL x" "ts_map_canon_key b = NUMBER_DBL y"
  then show ?thesis by (simp add: double_equal_iff)
qed

lemma canonical_key_equality:
  assumes "safe_key a" "safe_key b"
  shows "TsValueEqual hp (ts_map_canon_key a) (ts_map_canon_key b) = same_value_zero hp a b"
proof (cases "number_of a"; cases "number_of b")
  assume n: "number_of a = None" "number_of b = None"
  then show ?thesis by (simp add: same_value_zero_def canon_key_other)
next
  fix y assume n: "number_of a = None" "number_of b = Some y"
  have "number_of (ts_map_canon_key b) \<noteq> None" using n(2) canon_number by simp
  then have "\<not> TsValueEqual hp a (ts_map_canon_key b)" using n(1)
    by (cases a) (auto simp: equal_iffs number_of_def)
  then show ?thesis using n by (simp add: same_value_zero_def canon_key_other)
next
  fix x assume n: "number_of a = Some x" "number_of b = None"
  have "number_of (ts_map_canon_key a) \<noteq> None" using n(1) canon_number by simp
  then have "\<not> TsValueEqual hp (ts_map_canon_key a) b" using n(2)
    by (cases "ts_map_canon_key a") (auto simp: equal_iffs number_of_def)
  then show ?thesis using n by (simp add: same_value_zero_def canon_key_other)
next
  fix x y assume "number_of a = Some x" "number_of b = Some y"
  then show ?thesis using canon_numbers [OF _ assms(1) _ assms(2)] by (simp add: same_value_zero_def)
qed



end
