(* ===== verification/HashTable.thy ===== *)
theory HashTable
  imports TaggedValue
begin

text \<open>
  The hash table behind Map, Set and object properties,
  \<open>src/src/runtime/include/TsHashTable.h\<close>: open addressing with linear probing, one control
  byte per slot (empty, deleted, or seven bits of the hash), attributes per slot, tombstones
  that count towards growth, and an insertion counter that orders the iteration. The
  operations take the hash function, the equality and the default value of \<open>TsValue\<close> as
  arguments. Sizes, indices and the 64-bit insertion counter are natural numbers: a table
  never has more than 2^28 slots, and 2^63 insertions are out of reach. The garbage
  collector's write barriers and the pointer checks of \<open>looks_valid\<close> have no counterpart. The
  insertion loop, which would run forever in a full table, gets one probe per slot as fuel and
  delivers \<open>None\<close> when no slot is free.
\<close>

unbundle bit_operations_syntax

section \<open>The table\<close>

record 'a Entry =
  e_key :: 'a
  e_value :: 'a
  e_seq :: nat

definition CTRL_EMPTY :: u8 where "CTRL_EMPTY = 0x00"
definition CTRL_DELETED :: u8 where "CTRL_DELETED = 0x7F"
definition ATTR_ENUMERABLE :: u8 where "ATTR_ENUMERABLE = 0x01"
definition ATTR_DEFAULT :: u8 where "ATTR_DEFAULT = 0x07"

record 'a TsHashTable =
  ctrl :: "u8 list"
  attrs :: "u8 list"
  entries :: "'a Entry list"
  ht_size :: nat
  capacity :: nat
  grow_thresh :: nat
  insert_seq :: nat
  tombstones :: nat

definition zero_entry :: "'a \<Rightarrow> 'a Entry" where
  "zero_entry u = \<lparr>e_key = u, e_value = u, e_seq = 0\<rparr>"

text \<open>\<open>while (cap < wanted) cap <<= 1\<close>\<close>

function grow_to :: "nat \<Rightarrow> nat \<Rightarrow> nat" where
  "grow_to cap wanted = (if cap < wanted \<and> 0 < cap then grow_to (push_bit 1 cap) wanted else cap)"
  by pat_completeness auto

termination by (relation "measure (\<lambda>(cap, wanted). wanted - cap)") (auto simp: push_bit_eq_mult)

declare grow_to.simps [simp del]

definition Create :: "'a \<Rightarrow> nat \<Rightarrow> 'a TsHashTable" where
  "Create u initial_capacity =
     (let cap = grow_to 8 initial_capacity
      in \<lparr>ctrl = replicate cap 0, attrs = replicate cap 0, entries = replicate cap (zero_entry u),
          ht_size = 0, capacity = cap, grow_thresh = cap - cap div 8, insert_seq = 0, tombstones = 0\<rparr>)"

definition live_ctrl :: "u8 \<Rightarrow> bool" where
  "live_ctrl c \<longleftrightarrow> c \<noteq> CTRL_EMPTY \<and> c \<noteq> CTRL_DELETED"

definition looks_valid :: "'a TsHashTable \<Rightarrow> bool" where
  "looks_valid t \<longleftrightarrow>
     (if capacity t = 0 \<or> capacity t > push_bit 28 1 then False
      else if capacity t AND (capacity t - 1) \<noteq> 0 then False
      else True)"

definition h2_from_hash :: "u64 \<Rightarrow> u8" where
  "h2_from_hash hash =
     (let h2 = ucast (hash AND 0x7F) :: u8; h2 = (if h2 = 0 then 1 else h2)
      in if h2 = CTRL_DELETED then 1 else h2)"

definition h1_from_hash :: "'a TsHashTable \<Rightarrow> u64 \<Rightarrow> nat" where
  "h1_from_hash t hash = unat (drop_bit 7 hash) AND (capacity t - 1)"

fun probe :: "('a \<Rightarrow> 'a \<Rightarrow> bool) \<Rightarrow> 'a TsHashTable \<Rightarrow> 'a \<Rightarrow> u8 \<Rightarrow> nat \<Rightarrow> nat \<Rightarrow> nat option" where
  "probe eq t key h2 0 idx = None"
| "probe eq t key h2 (Suc n) idx =
     (let c = ctrl t ! idx
      in if c = CTRL_EMPTY then None
         else if c = h2 \<and> eq (e_key (entries t ! idx)) key then Some idx
         else probe eq t key h2 n ((idx + 1) AND (capacity t - 1)))"

definition find_slot :: "('a \<Rightarrow> u64) \<Rightarrow> ('a \<Rightarrow> 'a \<Rightarrow> bool) \<Rightarrow> 'a TsHashTable \<Rightarrow> 'a \<Rightarrow> nat option" where
  "find_slot hs eq t key =
     (if \<not> looks_valid t then None
      else probe eq t key (h2_from_hash (hs key)) (capacity t) (h1_from_hash t (hs key)))"

definition store_entry :: "nat \<Rightarrow> 'a \<Rightarrow> 'a \<Rightarrow> 'a TsHashTable \<Rightarrow> 'a TsHashTable" where
  "store_entry slot key val t =
     t\<lparr>entries := (entries t)[slot := (entries t ! slot)\<lparr>e_key := key, e_value := val\<rparr>]\<rparr>"

text \<open>The search for a free slot: the loop of \<open>insert_entry\<close>.\<close>

fun free_slot :: "'a TsHashTable \<Rightarrow> nat \<Rightarrow> nat \<Rightarrow> nat option" where
  "free_slot t 0 idx = None"
| "free_slot t (Suc n) idx =
     (if \<not> live_ctrl (ctrl t ! idx) then Some idx else free_slot t n ((idx + 1) AND (capacity t - 1)))"

definition put_entry :: "u8 \<Rightarrow> nat \<Rightarrow> 'a \<Rightarrow> 'a \<Rightarrow> u8 \<Rightarrow> nat option \<Rightarrow> 'a TsHashTable \<Rightarrow> 'a TsHashTable" where
  "put_entry h2 idx key val attr seq t =
     (let t1 = t\<lparr>tombstones := (if ctrl t ! idx = CTRL_DELETED \<and> tombstones t > 0 then tombstones t - 1 else tombstones t)\<rparr>;
          t2 = t1\<lparr>ctrl := (ctrl t1)[idx := h2], attrs := (attrs t1)[idx := attr]\<rparr>;
          t3 = store_entry idx key val t2
      in case seq of
           None \<Rightarrow> t3\<lparr>entries := (entries t3)[idx := (entries t3 ! idx)\<lparr>e_seq := insert_seq t3\<rparr>],
                       insert_seq := insert_seq t3 + 1\<rparr>
         | Some s \<Rightarrow> t3\<lparr>entries := (entries t3)[idx := (entries t3 ! idx)\<lparr>e_seq := s\<rparr>]\<rparr>)"

definition insert_entry ::
  "('a \<Rightarrow> u64) \<Rightarrow> 'a \<Rightarrow> 'a \<Rightarrow> u8 \<Rightarrow> nat option \<Rightarrow> 'a TsHashTable \<Rightarrow> 'a TsHashTable option" where
  "insert_entry hs key val attr seq t =
     map_option (\<lambda>idx. put_entry (h2_from_hash (hs key)) idx key val attr seq t)
       (free_slot t (capacity t) (h1_from_hash t (hs key)))"

fun reinsert ::
  "('a \<Rightarrow> u64) \<Rightarrow> 'a TsHashTable \<Rightarrow> nat list \<Rightarrow> 'a TsHashTable \<times> nat \<Rightarrow> ('a TsHashTable \<times> nat) option" where
  "reinsert hs old [] s = Some s"
| "reinsert hs old (i # is) s =
     (let (t, count) = s
      in if live_ctrl (ctrl old ! i)
         then (case insert_entry hs (e_key (entries old ! i)) (e_value (entries old ! i)) (attrs old ! i)
                      (Some (e_seq (entries old ! i))) t of
                 None \<Rightarrow> None
               | Some t' \<Rightarrow> reinsert hs old is (t', count + 1))
         else reinsert hs old is (t, count))"

definition rehash :: "('a \<Rightarrow> u64) \<Rightarrow> 'a \<Rightarrow> nat \<Rightarrow> 'a TsHashTable \<Rightarrow> 'a TsHashTable option" where
  "rehash hs u new_capacity t =
     (let t0 = t\<lparr>capacity := new_capacity, grow_thresh := new_capacity - new_capacity div 8,
                 ctrl := replicate new_capacity 0, attrs := replicate new_capacity 0,
                 entries := replicate new_capacity (zero_entry u)\<rparr>
      in map_option (\<lambda>(t', count). t'\<lparr>ht_size := count, tombstones := 0\<rparr>)
           (reinsert hs t [0..<capacity t] (t0, 0)))"

section \<open>Operations\<close>

definition new_capacity :: "'a TsHashTable \<Rightarrow> nat" where
  "new_capacity t =
     (if ht_size t > capacity t div 2
      then (if capacity t < 256 then capacity t * 4 else capacity t * 2)
      else capacity t)"

definition make_room :: "('a \<Rightarrow> u64) \<Rightarrow> 'a \<Rightarrow> 'a TsHashTable \<Rightarrow> 'a TsHashTable option" where
  "make_room hs u t =
     (if ht_size t + tombstones t \<ge> grow_thresh t then rehash hs u (new_capacity t) t else Some t)"

definition SetWithAttrs ::
  "('a \<Rightarrow> u64) \<Rightarrow> ('a \<Rightarrow> 'a \<Rightarrow> bool) \<Rightarrow> 'a \<Rightarrow> 'a \<Rightarrow> 'a \<Rightarrow> u8 \<Rightarrow> 'a TsHashTable \<Rightarrow> 'a TsHashTable option" where
  "SetWithAttrs hs eq u key val attr t =
     (case find_slot hs eq t key of
        Some i \<Rightarrow> (let t' = store_entry i key val t in Some (t'\<lparr>attrs := (attrs t')[i := attr]\<rparr>))
      | None \<Rightarrow>
          (case make_room hs u t of
             None \<Rightarrow> None
           | Some t1 \<Rightarrow> map_option (\<lambda>t2. t2\<lparr>ht_size := ht_size t2 + 1\<rparr>) (insert_entry hs key val attr None t1)))"

definition ht_Set ::
  "('a \<Rightarrow> u64) \<Rightarrow> ('a \<Rightarrow> 'a \<Rightarrow> bool) \<Rightarrow> 'a \<Rightarrow> 'a \<Rightarrow> 'a \<Rightarrow> 'a TsHashTable \<Rightarrow> 'a TsHashTable option" where
  "ht_Set hs eq u key val t =
     (case find_slot hs eq t key of
        Some i \<Rightarrow> Some (store_entry i key val t)
      | None \<Rightarrow>
          (case make_room hs u t of
             None \<Rightarrow> None
           | Some t1 \<Rightarrow> map_option (\<lambda>t2. t2\<lparr>ht_size := ht_size t2 + 1\<rparr>) (insert_entry hs key val ATTR_DEFAULT None t1)))"

definition GetAttrs :: "('a \<Rightarrow> u64) \<Rightarrow> ('a \<Rightarrow> 'a \<Rightarrow> bool) \<Rightarrow> 'a TsHashTable \<Rightarrow> 'a \<Rightarrow> u8" where
  "GetAttrs hs eq t key = (case find_slot hs eq t key of None \<Rightarrow> 0 | Some i \<Rightarrow> attrs t ! i)"

definition SetAttrs :: "('a \<Rightarrow> u64) \<Rightarrow> ('a \<Rightarrow> 'a \<Rightarrow> bool) \<Rightarrow> 'a \<Rightarrow> u8 \<Rightarrow> 'a TsHashTable \<Rightarrow> 'a TsHashTable" where
  "SetAttrs hs eq key attr t =
     (case find_slot hs eq t key of None \<Rightarrow> t | Some i \<Rightarrow> t\<lparr>attrs := (attrs t)[i := attr]\<rparr>)"

definition ht_Get :: "('a \<Rightarrow> u64) \<Rightarrow> ('a \<Rightarrow> 'a \<Rightarrow> bool) \<Rightarrow> 'a \<Rightarrow> 'a TsHashTable \<Rightarrow> 'a \<Rightarrow> 'a" where
  "ht_Get hs eq u t key = (case find_slot hs eq t key of None \<Rightarrow> u | Some i \<Rightarrow> e_value (entries t ! i))"

definition ht_Has :: "('a \<Rightarrow> u64) \<Rightarrow> ('a \<Rightarrow> 'a \<Rightarrow> bool) \<Rightarrow> 'a TsHashTable \<Rightarrow> 'a \<Rightarrow> bool" where
  "ht_Has hs eq t key \<longleftrightarrow> find_slot hs eq t key \<noteq> None"

definition ht_Delete ::
  "('a \<Rightarrow> u64) \<Rightarrow> ('a \<Rightarrow> 'a \<Rightarrow> bool) \<Rightarrow> 'a \<Rightarrow> 'a \<Rightarrow> 'a TsHashTable \<Rightarrow> bool \<times> 'a TsHashTable" where
  "ht_Delete hs eq u key t =
     (case find_slot hs eq t key of
        None \<Rightarrow> (False, t)
      | Some i \<Rightarrow>
          (True, t\<lparr>ctrl := (ctrl t)[i := CTRL_DELETED], attrs := (attrs t)[i := 0],
                    entries := (entries t)[i := (entries t ! i)\<lparr>e_key := u, e_value := u\<rparr>],
                    ht_size := ht_size t - 1, tombstones := tombstones t + 1\<rparr>))"

definition ht_Clear :: "'a \<Rightarrow> 'a TsHashTable \<Rightarrow> 'a TsHashTable" where
  "ht_Clear u t =
     t\<lparr>ctrl := replicate (capacity t) 0, attrs := replicate (capacity t) 0,
       entries := replicate (capacity t) (zero_entry u), ht_size := 0, tombstones := 0\<rparr>"

definition Resize :: "('a \<Rightarrow> u64) \<Rightarrow> 'a \<Rightarrow> nat \<Rightarrow> 'a TsHashTable \<Rightarrow> 'a TsHashTable option" where
  "Resize hs u wanted t =
     (if wanted \<le> capacity t then Some t else rehash hs u (grow_to (capacity t) wanted) t)"

section \<open>Iteration\<close>

definition collect_ordered :: "'a TsHashTable \<Rightarrow> nat list" where
  "collect_ordered t =
     sort_key (\<lambda>i. e_seq (entries t ! i)) (filter (\<lambda>i. live_ctrl (ctrl t ! i)) [0..<capacity t])"

text \<open>The calls \<open>ForEach\<close> makes, in order.\<close>

definition ForEach :: "'a TsHashTable \<Rightarrow> ('a \<times> 'a) list" where
  "ForEach t = map (\<lambda>i. (e_key (entries t ! i), e_value (entries t ! i))) (collect_ordered t)"

definition ForEachEnumerable :: "'a TsHashTable \<Rightarrow> ('a \<times> 'a) list" where
  "ForEachEnumerable t =
     map (\<lambda>i. (e_key (entries t ! i), e_value (entries t ! i)))
       (filter (\<lambda>i. attrs t ! i AND ATTR_ENUMERABLE \<noteq> 0) (collect_ordered t))"

definition GetEntryAt :: "'a TsHashTable \<Rightarrow> nat \<Rightarrow> ('a \<times> 'a) option" where
  "GetEntryAt t idx =
     (if idx \<ge> capacity t then None
      else if \<not> live_ctrl (ctrl t ! idx) then None
      else Some (e_key (entries t ! idx), e_value (entries t ! idx)))"

definition next_step ::
  "'a TsHashTable \<Rightarrow> bool \<Rightarrow> nat \<Rightarrow> nat \<Rightarrow> nat \<Rightarrow> nat option \<Rightarrow> nat option" where
  "next_step t fst_call afterSeq seqLimit i best =
     (if \<not> live_ctrl (ctrl t ! i) then best
      else
        let s = e_seq (entries t ! i)
        in if s \<ge> seqLimit then best
           else if \<not> fst_call \<and> s \<le> afterSeq then best
           else case best of None \<Rightarrow> Some i
                | Some j \<Rightarrow> if s < e_seq (entries t ! j) then Some i else best)"

definition NextLiveBySeq ::
  "'a TsHashTable \<Rightarrow> bool \<Rightarrow> nat \<Rightarrow> nat \<Rightarrow> ('a \<times> 'a \<times> nat) option" where
  "NextLiveBySeq t fst_call afterSeq seqLimit =
     map_option (\<lambda>i. (e_key (entries t ! i), e_value (entries t ! i), e_seq (entries t ! i)))
       (fold (next_step t fst_call afterSeq seqLimit) [0..<capacity t] None)"

definition CurrentSeqMark :: "'a TsHashTable \<Rightarrow> nat" where
  "CurrentSeqMark t = insert_seq t"

end
