(* ===== verification/HashTableSlots.thy ===== *)
theory HashTableSlots
  imports HashTable
begin

text \<open>
  The invariant of the hash table's slots: what a probe for a key finds and misses, where a new
  entry goes, and that replacing, adding and removing an entry keep every live slot findable.
\<close>

section \<open>Control bytes and probe positions\<close>

lemma live_h2 [simp]: "live_ctrl (h2_from_hash h)"
  by (simp add: live_ctrl_def h2_from_hash_def CTRL_EMPTY_def CTRL_DELETED_def Let_def)

lemma live_ctrl_special [simp]: "\<not> live_ctrl CTRL_EMPTY" "\<not> live_ctrl CTRL_DELETED" "\<not> live_ctrl 0"
  by (simp_all add: live_ctrl_def CTRL_EMPTY_def)

lemma ctrl_codes [simp]: "CTRL_EMPTY = 0" "CTRL_DELETED \<noteq> 0" "0 \<noteq> CTRL_DELETED"
  by (simp_all add: CTRL_EMPTY_def CTRL_DELETED_def)

lemma h2_nonzero [simp]: "h2_from_hash h \<noteq> 0" "0 \<noteq> h2_from_hash h" "h2_from_hash h \<noteq> CTRL_DELETED"
  using live_h2 [of h] by (auto simp: live_ctrl_def)

lemma and_pow2_minus1: "a AND (2 ^ n - 1) = a mod 2 ^ n" for a :: nat
  by (metis mask_eq_exp_minus_1 take_bit_eq_mask take_bit_eq_mod)

definition live_set :: "'a TsHashTable \<Rightarrow> nat set" where
  "live_set t = {i. i < capacity t \<and> live_ctrl (ctrl t ! i)}"

definition deleted_set :: "'a TsHashTable \<Rightarrow> nat set" where
  "deleted_set t = {i. i < capacity t \<and> ctrl t ! i = CTRL_DELETED}"

text \<open>The entry of a slot, and what the table holds: (sequence number, key, value, attributes).\<close>

definition quad :: "'a TsHashTable \<Rightarrow> nat \<Rightarrow> nat \<times> 'a \<times> 'a \<times> u8" where
  "quad t i = (e_seq (entries t ! i), e_key (entries t ! i), e_value (entries t ! i), attrs t ! i)"

definition contents :: "'a TsHashTable \<Rightarrow> (nat \<times> 'a \<times> 'a \<times> u8) list" where
  "contents t = map (quad t) (collect_ordered t)"

text \<open>The \<open>k\<close>-th slot that a search for a hash looks at.\<close>

definition slot_at :: "'a TsHashTable \<Rightarrow> u64 \<Rightarrow> nat \<Rightarrow> nat" where
  "slot_at t hash k = (h1_from_hash t hash + k) mod capacity t"

definition found_by_probing :: "('a \<Rightarrow> u64) \<Rightarrow> 'a TsHashTable \<Rightarrow> nat \<Rightarrow> bool" where
  "found_by_probing hs t i \<longleftrightarrow>
     (\<exists>k<capacity t. i = slot_at t (hs (e_key (entries t ! i))) k \<and>
        (\<forall>j<k. ctrl t ! slot_at t (hs (e_key (entries t ! i))) j \<noteq> CTRL_EMPTY))"

definition shape_ok :: "'a TsHashTable \<Rightarrow> bool" where
  "shape_ok t \<longleftrightarrow>
     (\<exists>n. 3 \<le> n \<and> n \<le> 28 \<and> capacity t = 2 ^ n) \<and> length (ctrl t) = capacity t \<and>
     length (attrs t) = capacity t \<and> length (entries t) = capacity t \<and>
     grow_thresh t = capacity t - capacity t div 8"

definition slots_ok :: "('a \<Rightarrow> u64) \<Rightarrow> ('a \<Rightarrow> 'a \<Rightarrow> bool) \<Rightarrow> ('a \<Rightarrow> bool) \<Rightarrow> 'a TsHashTable \<Rightarrow> bool" where
  "slots_ok hs eq ok t \<longleftrightarrow>
     shape_ok t \<and>
     (\<forall>i\<in>live_set t. ctrl t ! i = h2_from_hash (hs (e_key (entries t ! i))) \<and> ok (e_key (entries t ! i)) \<and>
        e_seq (entries t ! i) < insert_seq t \<and> found_by_probing hs t i) \<and>
     (\<forall>i\<in>live_set t. \<forall>j\<in>live_set t. eq (e_key (entries t ! i)) (e_key (entries t ! j)) \<longrightarrow> i = j) \<and>
     inj_on (\<lambda>i. e_seq (entries t ! i)) (live_set t)"

definition table_ok :: "('a \<Rightarrow> u64) \<Rightarrow> ('a \<Rightarrow> 'a \<Rightarrow> bool) \<Rightarrow> ('a \<Rightarrow> bool) \<Rightarrow> 'a TsHashTable \<Rightarrow> bool" where
  "table_ok hs eq ok t \<longleftrightarrow>
     slots_ok hs eq ok t \<and> ht_size t = card (live_set t) \<and> tombstones t = card (deleted_set t) \<and>
     ht_size t + tombstones t \<le> grow_thresh t"

lemma shape_okE:
  assumes "shape_ok t"
  obtains n where "3 \<le> n" "n \<le> 28" "capacity t = 2 ^ n"
  using assms unfolding shape_ok_def by blast

lemma shape_cap:
  assumes "shape_ok t"
  shows "8 \<le> capacity t" "capacity t \<le> 2 ^ 28" "8 dvd capacity t" "length (ctrl t) = capacity t"
    "length (attrs t) = capacity t" "length (entries t) = capacity t"
    "grow_thresh t = capacity t - capacity t div 8"
proof -
  obtain n where n: "3 \<le> n" "n \<le> 28" "capacity t = 2 ^ n" by (rule shape_okE [OF assms])
  have "(2 :: nat) ^ 3 \<le> 2 ^ n" "(2 :: nat) ^ n \<le> 2 ^ 28" "(2 :: nat) ^ 3 dvd 2 ^ n"
    using n power_increasing [of 3 n "2 :: nat"] power_increasing [of n 28 "2 :: nat"] le_imp_power_dvd [of 3 n "2 :: nat"]
    by simp_all
  then show "8 \<le> capacity t" "capacity t \<le> 2 ^ 28" "8 dvd capacity t" using n by simp_all
  show "length (ctrl t) = capacity t"
    "length (attrs t) = capacity t" "length (entries t) = capacity t"
    "grow_thresh t = capacity t - capacity t div 8" using assms unfolding shape_ok_def by blast+
qed

lemma shape_step:
  assumes "shape_ok t"
  shows "looks_valid t" "a AND (capacity t - 1) = a mod capacity t"
proof -
  obtain n where n: "3 \<le> n" "n \<le> 28" "capacity t = 2 ^ n" by (rule shape_okE [OF assms])
  show *: "a AND (capacity t - 1) = a mod capacity t" for a by (simp only: n and_pow2_minus1)
  have "capacity t \<le> 2 ^ 28" by (rule shape_cap [OF assms])
  moreover have "capacity t AND (capacity t - Suc 0) = 0" using * [of "capacity t"] by simp
  ultimately show "looks_valid t" using n by (simp add: looks_valid_def push_bit_eq_mult)
qed

lemma slot_at_less: "shape_ok t \<Longrightarrow> slot_at t h k < capacity t"
  using shape_cap(1) [of t] by (simp add: slot_at_def)

lemma slot_at_step:
  assumes "shape_ok t"
  shows "(slot_at t h k + 1) AND (capacity t - 1) = slot_at t h (Suc k)" "h1_from_hash t h = slot_at t h 0"
proof -
  show "(slot_at t h k + 1) AND (capacity t - 1) = slot_at t h (Suc k)"
    unfolding shape_step(2) [OF assms] slot_at_def by (simp add: mod_Suc_eq)
  show "h1_from_hash t h = slot_at t h 0"
    unfolding slot_at_def h1_from_hash_def shape_step(2) [OF assms] by simp
qed

lemma slot_at_onto:
  assumes "shape_ok t" "i < capacity t"
  obtains k where "k < capacity t" "slot_at t h k = i"
proof -
  define a where "a = h1_from_hash t h"
  have a: "a < capacity t"
    using slot_at_less [OF assms(1), of h 0] by (simp add: a_def slot_at_step(2) [OF assms(1), symmetric])
  show ?thesis
  proof (cases "a \<le> i")
    case True
    then show ?thesis using assms(2) by (intro that [of "i - a"]) (simp_all add: slot_at_def flip: a_def)
  next
    case False
    then have "a + (i + capacity t - a) = i + capacity t" using a by simp
    then have "slot_at t h (i + capacity t - a) = i" using assms(2) by (simp add: slot_at_def flip: a_def)
    then show ?thesis by (rule that [rotated]) (use False a in simp)
  qed
qed

text \<open>Positions only depend on the capacity.\<close>

lemma slot_at_cong: "capacity t = capacity t' \<Longrightarrow> slot_at t = slot_at t'"
  by (intro ext) (simp only: slot_at_def h1_from_hash_def)

lemma finite_live_set [simp]: "finite (live_set t)" "finite (deleted_set t)"
  by (simp_all add: live_set_def deleted_set_def)

lemma live_not_full:
  assumes "shape_ok t" "card (live_set t) < capacity t"
  obtains i where "i < capacity t" "\<not> live_ctrl (ctrl t ! i)"
proof -
  have "\<not> (\<forall>i<capacity t. live_ctrl (ctrl t ! i))"
  proof
    assume "\<forall>i<capacity t. live_ctrl (ctrl t ! i)"
    then have "live_set t = {..<capacity t}" unfolding live_set_def by blast
    then have "card (live_set t) = capacity t" by simp
    then show False using assms(2) by simp
  qed
  then show ?thesis using that by blast
qed

section \<open>Searching\<close>

lemma probe_some:
  assumes sh: "shape_ok t"
  shows "probe eq t key h2 n (slot_at t h k) = Some i \<Longrightarrow>
    i < capacity t \<and> ctrl t ! i = h2 \<and> h2 \<noteq> CTRL_EMPTY \<and> eq (e_key (entries t ! i)) key"
proof (induction n arbitrary: k)
  case (Suc n)
  show ?case
  proof (cases "ctrl t ! slot_at t h k = CTRL_EMPTY \<or>
      (ctrl t ! slot_at t h k = h2 \<and> eq (e_key (entries t ! slot_at t h k)) key)")
    case True
    then show ?thesis using Suc.prems slot_at_less [OF sh, of h k] by (auto simp: Let_def split: if_splits)
  next
    case False
    then have "probe eq t key h2 n (slot_at t h (Suc k)) = Some i"
      using Suc.prems slot_at_step(1) [OF sh, of h k] by (auto simp: Let_def)
    then show ?thesis by (rule Suc.IH)
  qed
qed simp

lemma probe_none:
  assumes sh: "shape_ok t"
  shows "probe eq t key h2 n (slot_at t h k) = None \<Longrightarrow> k \<le> j \<Longrightarrow> j < k + n \<Longrightarrow>
    (\<And>l. l \<le> j \<Longrightarrow> ctrl t ! slot_at t h l \<noteq> CTRL_EMPTY) \<Longrightarrow>
    \<not> (ctrl t ! slot_at t h j = h2 \<and> eq (e_key (entries t ! slot_at t h j)) key)"
proof (induction n arbitrary: k)
  case (Suc n)
  have e: "ctrl t ! slot_at t h k \<noteq> CTRL_EMPTY" by (rule Suc.prems(4) [OF Suc.prems(2)])
  then have nm: "\<not> (ctrl t ! slot_at t h k = h2 \<and> eq (e_key (entries t ! slot_at t h k)) key)"
    using Suc.prems(1) by (auto simp: Let_def)
  then have p: "probe eq t key h2 n (slot_at t h (Suc k)) = None"
    using Suc.prems(1) e slot_at_step(1) [OF sh, of h k] by (auto simp: Let_def)
  show ?case
  proof (cases "j = k")
    case False
    then show ?thesis using Suc.IH [OF p] Suc.prems by simp
  qed (use nm in simp)
qed simp

lemma free_slot_some:
  assumes sh: "shape_ok t"
  shows "free_slot t n (slot_at t h k) = Some i \<Longrightarrow>
    \<exists>j. k \<le> j \<and> j < k + n \<and> i = slot_at t h j \<and> \<not> live_ctrl (ctrl t ! i) \<and>
        (\<forall>l. k \<le> l \<longrightarrow> l < j \<longrightarrow> live_ctrl (ctrl t ! slot_at t h l))"
proof (induction n arbitrary: k)
  case (Suc n)
  show ?case
  proof (cases "live_ctrl (ctrl t ! slot_at t h k)")
    case True
    then have "free_slot t n (slot_at t h (Suc k)) = Some i"
      using Suc.prems slot_at_step(1) [OF sh, of h k] by simp
    from Suc.IH [OF this] obtain j where j: "Suc k \<le> j" "j < Suc k + n" "i = slot_at t h j"
      "\<not> live_ctrl (ctrl t ! i)" "\<forall>l. Suc k \<le> l \<longrightarrow> l < j \<longrightarrow> live_ctrl (ctrl t ! slot_at t h l)" by blast
    show ?thesis
    proof (intro exI [of _ j] conjI allI impI)
      fix l assume "k \<le> l" "l < j"
      then show "live_ctrl (ctrl t ! slot_at t h l)" using True j(5) by (cases "l = k") auto
    qed (use j in simp_all)
  next
    case False
    then show ?thesis using Suc.prems by (intro exI [of _ k]) auto
  qed
qed simp

lemma free_slot_none:
  assumes sh: "shape_ok t"
  shows "free_slot t n (slot_at t h k) = None \<Longrightarrow> k \<le> j \<Longrightarrow> j < k + n \<Longrightarrow>
    live_ctrl (ctrl t ! slot_at t h j)"
proof (induction n arbitrary: k)
  case (Suc n)
  have "live_ctrl (ctrl t ! slot_at t h k)" "free_slot t n (slot_at t h (Suc k)) = None"
    using Suc.prems(1) slot_at_step(1) [OF sh, of h k] by (auto split: if_splits)
  then show ?case using Suc.IH Suc.prems(2,3) by (cases "j = k") auto
qed simp

text \<open>A table with a slot that is not live always finds a place for a new entry.\<close>

lemma free_slot_returns:
  assumes sh: "shape_ok t" and c: "card (live_set t) < capacity t"
  obtains i j where "free_slot t (capacity t) (h1_from_hash t h) = Some i" "j < capacity t"
    "i = slot_at t h j" "\<not> live_ctrl (ctrl t ! i)" "\<forall>l<j. live_ctrl (ctrl t ! slot_at t h l)"
proof -
  obtain i where i: "i < capacity t" "\<not> live_ctrl (ctrl t ! i)" by (rule live_not_full [OF sh c])
  obtain k where k: "k < capacity t" "slot_at t h k = i" by (rule slot_at_onto [OF sh i(1)])
  have "free_slot t (capacity t) (slot_at t h 0) \<noteq> None"
    using free_slot_none [OF sh, of "capacity t" h 0 k] k i by auto
  then obtain i' where i': "free_slot t (capacity t) (slot_at t h 0) = Some i'" by blast
  from free_slot_some [OF sh i'] show ?thesis
    using that i' by (auto simp: slot_at_step(2) [OF sh])
qed

section \<open>Updating slots\<close>

lemma slots_okD:
  assumes "slots_ok hs eq ok t"
  shows "shape_ok t"
    "i \<in> live_set t \<Longrightarrow> ctrl t ! i = h2_from_hash (hs (e_key (entries t ! i)))"
    "i \<in> live_set t \<Longrightarrow> ok (e_key (entries t ! i))"
    "i \<in> live_set t \<Longrightarrow> e_seq (entries t ! i) < insert_seq t"
    "i \<in> live_set t \<Longrightarrow> found_by_probing hs t i"
    "i \<in> live_set t \<Longrightarrow> j \<in> live_set t \<Longrightarrow> eq (e_key (entries t ! i)) (e_key (entries t ! j)) \<Longrightarrow> i = j"
    "inj_on (\<lambda>i. e_seq (entries t ! i)) (live_set t)"
  using assms unfolding slots_ok_def by blast+

lemma slots_okI:
  assumes "shape_ok t"
    "\<And>i. i \<in> live_set t \<Longrightarrow> ctrl t ! i = h2_from_hash (hs (e_key (entries t ! i)))"
    "\<And>i. i \<in> live_set t \<Longrightarrow> ok (e_key (entries t ! i))"
    "\<And>i. i \<in> live_set t \<Longrightarrow> e_seq (entries t ! i) < insert_seq t"
    "\<And>i. i \<in> live_set t \<Longrightarrow> found_by_probing hs t i"
    "\<And>i j. i \<in> live_set t \<Longrightarrow> j \<in> live_set t \<Longrightarrow> eq (e_key (entries t ! i)) (e_key (entries t ! j)) \<Longrightarrow> i = j"
    "inj_on (\<lambda>i. e_seq (entries t ! i)) (live_set t)"
  shows "slots_ok hs eq ok t"
  using assms unfolding slots_ok_def by blast

lemma live_setD: "i \<in> live_set t \<Longrightarrow> i < capacity t" "i \<in> live_set t \<Longrightarrow> live_ctrl (ctrl t ! i)"
  by (simp_all add: live_set_def)

lemma shape_ok_cong:
  "shape_ok t \<Longrightarrow> capacity t' = capacity t \<Longrightarrow> length (ctrl t') = length (ctrl t) \<Longrightarrow>
   length (attrs t') = length (attrs t) \<Longrightarrow> length (entries t') = length (entries t) \<Longrightarrow>
   grow_thresh t' = grow_thresh t \<Longrightarrow> shape_ok t'"
  by (simp add: shape_ok_def)

text \<open>A slot stays findable as long as no slot becomes empty and its hash stays.\<close>

lemma found_mono:
  assumes "found_by_probing hs t i" "shape_ok t" "capacity t' = capacity t"
    "hs (e_key (entries t' ! i)) = hs (e_key (entries t ! i))"
    "\<And>l. l < capacity t \<Longrightarrow> ctrl t ! l \<noteq> CTRL_EMPTY \<Longrightarrow> ctrl t' ! l \<noteq> CTRL_EMPTY"
  shows "found_by_probing hs t' i"
  using assms(1) unfolding found_by_probing_def
  by (metis assms(2-5) slot_at_cong slot_at_less)

context hash_keys
begin

lemma find_slot_some:
  assumes s: "slots_ok hs eq ok t" and f: "find_slot hs eq t key = Some i"
  shows "i \<in> live_set t" "eq (e_key (entries t ! i)) key"
proof -
  note sh = slots_okD(1) [OF s]
  have "probe eq t key (h2_from_hash (hs key)) (capacity t) (slot_at t (hs key) 0) = Some i"
    using f by (simp add: find_slot_def shape_step(1) [OF sh] slot_at_step(2) [OF sh])
  from probe_some [OF sh this] show "i \<in> live_set t" "eq (e_key (entries t ! i)) key"
    by (simp_all add: live_set_def)
qed

lemma find_slot_none:
  assumes s: "slots_ok hs eq ok t" and k: "ok key" and f: "find_slot hs eq t key = None" and j: "j \<in> live_set t"
  shows "\<not> eq (e_key (entries t ! j)) key"
proof
  assume e: "eq (e_key (entries t ! j)) key"
  note sh = slots_okD(1) [OF s]
  have h: "hs (e_key (entries t ! j)) = hs key" by (rule eq_hash [OF slots_okD(3) [OF s j] k e])
  obtain l where l: "l < capacity t" "j = slot_at t (hs key) l"
    and ne: "\<forall>m<l. ctrl t ! slot_at t (hs key) m \<noteq> CTRL_EMPTY"
    using slots_okD(5) [OF s j] unfolding found_by_probing_def h by blast
  have ne': "ctrl t ! slot_at t (hs key) m \<noteq> CTRL_EMPTY" if "m \<le> l" for m
  proof (cases "m = l")
    case True
    then show ?thesis using live_setD(2) [OF j] l(2) by (auto simp: live_ctrl_def)
  qed (use ne that in simp)
  have "probe eq t key (h2_from_hash (hs key)) (capacity t) (slot_at t (hs key) 0) = None"
    using f by (simp add: find_slot_def shape_step(1) [OF sh] slot_at_step(2) [OF sh])
  from probe_none [OF sh this, of l] l ne' have
    "\<not> (ctrl t ! j = h2_from_hash (hs key) \<and> eq (e_key (entries t ! j)) key)" by simp
  then show False using slots_okD(2) [OF s j] h e by simp
qed

text \<open>Replacing the entry of a live slot by one with an equal key and the same number.\<close>

lemma slots_ok_replace:
  assumes s: "slots_ok hs eq ok t" and i: "i \<in> live_set t"
    and k: "ok (e_key e)" "eq (e_key (entries t ! i)) (e_key e)" "e_seq e = e_seq (entries t ! i)"
    and t': "ctrl t' = ctrl t" "entries t' = (entries t)[i := e]" "length (attrs t') = length (attrs t)"
      "capacity t' = capacity t" "grow_thresh t' = grow_thresh t" "insert_seq t' = insert_seq t"
  shows "slots_ok hs eq ok t'" "live_set t' = live_set t" "deleted_set t' = deleted_set t"
proof -
  note sh = slots_okD(1) [OF s]
  show lv: "live_set t' = live_set t" and "deleted_set t' = deleted_set t"
    by (simp_all add: live_set_def deleted_set_def t')
  have il: "i < length (entries t)" using live_setD(1) [OF i] shape_cap(6) [OF sh] by simp
  have nth: "entries t' ! j = (if j = i then e else entries t ! j)" for j
    using il by (simp add: t'(2))
  have sq: "e_seq (entries t' ! j) = e_seq (entries t ! j)" for j by (simp add: nth k(3))
  have h: "hs (e_key (entries t' ! j)) = hs (e_key (entries t ! j))" for j
    using eq_hash [OF slots_okD(3) [OF s i] k(1,2)] by (simp add: nth)
  have okj: "ok (e_key (entries t' ! j))" if "j \<in> live_set t" for j
    using slots_okD(3) [OF s that] k(1) by (simp add: nth)
  have e: "eq (e_key (entries t ! j)) (e_key (entries t' ! j))" if "j \<in> live_set t" for j
    using slots_okD(3) [OF s that] k(2) by (simp add: nth eq_refl)
  show "slots_ok hs eq ok t'"
  proof (rule slots_okI, unfold lv)
    show "shape_ok t'" by (rule shape_ok_cong [OF sh]) (simp_all add: t')
    show "inj_on (\<lambda>i. e_seq (entries t' ! i)) (live_set t)"
      using slots_okD(7) [OF s] by (simp only: sq)
    fix j assume j: "j \<in> live_set t"
    show "ctrl t' ! j = h2_from_hash (hs (e_key (entries t' ! j)))"
      using slots_okD(2) [OF s j] by (simp only: t'(1) h)
    show "ok (e_key (entries t' ! j))" by (rule okj [OF j])
    show "e_seq (entries t' ! j) < insert_seq t'"
      using slots_okD(4) [OF s j] by (simp only: sq t'(6))
    show "found_by_probing hs t' j"
      by (rule found_mono [OF slots_okD(5) [OF s j] sh]) (simp_all add: t'(1,4) h)
    fix l assume l: "l \<in> live_set t" and "eq (e_key (entries t' ! j)) (e_key (entries t' ! l))"
    then have "eq (e_key (entries t ! j)) (e_key (entries t ! l))"
      using eq_trans [OF slots_okD(3) [OF s j] okj [OF j] okj [OF l] e [OF j]]
        eq_trans [OF slots_okD(3) [OF s j] okj [OF l] slots_okD(3) [OF s l]]
        eq_sym [OF slots_okD(3) [OF s l] okj [OF l] e [OF l]] by blast
    then show "j = l" by (rule slots_okD(6) [OF s j l])
  qed
qed

text \<open>Putting an entry with a new key and a new number into a slot that its search reaches.\<close>

lemma slots_ok_put:
  assumes s: "slots_ok hs eq ok t" and k: "ok (e_key e)"
    and new: "\<And>j. j \<in> live_set t \<Longrightarrow> \<not> eq (e_key (entries t ! j)) (e_key e)"
      "\<And>j. j \<in> live_set t \<Longrightarrow> e_seq (entries t ! j) \<noteq> e_seq e"
    and p: "p < capacity t" "i = slot_at t (hs (e_key e)) p" "\<not> live_ctrl (ctrl t ! i)"
      "\<forall>l<p. live_ctrl (ctrl t ! slot_at t (hs (e_key e)) l)"
    and t': "ctrl t' = (ctrl t)[i := h2_from_hash (hs (e_key e))]" "entries t' = (entries t)[i := e]"
      "length (attrs t') = length (attrs t)" "capacity t' = capacity t" "grow_thresh t' = grow_thresh t"
      "insert_seq t \<le> insert_seq t'" "e_seq e < insert_seq t'"
  shows "slots_ok hs eq ok t'" "live_set t' = insert i (live_set t)" "i \<notin> live_set t"
    "deleted_set t' = deleted_set t - {i}" "i < capacity t"
proof -
  note sh = slots_okD(1) [OF s]
  show ic: "i < capacity t" using slot_at_less [OF sh] p(2) by simp
  then have il: "i < length (entries t)" "i < length (ctrl t)" using shape_cap(4,6) [OF sh] by simp_all
  show lv: "live_set t' = insert i (live_set t)" and "deleted_set t' = deleted_set t - {i}"
    using ic by (auto simp: live_set_def deleted_set_def t'(1,4) nth_list_update il)
  show ni: "i \<notin> live_set t" using p(3) by (simp add: live_set_def)
  have nth: "entries t' ! j = (if j = i then e else entries t ! j)" for j
    using il by (simp add: t'(2))
  have live: "j = i \<or> (j \<noteq> i \<and> j \<in> live_set t)" if "j \<in> live_set t'" for j
    using that by (auto simp: lv)
  have sl: "slot_at t' = slot_at t" by (rule slot_at_cong [OF t'(4)])
  show "slots_ok hs eq ok t'"
  proof (rule slots_okI)
    show "shape_ok t'" by (rule shape_ok_cong [OF sh]) (simp_all add: t')
    show "inj_on (\<lambda>i. e_seq (entries t' ! i)) (live_set t')"
      using slots_okD(7) [OF s] new(2) not_sym [OF new(2)] ni unfolding lv inj_on_def nth by auto
    fix j assume j': "j \<in> live_set t'"
    note j = live [OF j']
    show "ctrl t' ! j = h2_from_hash (hs (e_key (entries t' ! j)))"
      using j slots_okD(2) [OF s, of j] by (auto simp: t'(1) nth il)
    show "ok (e_key (entries t' ! j))" using j slots_okD(3) [OF s, of j] k by (auto simp: nth)
    show "e_seq (entries t' ! j) < insert_seq t'"
      using j slots_okD(4) [OF s, of j] t'(6,7) by (auto simp: nth)
    show "found_by_probing hs t' j"
    proof (cases "j = i")
      case True
      have "ctrl t' ! slot_at t (hs (e_key e)) l \<noteq> CTRL_EMPTY" if "l < p" for l
        using p(4) that by (auto simp: t'(1) nth_list_update il live_ctrl_def)
      then show ?thesis
        unfolding found_by_probing_def sl using True p(1,2) by (auto simp: nth t'(4))
    next
      case False
      show ?thesis
      proof (rule found_mono [OF slots_okD(5) [OF s] sh])
        show "j \<in> live_set t" using j False by blast
      qed (use False in \<open>simp_all add: t'(1,4) nth nth_list_update il\<close>)
    qed
    fix l assume l': "l \<in> live_set t'" and e: "eq (e_key (entries t' ! j)) (e_key (entries t' ! l))"
    show "j = l"
    proof (rule ccontr)
      assume ne: "j \<noteq> l"
      then consider "j = i" "l \<noteq> i" "l \<in> live_set t" | "l = i" "j \<noteq> i" "j \<in> live_set t"
        | "j \<noteq> i" "l \<noteq> i" "j \<in> live_set t" "l \<in> live_set t"
        using j live [OF l'] by blast
      then show False
      proof cases
        case 1
        then show ?thesis
          using e new(1) [of l] eq_sym [OF k slots_okD(3) [OF s]] by (auto simp: nth)
      next
        case 2
        then show ?thesis using e new(1) [of j] by (auto simp: nth)
      next
        case 3
        then show ?thesis using e slots_okD(6) [OF s 3(3,4)] ne by (auto simp: nth)
      qed
    qed
  qed
qed

text \<open>Emptying a live slot leaves a tombstone, which no search takes for an end.\<close>

lemma slots_ok_remove:
  assumes s: "slots_ok hs eq ok t" and i: "i \<in> live_set t"
    and t': "ctrl t' = (ctrl t)[i := CTRL_DELETED]" "entries t' = (entries t)[i := e]"
      "length (attrs t') = length (attrs t)" "capacity t' = capacity t" "grow_thresh t' = grow_thresh t"
      "insert_seq t' = insert_seq t"
  shows "slots_ok hs eq ok t'" "live_set t' = live_set t - {i}" "deleted_set t' = insert i (deleted_set t)"
    "i \<notin> deleted_set t"
proof -
  note sh = slots_okD(1) [OF s]
  have ic: "i < capacity t" using live_setD(1) [OF i] .
  then have il: "i < length (entries t)" "i < length (ctrl t)" using shape_cap(4,6) [OF sh] by simp_all
  show lv: "live_set t' = live_set t - {i}" and "deleted_set t' = insert i (deleted_set t)"
    using ic by (auto simp: live_set_def deleted_set_def t'(1,4) nth_list_update il)
  show "i \<notin> deleted_set t" using i by (auto simp: live_set_def deleted_set_def)
  have nth: "j \<noteq> i \<Longrightarrow> entries t' ! j = entries t ! j" for j
    by (simp add: t'(2))
  show "slots_ok hs eq ok t'"
  proof (rule slots_okI)
    show "shape_ok t'" by (rule shape_ok_cong [OF sh]) (simp_all add: t')
    show "inj_on (\<lambda>i. e_seq (entries t' ! i)) (live_set t')"
      using slots_okD(7) [OF s] unfolding lv inj_on_def by (simp add: nth)
    fix j assume j': "j \<in> live_set t'"
    then have j: "j \<in> live_set t" "j \<noteq> i" by (auto simp: lv)
    show "ctrl t' ! j = h2_from_hash (hs (e_key (entries t' ! j)))"
      using j slots_okD(2) [OF s j(1)] by (simp add: t'(1) nth)
    show "ok (e_key (entries t' ! j))" using j slots_okD(3) [OF s j(1)] by (simp add: nth)
    show "e_seq (entries t' ! j) < insert_seq t'"
      using j slots_okD(4) [OF s j(1)] by (simp add: nth t'(6))
    show "found_by_probing hs t' j"
      by (rule found_mono [OF slots_okD(5) [OF s j(1)] sh])
        (use j in \<open>simp_all add: t'(1,4) nth nth_list_update il\<close>)
    fix l assume l': "l \<in> live_set t'" and e: "eq (e_key (entries t' ! j)) (e_key (entries t' ! l))"
    then have l: "l \<in> live_set t" "l \<noteq> i" by (auto simp: lv)
    show "j = l" by (rule slots_okD(6) [OF s j(1) l(1)]) (use e j l in \<open>simp add: nth\<close>)
  qed
qed

end

end
