(* ===== verification/HashTableRefine.thy ===== *)
theory HashTableRefine
  imports HashTableSlots
begin

text \<open>
  The contents of the hash table as a list ordered by insertion, the specification of its
  operations on that list, and growth: inserting, rehashing and making room keep the contents.
\<close>


section \<open>The contents as an ordered list\<close>

lemma set_collect_ordered [simp]: "set (collect_ordered t) = live_set t"
  by (auto simp: collect_ordered_def live_set_def)

lemma set_contents [simp]: "set (contents t) = quad t ` live_set t"
  by (simp add: contents_def)

lemma fst_quad [simp]: "fst (quad t i) = e_seq (entries t ! i)"
  by (simp add: quad_def)

lemma map_fst_contents: "map fst (contents t) = map (\<lambda>i. e_seq (entries t ! i)) (collect_ordered t)"
  by (simp add: contents_def)

lemma contents_sorted: "sorted (map fst (contents t))"
  unfolding map_fst_contents collect_ordered_def by (rule sorted_sort_key)

lemma contents_distinct:
  assumes "inj_on (\<lambda>i. e_seq (entries t ! i)) (live_set t)"
  shows "distinct (map fst (contents t))"
  using assms by (simp add: map_fst_contents distinct_map) (simp add: collect_ordered_def)

text \<open>A list that is ordered by distinct numbers is determined by its elements.\<close>

lemma ordered_unique:
  assumes "set xs = set ys" "sorted (map fst xs)" "distinct (map fst xs)" "sorted (map fst ys)" "distinct (map fst ys)"
  shows "xs = ys"
proof (rule map_sorted_distinct_set_unique [of fst])
  show "inj_on fst (set xs \<union> set ys)" using assms(1,3) by (simp add: distinct_map)
qed (use assms in simp_all)

lemma length_contents: "length (contents t) = card (live_set t)"
proof -
  have "distinct (collect_ordered t)" by (simp add: collect_ordered_def)
  then show ?thesis using distinct_card [of "collect_ordered t"] by (simp add: contents_def)
qed

text \<open>The specification: storing a pair replaces the entry with an equal key where it stands, or
  appends one with the next number; deleting drops it.\<close>

definition od_has :: "('a \<Rightarrow> 'a \<Rightarrow> bool) \<Rightarrow> 'a \<Rightarrow> (nat \<times> 'a \<times> 'a \<times> u8) list \<Rightarrow> bool" where
  "od_has eq key xs \<longleftrightarrow> (\<exists>(s, k, v, a)\<in>set xs. eq k key)"

definition od_find :: "('a \<Rightarrow> 'a \<Rightarrow> bool) \<Rightarrow> 'a \<Rightarrow> (nat \<times> 'a \<times> 'a \<times> u8) list \<Rightarrow> ('a \<times> u8) option" where
  "od_find eq key xs = map_option (\<lambda>(s, k, v, a). (v, a)) (find (\<lambda>(s, k, v, a). eq k key) xs)"

definition od_put ::
  "('a \<Rightarrow> 'a \<Rightarrow> bool) \<Rightarrow> nat \<Rightarrow> 'a \<Rightarrow> 'a \<Rightarrow> (u8 \<Rightarrow> u8) \<Rightarrow> u8 \<Rightarrow> (nat \<times> 'a \<times> 'a \<times> u8) list \<Rightarrow> (nat \<times> 'a \<times> 'a \<times> u8) list" where
  "od_put eq sq key val upd dflt xs =
     (if od_has eq key xs
      then map (\<lambda>(s, k, v, a). if eq k key then (s, key, val, upd a) else (s, k, v, a)) xs
      else xs @ [(sq, key, val, dflt)])"

definition od_delete :: "('a \<Rightarrow> 'a \<Rightarrow> bool) \<Rightarrow> 'a \<Rightarrow> (nat \<times> 'a \<times> 'a \<times> u8) list \<Rightarrow> (nat \<times> 'a \<times> 'a \<times> u8) list" where
  "od_delete eq key xs = filter (\<lambda>(s, k, v, a). \<not> eq k key) xs"

section \<open>The operations\<close>

text \<open>One more entry: what \<open>insert_entry\<close> and the growth of \<open>Set\<close> leave behind.\<close>

definition grown_by :: "nat \<times> 'a \<times> 'a \<times> u8 \<Rightarrow> 'a TsHashTable \<Rightarrow> 'a TsHashTable \<Rightarrow> bool" where
  "grown_by q t t' \<longleftrightarrow>
     (\<exists>i. i \<notin> live_set t \<and> live_set t' = insert i (live_set t) \<and> deleted_set t' = deleted_set t - {i} \<and>
        quad t' i = q \<and> (\<forall>j. j \<noteq> i \<longrightarrow> quad t' j = quad t j) \<and>
        capacity t' = capacity t \<and> grow_thresh t' = grow_thresh t \<and> ht_size t' = ht_size t \<and>
        tombstones t' = (if i \<in> deleted_set t \<and> tombstones t > 0 then tombstones t - 1 else tombstones t))"

lemma grown_set:
  assumes "grown_by q t t'"
  shows "quad t' ` live_set t' = insert q (quad t ` live_set t)" "card (live_set t') = card (live_set t) + 1"
    "capacity t' = capacity t" "grow_thresh t' = grow_thresh t" "ht_size t' = ht_size t"
    "deleted_set t = {} \<Longrightarrow> deleted_set t' = {}"
proof -
  obtain i where i: "i \<notin> live_set t" "live_set t' = insert i (live_set t)" "deleted_set t' = deleted_set t - {i}"
    "quad t' i = q" "\<forall>j. j \<noteq> i \<longrightarrow> quad t' j = quad t j" "capacity t' = capacity t"
    "grow_thresh t' = grow_thresh t" "ht_size t' = ht_size t"
    using assms unfolding grown_by_def by blast
  have "quad t' j = quad t j" if "j \<in> live_set t" for j using i(1,5) that by metis
  then show "quad t' ` live_set t' = insert q (quad t ` live_set t)" using i(2,4) by simp
qed (use assms in \<open>auto simp: grown_by_def\<close>)

lemma grown_tombstones:
  assumes "grown_by q t t'" "tombstones t = card (deleted_set t)"
  shows "tombstones t' = card (deleted_set t')" "tombstones t' \<le> tombstones t"
proof -
  obtain i where i: "deleted_set t' = deleted_set t - {i}"
    "tombstones t' = (if i \<in> deleted_set t \<and> tombstones t > 0 then tombstones t - 1 else tombstones t)"
    using assms(1) unfolding grown_by_def by blast
  have "0 < card (deleted_set t)" if "i \<in> deleted_set t" using that by (auto simp: card_gt_0_iff)
  then show "tombstones t' = card (deleted_set t')" using i assms(2) by (auto simp: card_Diff_singleton_if)
  show "tombstones t' \<le> tombstones t" using i(2) by simp
qed

lemma entry_overwritten: "r\<lparr>e_key := k, e_value := v, e_seq := s\<rparr> = \<lparr>e_key = k, e_value = v, e_seq = s\<rparr>"
  by (cases r) simp

context hash_keys
begin

lemma insert_entry_correct:
  assumes s: "slots_ok hs eq ok t" and k: "ok key" and c: "card (live_set t) < capacity t"
    and new: "\<And>j. j \<in> live_set t \<Longrightarrow> \<not> eq (e_key (entries t ! j)) key"
    and sq: "\<And>n. seq = Some n \<Longrightarrow> n < insert_seq t \<and> (\<forall>j\<in>live_set t. e_seq (entries t ! j) \<noteq> n)"
  obtains t' where "insert_entry hs key val attr seq t = Some t'" "slots_ok hs eq ok t'"
    "grown_by (case seq of None \<Rightarrow> insert_seq t | Some n \<Rightarrow> n, key, val, attr) t t'"
    "insert_seq t' = (case seq of None \<Rightarrow> insert_seq t + 1 | Some n \<Rightarrow> insert_seq t)"
proof -
  note sh = slots_okD(1) [OF s]
  obtain i p where f: "free_slot t (capacity t) (h1_from_hash t (hs key)) = Some i"
    and p: "p < capacity t" "i = slot_at t (hs key) p" "\<not> live_ctrl (ctrl t ! i)"
      "\<forall>l<p. live_ctrl (ctrl t ! slot_at t (hs key) l)"
    by (rule free_slot_returns [OF sh c])
  define n where "n = (case seq of None \<Rightarrow> insert_seq t | Some n \<Rightarrow> n)"
  define t' where "t' = put_entry (h2_from_hash (hs key)) i key val attr seq t"
  have i: "i < capacity t" using slot_at_less [OF sh] p(2) by simp
  then have il: "i < length (entries t)" "i < length (attrs t)" using shape_cap(5,6) [OF sh] by simp_all
  define e where "e = \<lparr>e_key = key, e_value = val, e_seq = n\<rparr>"
  have e: "e_key e = key" "e_seq e = n" by (simp_all add: e_def)
  have t': "ctrl t' = (ctrl t)[i := h2_from_hash (hs key)]" "entries t' = (entries t)[i := e]"
      "attrs t' = (attrs t)[i := attr]" "capacity t' = capacity t" "grow_thresh t' = grow_thresh t"
      "insert_seq t' = (case seq of None \<Rightarrow> insert_seq t + 1 | Some n \<Rightarrow> insert_seq t)" "ht_size t' = ht_size t"
      "tombstones t' = (if ctrl t ! i = CTRL_DELETED \<and> tombstones t > 0 then tombstones t - 1 else tombstones t)"
    using il by (simp_all add: t'_def put_entry_def store_entry_def e_def n_def Let_def entry_overwritten split: option.split)
  have "\<And>j. j \<in> live_set t \<Longrightarrow> e_seq (entries t ! j) \<noteq> n"
    using slots_okD(4) [OF s] sq by (auto simp: n_def less_imp_neq split: option.splits)
  moreover have "insert_seq t \<le> insert_seq t'" "n < insert_seq t'"
    using sq by (auto simp: t'(6) n_def split: option.splits)
  ultimately have r: "slots_ok hs eq ok t'" "live_set t' = insert i (live_set t)" "i \<notin> live_set t"
    "deleted_set t' = deleted_set t - {i}"
    using slots_ok_put [of t e p i t', OF s] k new p t' by (simp_all add: e)
  have "quad t' i = (n, key, val, attr)" "\<forall>j. j \<noteq> i \<longrightarrow> quad t' j = quad t j"
    using il by (simp_all add: quad_def t'(2,3) e_def)
  then have "grown_by (n, key, val, attr) t t'"
    unfolding grown_by_def using r i by (intro exI [of _ i]) (simp add: t'(4-8) deleted_set_def)
  moreover have "insert_entry hs key val attr seq t = Some t'"
    by (simp add: insert_entry_def f t'_def)
  ultimately show ?thesis using that r(1) t'(6) by (simp add: n_def)
qed

text \<open>Reinserting the live entries of an old table into a fresh one.\<close>

lemma reinsert_correct:
  assumes old: "slots_ok hs eq ok old" and c: "card (live_set old) < c"
  shows "distinct is \<Longrightarrow> set is \<subseteq> {..<capacity old} \<Longrightarrow> D \<subseteq> live_set old \<Longrightarrow> D \<inter> set is = {} \<Longrightarrow>
    slots_ok hs eq ok t \<Longrightarrow> quad t ` live_set t = quad old ` D \<Longrightarrow> card (live_set t) = card D \<Longrightarrow>
    deleted_set t = {} \<Longrightarrow> capacity t = c \<Longrightarrow> insert_seq t = insert_seq old \<Longrightarrow> n = card D \<Longrightarrow>
    \<exists>t' D'. reinsert hs old is (t, n) = Some (t', card D') \<and> D' = D \<union> {i \<in> set is. live_ctrl (ctrl old ! i)} \<and>
      slots_ok hs eq ok t' \<and> quad t' ` live_set t' = quad old ` D' \<and> card (live_set t') = card D' \<and>
      deleted_set t' = {} \<and> capacity t' = c \<and> insert_seq t' = insert_seq old"
proof (induction "is" arbitrary: t n D)
  case Nil
  then show ?case by simp
next
  case (Cons i "is")
  show ?case
  proof (cases "live_ctrl (ctrl old ! i)")
    case False
    then have "{j \<in> set (i # is). live_ctrl (ctrl old ! j)} = {j \<in> set is. live_ctrl (ctrl old ! j)}" by auto
    then show ?thesis using Cons.IH [of D t n] Cons.prems False by simp
  next
    case True
    then have i: "i \<in> live_set old" using Cons.prems(2) by (simp add: live_set_def)
    have iD: "i \<notin> D" using Cons.prems(4) by simp
    have fin: "finite D" by (rule finite_subset [OF Cons.prems(3)]) simp
    have "card D < card (live_set old)"
      by (rule psubset_card_mono) (use i iD Cons.prems(3) in auto)
    then have room: "card (live_set t) < capacity t" using c Cons.prems(7,9) by simp
    have origin: "\<exists>d\<in>D. quad t j = quad old d" if "j \<in> live_set t" for j
      using Cons.prems(6) that by (metis imageE imageI)
    have new: "\<not> eq (e_key (entries t ! j)) (e_key (entries old ! i))" if "j \<in> live_set t" for j
    proof -
      from origin [OF that] obtain d where "d \<in> D" "quad t j = quad old d" by blast
      moreover from this have "d \<in> live_set old" "d \<noteq> i" using Cons.prems(3) iD by blast+
      ultimately show ?thesis using slots_okD(6) [OF old _ i] by (auto simp: quad_def)
    qed
    have "e_seq (entries t ! j) \<noteq> e_seq (entries old ! i)" if "j \<in> live_set t" for j
      using origin [OF that] inj_onD [OF slots_okD(7) [OF old] _ _ i] iD Cons.prems(3) by (auto simp: quad_def)
    then have sq: "m < insert_seq t \<and> (\<forall>j\<in>live_set t. e_seq (entries t ! j) \<noteq> m)"
      if "Some (e_seq (entries old ! i)) = Some m" for m
      using that slots_okD(4) [OF old i] Cons.prems(10) by simp
    obtain t1 where t1: "insert_entry hs (e_key (entries old ! i)) (e_value (entries old ! i)) (attrs old ! i)
          (Some (e_seq (entries old ! i))) t = Some t1" "slots_ok hs eq ok t1"
        "grown_by (quad old i) t t1" "insert_seq t1 = insert_seq t"
      by (rule insert_entry_correct [OF Cons.prems(5) slots_okD(3) [OF old i] room new sq,
            of "Some (e_seq (entries old ! i))" "e_value (entries old ! i)" "attrs old ! i"])
        (simp_all add: quad_def)
    have st: "reinsert hs old (i # is) (t, n) = reinsert hs old is (t1, n + 1)"
      using True t1(1) by simp
    have "D \<union> {j \<in> set (i # is). live_ctrl (ctrl old ! j)} = insert i D \<union> {j \<in> set is. live_ctrl (ctrl old ! j)}"
      using True by auto
    then show ?thesis
      unfolding st using Cons.IH [of "insert i D" t1 "n + 1"] Cons.prems i iD t1 grown_set [OF t1(3)] fin
      by simp
  qed
qed


lemma rehash_correct:
  assumes t: "slots_ok hs eq ok t" and n: "3 \<le> n" "n \<le> 28" "c = 2 ^ n" and c: "card (live_set t) < c - c div 8"
  obtains t' where "rehash hs u c t = Some t'" "table_ok hs eq ok t'" "contents t' = contents t"
    "insert_seq t' = insert_seq t" "ht_size t' = card (live_set t)" "tombstones t' = 0" "capacity t' = c"
proof -
  define t0 where "t0 = t\<lparr>capacity := c, grow_thresh := c - c div 8, ctrl := replicate c 0,
    attrs := replicate c 0, entries := replicate c (zero_entry u)\<rparr>"
  have lv0: "live_set t0 = {}" "deleted_set t0 = {}" by (simp_all add: t0_def live_set_def deleted_set_def)
  have "shape_ok t0" using n by (auto simp: shape_ok_def t0_def)
  then have s0: "slots_ok hs eq ok t0" by (rule slots_okI) (simp_all add: lv0)
  have c': "card (live_set t) < c" using c by simp
  have "{} \<union> {i \<in> set [0..<capacity t]. live_ctrl (ctrl t ! i)} = live_set t" by (auto simp: live_set_def)
  moreover have "capacity t0 = c" "insert_seq t0 = insert_seq t" by (simp_all add: t0_def)
  ultimately have "\<exists>t1. reinsert hs t [0..<capacity t] (t0, 0) = Some (t1, card (live_set t)) \<and>
      slots_ok hs eq ok t1 \<and> quad t1 ` live_set t1 = quad t ` live_set t \<and> card (live_set t1) = card (live_set t) \<and>
      deleted_set t1 = {} \<and> capacity t1 = c \<and> insert_seq t1 = insert_seq t"
    using reinsert_correct [OF t c', of "[0..<capacity t]" "{}" t0 0] s0 by (simp add: lv0 atLeast0LessThan)
  then obtain t1 where t1: "reinsert hs t [0..<capacity t] (t0, 0) = Some (t1, card (live_set t))"
    "slots_ok hs eq ok t1" "quad t1 ` live_set t1 = quad t ` live_set t" "card (live_set t1) = card (live_set t)"
    "deleted_set t1 = {}" "capacity t1 = c" "insert_seq t1 = insert_seq t"
    by blast
  define t' where "t' = t1\<lparr>ht_size := card (live_set t), tombstones := 0\<rparr>"
  have lv: "live_set t' = live_set t1" "deleted_set t' = deleted_set t1" "quad t' = quad t1"
    by (simp_all add: t'_def live_set_def deleted_set_def quad_def fun_eq_iff)
  have s': "slots_ok hs eq ok t'"
    using t1(2) unfolding slots_ok_def lv shape_ok_def found_by_probing_def slot_at_def h1_from_hash_def
    by (simp add: t'_def)
  have gt: "grow_thresh t' = c - c div 8" using shape_cap(7) [OF slots_okD(1) [OF t1(2)]] t1(6) by (simp add: t'_def)
  show ?thesis
  proof (rule that)
    show "rehash hs u c t = Some t'" using t1(1) by (simp add: rehash_def t0_def t'_def)
    show "table_ok hs eq ok t'"
      using s' c t1(4,5) unfolding table_ok_def lv gt by (simp add: t'_def)
    show "contents t' = contents t"
      by (rule ordered_unique)
        (use slots_okD(7) [OF s'] slots_okD(7) [OF t] in
          \<open>simp_all add: lv t1(3) contents_sorted contents_distinct\<close>)
  qed (simp_all add: t'_def t1)
qed

text \<open>Making room never fails below 2^27 entries, and leaves room for one entry.\<close>

lemma make_room_correct:
  assumes t: "table_ok hs eq ok t" and n: "ht_size t \<le> 2 ^ 27"
  obtains t' where "make_room hs u t = Some t'" "table_ok hs eq ok t'" "contents t' = contents t"
    "insert_seq t' = insert_seq t" "ht_size t' = ht_size t" "ht_size t' + tombstones t' < grow_thresh t'"
proof (cases "ht_size t + tombstones t \<ge> grow_thresh t")
  case False
  then show ?thesis using that [of t] t by (simp add: make_room_def)
next
  case True
  have s: "slots_ok hs eq ok t" and sz: "ht_size t = card (live_set t)" and le: "ht_size t + tombstones t \<le> grow_thresh t"
    using t by (simp_all add: table_ok_def)
  note sh = slots_okD(1) [OF s]
  obtain k where k: "3 \<le> k" "k \<le> 28" "capacity t = 2 ^ k" by (rule shape_okE [OF sh])
  have cap: "8 \<le> capacity t" "8 dvd capacity t" by (rule shape_cap [OF sh])+
  define c where "c = new_capacity t"
  have "\<exists>m. 3 \<le> m \<and> m \<le> 28 \<and> c = 2 ^ m \<and> card (live_set t) < c - c div 8"
  proof (cases "ht_size t > capacity t div 2")
    case False
    then have "c = 2 ^ k" "card (live_set t) < c - c div 8"
      using k cap by (auto simp: c_def new_capacity_def sz)
    then show ?thesis using k by blast
  next
    case big: True
    have "capacity t < 2 ^ 28" using big n by auto
    then have k27: "k \<le> 27" using k(3) power_less_imp_less_exp [of "2 :: nat" k 28] by simp
    have less: "card (live_set t) < 2 * capacity t - 2 * capacity t div 8"
      "card (live_set t) < 4 * capacity t - 4 * capacity t div 8"
      using le sz cap shape_cap(7) [OF sh] by auto
    show ?thesis
    proof (cases "capacity t < 256")
      case True
      then have "(2 :: nat) ^ k < 2 ^ 8" using k(3) by simp
      then have "k < 8" by (rule power_less_imp_less_exp [rotated]) simp
      moreover have "c = 2 ^ (k + 2)" using big True k(3) by (simp add: c_def new_capacity_def)
      ultimately show ?thesis using less(2) k by (intro exI [of _ "k + 2"]) simp
    next
      case False
      then have "c = 2 ^ (k + 1)" using big k(3) by (simp add: c_def new_capacity_def)
      then show ?thesis using less(1) k k27 by (intro exI [of _ "k + 1"]) simp
    qed
  qed
  then obtain m where m: "3 \<le> m" "m \<le> 28" "c = 2 ^ m" "card (live_set t) < c - c div 8" by blast
  obtain t' where t': "rehash hs u c t = Some t'" "table_ok hs eq ok t'" "contents t' = contents t"
    "insert_seq t' = insert_seq t" "ht_size t' = card (live_set t)" "tombstones t' = 0" "capacity t' = c"
    by (rule rehash_correct [OF s m])
  have "grow_thresh t' = c - c div 8"
    using t'(2) shape_cap(7) [OF slots_okD(1), of hs eq ok t'] by (simp add: table_ok_def t'(7))
  then show ?thesis using that [of t'] t' True sz m(4) by (simp add: make_room_def c_def)
qed

end

end
