(* ===== verification/HashTableCorrect.thy ===== *)
theory HashTableCorrect
  imports HashTableRefine
begin

text \<open>
  The operations of the hash table against their specification on insertion-ordered lists, and
  the properties of the table for the keys of the runtime.
\<close>

unbundle bit_operations_syntax


lemma od_put_fst: "map fst (map (\<lambda>(s, k, v, a). if eq k key then (s, key, val, upd a) else (s, k, v, a)) xs) = map fst xs"
  by (induction xs) auto

lemma table_okD:
  assumes "table_ok hs eq ok t"
  shows "slots_ok hs eq ok t" "ht_size t = card (live_set t)" "tombstones t = card (deleted_set t)"
    "ht_size t + tombstones t \<le> grow_thresh t"
  using assms by (simp_all add: table_ok_def)

context hash_keys
begin

lemma contents_ordered:
  assumes "slots_ok hs eq ok t"
  shows "sorted (map fst (contents t))" "distinct (map fst (contents t))"
    "\<And>q. q \<in> set (contents t) \<Longrightarrow> fst q < insert_seq t"
  using contents_sorted [of t] contents_distinct [OF slots_okD(7) [OF assms]] slots_okD(4) [OF assms] by auto

text \<open>The slot that a search finds is the only one with an equal key.\<close>

lemma find_slot_unique:
  assumes s: "slots_ok hs eq ok t" and k: "ok key" and f: "find_slot hs eq t key = Some i" and j: "j \<in> live_set t"
  shows "eq (e_key (entries t ! j)) key \<longleftrightarrow> j = i"
proof
  note i = find_slot_some [OF s f]
  note oi = slots_okD(3) [OF s i(1)] and oj = slots_okD(3) [OF s j]
  assume "eq (e_key (entries t ! j)) key"
  then have "eq (e_key (entries t ! j)) (e_key (entries t ! i))" by (rule eq_trans [OF oj k oi _ eq_sym [OF oi k i(2)]])
  then show "j = i" by (rule slots_okD(6) [OF s j i(1)])
qed (use find_slot_some(2) [OF s f] in simp)

lemma has_correct:
  assumes "slots_ok hs eq ok t" "ok key"
  shows "od_has eq key (contents t) \<longleftrightarrow> find_slot hs eq t key \<noteq> None"
proof
  assume "od_has eq key (contents t)"
  then obtain j where "j \<in> live_set t" "eq (e_key (entries t ! j)) key" by (auto simp: od_has_def quad_def)
  then show "find_slot hs eq t key \<noteq> None" using find_slot_none [OF assms] by blast
next
  assume "find_slot hs eq t key \<noteq> None"
  then obtain i where "find_slot hs eq t key = Some i" by blast
  from find_slot_some [OF assms(1) this] show "od_has eq key (contents t)"
    by (auto simp: od_has_def quad_def intro!: bexI [of _ i])
qed

lemma find_correct:
  assumes s: "slots_ok hs eq ok t" and k: "ok key"
  shows "od_find eq key (contents t) = map_option (\<lambda>i. (e_value (entries t ! i), attrs t ! i)) (find_slot hs eq t key)"
proof (cases "find_slot hs eq t key")
  case None
  then have "find (\<lambda>(s, k, v, a). eq k key) (contents t) = None"
    using find_slot_none [OF s k None] by (auto simp: find_None_iff quad_def)
  then show ?thesis using None by (simp add: od_find_def)
next
  case (Some i)
  have "\<exists>q. find (\<lambda>(s, k, v, a). eq k key) (contents t) = Some q"
  proof (rule ccontr)
    assume "\<not> ?thesis"
    then have "find (\<lambda>(s, k, v, a). eq k key) (contents t) = None" by (simp only: not_ex not_Some_eq)
    then show False using find_slot_some [OF s Some] by (auto simp: find_None_iff quad_def)
  qed
  then obtain q where q: "find (\<lambda>(s, k, v, a). eq k key) (contents t) = Some q" by blast
  from find_Some_iff [THEN iffD1, OF this] obtain n where
    "n < length (contents t)" "(\<lambda>(s, k, v, a). eq k key) (contents t ! n)" "q = contents t ! n" by metis
  then have "q \<in> set (contents t)" "(\<lambda>(s, k, v, a). eq k key) q" by (simp_all del: set_contents)
  then obtain j where "j \<in> live_set t" "q = quad t j" "eq (e_key (entries t ! j)) key" by (auto simp: quad_def)
  then have "q = quad t i" using find_slot_unique [OF s k Some] by blast
  then show ?thesis using Some q by (simp add: od_find_def quad_def)
qed

text \<open>The update of the slot that was found, which leaves the numbers as they are.\<close>

lemma update_correct:
  assumes t: "table_ok hs eq ok t" and k: "ok key" and f: "find_slot hs eq t key = Some i"
    and t': "ctrl t' = ctrl t" "entries t' = (entries t)[i := (entries t ! i)\<lparr>e_key := key, e_value := val\<rparr>]"
      "attrs t' = (attrs t)[i := upd (attrs t ! i)]" "capacity t' = capacity t" "grow_thresh t' = grow_thresh t"
      "insert_seq t' = insert_seq t" "ht_size t' = ht_size t" "tombstones t' = tombstones t"
  shows "table_ok hs eq ok t'" "contents t' = od_put eq (insert_seq t) key val upd d (contents t)"
proof -
  note s = table_okD(1) [OF t] and i = find_slot_some [OF table_okD(1) [OF t] f]
  note sh = slots_okD(1) [OF s]
  have il: "i < length (entries t)" "i < length (attrs t)"
    using live_setD(1) [OF i(1)] shape_cap(5,6) [OF sh] by simp_all
  have r: "slots_ok hs eq ok t'" "live_set t' = live_set t" "deleted_set t' = deleted_set t"
    using slots_ok_replace [OF s i(1), of "(entries t ! i)\<lparr>e_key := key, e_value := val\<rparr>" t'] k i t' by simp_all
  then show "table_ok hs eq ok t'" using t t' by (simp add: table_ok_def)
  let ?f = "\<lambda>(s, k, v, a). if eq k key then (s, key, val, upd a) else (s, k, v, a)"
  have q: "quad t' j = ?f (quad t j)" if j: "j \<in> live_set t" for j
    using find_slot_unique [OF s k f j] il by (simp add: quad_def t'(2,3) nth_list_update)
  have "contents t' = map ?f (contents t)"
  proof (rule ordered_unique)
    show "set (contents t') = set (map ?f (contents t))"
      unfolding set_map set_contents r(2) image_image by (rule image_cong [OF refl q])
  qed (simp_all only: contents_ordered [OF r(1)] contents_ordered [OF s] od_put_fst)
  moreover have "od_has eq key (contents t)" using has_correct [OF s k] f by simp
  ultimately show "contents t' = od_put eq (insert_seq t) key val upd d (contents t)" by (simp add: od_put_def)
qed

text \<open>The branch of a new key: making room, inserting and counting.\<close>

lemma append_correct:
  assumes t: "table_ok hs eq ok t" and k: "ok key" and f: "find_slot hs eq t key = None" and n: "ht_size t \<le> 2 ^ 27"
  obtains t' where
    "(case make_room hs u t of None \<Rightarrow> None
      | Some t1 \<Rightarrow> map_option (\<lambda>t2. t2\<lparr>ht_size := ht_size t2 + 1\<rparr>) (insert_entry hs key val attr None t1)) = Some t'"
    "table_ok hs eq ok t'" "contents t' = od_put eq (insert_seq t) key val upd attr (contents t)"
    "insert_seq t' = insert_seq t + 1"
proof -
  obtain t1 where t1: "make_room hs u t = Some t1" "table_ok hs eq ok t1" "contents t1 = contents t"
    "insert_seq t1 = insert_seq t" "ht_size t1 = ht_size t" "ht_size t1 + tombstones t1 < grow_thresh t1"
    by (rule make_room_correct [OF t n])
  note s1 = table_okD(1) [OF t1(2)]
  have no: "\<not> od_has eq key (contents t)" using has_correct [OF table_okD(1) [OF t] k] f by simp
  then have new: "\<not> eq (e_key (entries t1 ! j)) key" if "j \<in> live_set t1" for j
    using that unfolding t1(3) [symmetric] by (auto simp: od_has_def quad_def)
  have room: "card (live_set t1) < capacity t1"
    using t1(6) table_okD(2) [OF t1(2)] shape_cap(7) [OF slots_okD(1) [OF s1]] by simp
  obtain t2 where t2: "insert_entry hs key val attr None t1 = Some t2" "slots_ok hs eq ok t2"
    "grown_by (insert_seq t1, key, val, attr) t1 t2" "insert_seq t2 = insert_seq t1 + 1"
    by (rule insert_entry_correct [OF s1 k room new, of None val attr]) simp_all
  define t' where "t' = t2\<lparr>ht_size := ht_size t2 + 1\<rparr>"
  have lv: "live_set t' = live_set t2" "deleted_set t' = deleted_set t2" "quad t' = quad t2"
    by (simp_all add: t'_def live_set_def deleted_set_def quad_def fun_eq_iff)
  have s': "slots_ok hs eq ok t'"
    using t2(2) unfolding slots_ok_def lv shape_ok_def found_by_probing_def slot_at_def h1_from_hash_def
    by (simp add: t'_def)
  note g = grown_set [OF t2(3)] and tomb = grown_tombstones [OF t2(3) table_okD(3) [OF t1(2)]]
  show ?thesis
  proof (rule that)
    show "(case make_room hs u t of None \<Rightarrow> None
      | Some t1 \<Rightarrow> map_option (\<lambda>t2. t2\<lparr>ht_size := ht_size t2 + 1\<rparr>) (insert_entry hs key val attr None t1)) = Some t'"
      by (simp add: t1(1) t2(1) t'_def)
    show "table_ok hs eq ok t'"
      unfolding table_ok_def lv using s' g(2,4,5) tomb t1(6) table_okD(2) [OF t1(2)] by (simp add: t'_def)
    have "contents t' = contents t @ [(insert_seq t, key, val, attr)]"
    proof (rule ordered_unique)
      show "set (contents t') = set (contents t @ [(insert_seq t, key, val, attr)])"
        using g(1) by (simp add: lv t1(4) flip: t1(3))
      have "\<And>q. q \<in> set (contents t) \<Longrightarrow> fst q < insert_seq t"
        by (rule contents_ordered(3) [OF table_okD(1) [OF t]])
      then show "sorted (map fst (contents t @ [(insert_seq t, key, val, attr)]))"
        "distinct (map fst (contents t @ [(insert_seq t, key, val, attr)]))"
        using contents_ordered(1,2) [OF table_okD(1) [OF t]] by (fastforce simp: sorted_append simp del: set_contents)+
    qed (rule contents_ordered [OF s'])+
    then show "contents t' = od_put eq (insert_seq t) key val upd attr (contents t)" using no by (simp add: od_put_def)
    show "insert_seq t' = insert_seq t + 1" using t2(4) t1(4) by (simp add: t'_def)
  qed
qed

end

section \<open>Every operation refines its specification\<close>

lemma grow_to_step: "cap < wanted \<Longrightarrow> 0 < cap \<Longrightarrow> grow_to cap wanted = grow_to (2 * cap) wanted"
  by (subst grow_to.simps) (simp add: push_bit_eq_mult mult.commute)

lemma grow_to_stop: "wanted \<le> cap \<Longrightarrow> grow_to cap wanted = cap"
  by (subst grow_to.simps) simp

lemma grow_to_pow2:
  assumes "wanted \<le> 2 ^ 28" "k \<le> 28"
  obtains m where "k \<le> m" "m \<le> 28" "grow_to (2 ^ k) wanted = 2 ^ m" "wanted \<le> 2 ^ m"
proof -
  have "\<exists>m. k \<le> m \<and> m \<le> 28 \<and> grow_to (2 ^ k) wanted = 2 ^ m \<and> wanted \<le> 2 ^ m"
    using assms(2)
  proof (induction "28 - k" arbitrary: k)
    case 0
    then have "k = 28" by simp
    then show ?case using assms(1) by (auto simp: grow_to_stop)
  next
    case (Suc n)
    show ?case
    proof (cases "(2 :: nat) ^ k < wanted")
      case True
      have "n = 28 - Suc k" "Suc k \<le> 28" using Suc.hyps(2) by simp_all
      from Suc.hyps(1) [OF this] show ?thesis using True by (auto simp: grow_to_step)
    next
      case False
      then show ?thesis using Suc.prems by (auto simp: grow_to_stop intro!: exI [of _ k])
    qed
  qed
  then show ?thesis using that by blast
qed

definition od_attrs :: "('a \<Rightarrow> 'a \<Rightarrow> bool) \<Rightarrow> 'a \<Rightarrow> u8 \<Rightarrow> (nat \<times> 'a \<times> 'a \<times> u8) list \<Rightarrow> (nat \<times> 'a \<times> 'a \<times> u8) list" where
  "od_attrs eq key attr xs = map (\<lambda>(s, k, v, a). if eq k key then (s, k, v, attr) else (s, k, v, a)) xs"

lemma od_attrs_fst [simp]: "map fst (od_attrs eq key attr xs) = map fst xs"
  by (induction xs) (auto simp: od_attrs_def)

lemma set_od_delete: "set (od_delete eq key xs) = {q \<in> set xs. \<not> eq (fst (snd q)) key}"
  by (auto simp: od_delete_def)

context hash_keys
begin

lemma set_correct:
  assumes t: "table_ok hs eq ok t" and k: "ok key" and n: "ht_size t \<le> 2 ^ 27"
  obtains t' where "ht_Set hs eq u key val t = Some t'" "table_ok hs eq ok t'"
    "contents t' = od_put eq (insert_seq t) key val id ATTR_DEFAULT (contents t)"
    "insert_seq t' = (if od_has eq key (contents t) then insert_seq t else insert_seq t + 1)"
proof (cases "find_slot hs eq t key")
  case None
  have "\<not> od_has eq key (contents t)" using has_correct [OF table_okD(1) [OF t] k] None by simp
  then show ?thesis
    using append_correct [OF t k None n, where u = u and val = val and attr = ATTR_DEFAULT and upd = id] that by (auto simp: ht_Set_def None)
next
  case (Some i)
  have "od_has eq key (contents t)" using has_correct [OF table_okD(1) [OF t] k] Some by simp
  moreover have "attrs (store_entry i key val t) = (attrs t)[i := id (attrs t ! i)]"
    by (simp add: store_entry_def)
  ultimately show ?thesis
    using update_correct [OF t k Some, where t' = "store_entry i key val t" and val = val and upd = id] that [of "store_entry i key val t"]
    by (simp add: ht_Set_def Some store_entry_def)
qed

lemma set_with_attrs_correct:
  assumes t: "table_ok hs eq ok t" and k: "ok key" and n: "ht_size t \<le> 2 ^ 27"
  obtains t' where "SetWithAttrs hs eq u key val attr t = Some t'" "table_ok hs eq ok t'"
    "contents t' = od_put eq (insert_seq t) key val (\<lambda>_. attr) attr (contents t)"
    "insert_seq t' = (if od_has eq key (contents t) then insert_seq t else insert_seq t + 1)"
proof (cases "find_slot hs eq t key")
  case None
  have "\<not> od_has eq key (contents t)" using has_correct [OF table_okD(1) [OF t] k] None by simp
  then show ?thesis
    using append_correct [OF t k None n, where u = u and val = val and attr = attr and upd = "\<lambda>_. attr"] that by (auto simp: SetWithAttrs_def None)
next
  case (Some i)
  have "od_has eq key (contents t)" using has_correct [OF table_okD(1) [OF t] k] Some by simp
  define t' where "t' = (store_entry i key val t)\<lparr>attrs := (attrs (store_entry i key val t))[i := attr]\<rparr>"
  have "table_ok hs eq ok t'" "contents t' = od_put eq (insert_seq t) key val (\<lambda>_. attr) attr (contents t)"
    by (rule update_correct [OF t k Some, where t' = t' and val = val and upd = "\<lambda>_. attr"]; simp add: t'_def store_entry_def)+
  then show ?thesis
    using that [of t'] \<open>od_has eq key (contents t)\<close>
    by (simp add: SetWithAttrs_def Some Let_def t'_def store_entry_def)
qed

lemma size_correct: "table_ok hs eq ok t \<Longrightarrow> ht_size t = length (contents t)"
  by (simp add: table_ok_def length_contents)

lemma get_correct:
  assumes "table_ok hs eq ok t" "ok key"
  shows "ht_Get hs eq u t key = (case od_find eq key (contents t) of None \<Rightarrow> u | Some (v, a) \<Rightarrow> v)"
    "GetAttrs hs eq t key = (case od_find eq key (contents t) of None \<Rightarrow> 0 | Some (v, a) \<Rightarrow> a)"
    "ht_Has hs eq t key = od_has eq key (contents t)"
  using find_correct [OF table_okD(1) [OF assms(1)] assms(2)] has_correct [OF table_okD(1) [OF assms(1)] assms(2)]
  by (simp_all add: ht_Get_def GetAttrs_def ht_Has_def split: option.split)

lemma set_attrs_correct:
  assumes t: "table_ok hs eq ok t" and k: "ok key"
  shows "table_ok hs eq ok (SetAttrs hs eq key attr t)" "contents (SetAttrs hs eq key attr t) = od_attrs eq key attr (contents t)"
    "insert_seq (SetAttrs hs eq key attr t) = insert_seq t"
proof -
  note s = table_okD(1) [OF t]
  let ?t = "SetAttrs hs eq key attr t"
  have lv: "live_set ?t = live_set t" "deleted_set ?t = deleted_set t"
    by (simp_all add: SetAttrs_def live_set_def deleted_set_def split: option.split)
  have s': "slots_ok hs eq ok ?t"
    using s unfolding slots_ok_def lv shape_ok_def found_by_probing_def slot_at_def h1_from_hash_def
    by (simp add: SetAttrs_def split: option.split)
  then show "table_ok hs eq ok ?t" using t unfolding table_ok_def lv by (simp add: SetAttrs_def split: option.split)
  show "insert_seq ?t = insert_seq t" by (simp add: SetAttrs_def split: option.split)
  have q: "quad ?t j = (case quad t j of (s, k, v, a) \<Rightarrow> if eq k key then (s, k, v, attr) else (s, k, v, a))"
    if j: "j \<in> live_set t" for j
  proof (cases "find_slot hs eq t key")
    case None
    then show ?thesis using find_slot_none [OF s k None j] by (simp add: quad_def SetAttrs_def)
  next
    case (Some i)
    then show ?thesis
      using find_slot_unique [OF s k Some j] live_setD(1) [OF j] shape_cap(5) [OF slots_okD(1) [OF s]]
      by (auto simp: quad_def SetAttrs_def nth_list_update)
  qed
  show "contents ?t = od_attrs eq key attr (contents t)"
  proof (rule ordered_unique)
    show "set (contents ?t) = set (od_attrs eq key attr (contents t))"
      unfolding od_attrs_def set_map set_contents lv image_image by (rule image_cong [OF refl q])
  qed (simp_all only: contents_ordered [OF s'] contents_ordered [OF s] od_attrs_fst)
qed

lemma delete_correct:
  assumes t: "table_ok hs eq ok t" and k: "ok key"
  obtains t' where "ht_Delete hs eq u key t = (od_has eq key (contents t), t')" "table_ok hs eq ok t'"
    "contents t' = od_delete eq key (contents t)" "insert_seq t' = insert_seq t"
proof (cases "find_slot hs eq t key")
  case None
  have no: "\<not> od_has eq key (contents t)" using has_correct [OF table_okD(1) [OF t] k] None by simp
  then have "od_delete eq key (contents t) = contents t" by (auto simp: od_delete_def od_has_def filter_id_conv)
  then show ?thesis using that [of t] t no by (simp add: ht_Delete_def None)
next
  case (Some i)
  note s = table_okD(1) [OF t] and i = find_slot_some [OF table_okD(1) [OF t] Some]
  define t' where "t' = t\<lparr>ctrl := (ctrl t)[i := CTRL_DELETED], attrs := (attrs t)[i := 0],
      entries := (entries t)[i := (entries t ! i)\<lparr>e_key := u, e_value := u\<rparr>],
      ht_size := ht_size t - 1, tombstones := tombstones t + 1\<rparr>"
  have r: "slots_ok hs eq ok t'" "live_set t' = live_set t - {i}" "deleted_set t' = insert i (deleted_set t)"
    "i \<notin> deleted_set t"
    by (rule slots_ok_remove [OF s i(1), of t']; simp add: t'_def)+
  have "0 < card (live_set t)" using i(1) by (auto simp: card_gt_0_iff)
  then have "table_ok hs eq ok t'"
    using r t i(1) unfolding table_ok_def by (simp add: t'_def card_Diff_singleton)
  moreover have "contents t' = od_delete eq key (contents t)"
  proof (rule ordered_unique)
    have q: "quad t' j = quad t j" if "j \<noteq> i" for j using that by (simp add: quad_def t'_def)
    have "quad t' ` live_set t' = quad t ` (live_set t - {i})" unfolding r(2) by (rule image_cong) (simp_all add: q)
    also have "\<dots> = {q \<in> quad t ` live_set t. \<not> eq (fst (snd q)) key}"
    proof -
      have "live_set t - {i} = {j \<in> live_set t. \<not> eq (fst (snd (quad t j))) key}"
        using find_slot_unique [OF s k Some] by (auto simp: quad_def)
      then show ?thesis by (simp only:) blast
    qed
    finally show "set (contents t') = set (od_delete eq key (contents t))"
      by (simp only: set_od_delete set_contents)
  qed (use contents_ordered [OF s] contents_ordered [OF r(1)] in
      \<open>simp_all add: od_delete_def sorted_filter distinct_map_filter del: set_contents\<close>)
  moreover have "ht_Delete hs eq u key t = (od_has eq key (contents t), t')"
    using has_correct [OF s k] by (simp add: ht_Delete_def Some t'_def)
  ultimately show ?thesis using that by (simp add: t'_def)
qed

lemma clear_correct:
  assumes t: "table_ok hs eq ok t"
  shows "table_ok hs eq ok (ht_Clear u t)" "contents (ht_Clear u t) = []" "insert_seq (ht_Clear u t) = insert_seq t"
proof -
  let ?t = "ht_Clear u t"
  have lv: "live_set ?t = {}" "deleted_set ?t = {}" by (simp_all add: ht_Clear_def live_set_def deleted_set_def)
  have "shape_ok ?t" using slots_okD(1) [OF table_okD(1) [OF t]] by (simp add: shape_ok_def ht_Clear_def)
  then have "slots_ok hs eq ok ?t" by (rule slots_okI) (simp_all add: lv)
  then show "table_ok hs eq ok ?t" unfolding table_ok_def lv by (simp add: ht_Clear_def)
  have "set (contents ?t) = {}" unfolding set_contents lv by simp
  then show "contents ?t = []" by (simp only: set_empty)
  show "insert_seq (ht_Clear u t) = insert_seq t" by (simp add: ht_Clear_def)
qed

lemma create_correct:
  assumes "n \<le> 2 ^ 28"
  shows "table_ok hs eq ok (Create u n)" "contents (Create u n) = []" "insert_seq (Create u n) = 0"
proof -
  let ?t = "Create u n"
  obtain m where m: "3 \<le> m" "m \<le> 28" "grow_to (2 ^ 3) n = 2 ^ m" by (rule grow_to_pow2 [OF assms, of 3]) auto
  have lv: "live_set ?t = {}" "deleted_set ?t = {}"
    by (simp_all add: Create_def Let_def live_set_def deleted_set_def)
  have "shape_ok ?t" using m by (auto simp: shape_ok_def Create_def Let_def)
  then have "slots_ok hs eq ok ?t" by (rule slots_okI) (simp_all add: lv)
  then show "table_ok hs eq ok ?t" unfolding table_ok_def lv by (simp add: Create_def Let_def)
  have "set (contents ?t) = {}" unfolding set_contents lv by simp
  then show "contents ?t = []" by (simp only: set_empty)
  show "insert_seq ?t = 0" by (simp add: Create_def Let_def)
qed

lemma resize_correct:
  assumes t: "table_ok hs eq ok t" and n: "n \<le> 2 ^ 28"
  obtains t' where "Resize hs u n t = Some t'" "table_ok hs eq ok t'" "contents t' = contents t"
    "insert_seq t' = insert_seq t"
proof (cases "n \<le> capacity t")
  case True
  then show ?thesis using that t by (simp add: Resize_def)
next
  case False
  note s = table_okD(1) [OF t]
  note sh = slots_okD(1) [OF s]
  obtain k where k: "3 \<le> k" "k \<le> 28" "capacity t = 2 ^ k" by (rule shape_okE [OF sh])
  obtain m where m: "k \<le> m" "m \<le> 28" "grow_to (2 ^ k) n = 2 ^ m" "n \<le> 2 ^ m"
    by (rule grow_to_pow2 [OF n k(2)])
  have "(8 :: nat) dvd 2 ^ m" using le_imp_power_dvd [of 3 m "2 :: nat"] m k by simp
  moreover have "capacity t < 2 ^ m" using False m(4) by simp
  ultimately have room: "card (live_set t) < 2 ^ m - 2 ^ m div 8"
    using table_okD(2,4) [OF t] shape_cap(3,7) [OF sh] by auto
  show ?thesis
    using rehash_correct [OF s _ m(2) refl room, of u] k m that False by (auto simp: Resize_def)
qed

end

section \<open>Iteration\<close>

lemma ForEach_contents: "ForEach t = map (\<lambda>(s, k, v, a). (k, v)) (contents t)"
  by (simp add: ForEach_def contents_def quad_def)

lemma ForEachEnumerable_contents:
  "ForEachEnumerable t = map (\<lambda>(s, k, v, a). (k, v)) (filter (\<lambda>(s, k, v, a). a AND ATTR_ENUMERABLE \<noteq> 0) (contents t))"
  by (simp add: ForEachEnumerable_def contents_def filter_map comp_def quad_def)

text \<open>The scan of \<open>NextLiveBySeq\<close> keeps the slot with the least admissible number so far.\<close>

definition admissible :: "bool \<Rightarrow> nat \<Rightarrow> nat \<Rightarrow> nat \<Rightarrow> bool" where
  "admissible fst_call afterSeq seqLimit s \<longleftrightarrow> s < seqLimit \<and> (fst_call \<or> afterSeq < s)"

definition least_of :: "'a TsHashTable \<Rightarrow> (nat \<Rightarrow> bool) \<Rightarrow> nat set \<Rightarrow> nat option \<Rightarrow> bool" where
  "least_of t P C best \<longleftrightarrow>
     (case best of None \<Rightarrow> \<forall>i\<in>C. \<not> P (e_seq (entries t ! i))
      | Some j \<Rightarrow> j \<in> C \<and> P (e_seq (entries t ! j)) \<and>
          (\<forall>i\<in>C. P (e_seq (entries t ! i)) \<longrightarrow> e_seq (entries t ! j) \<le> e_seq (entries t ! i)))"

lemma next_step_least:
  assumes "least_of t (admissible f a l) C best"
  shows "least_of t (admissible f a l) (if live_ctrl (ctrl t ! i) then insert i C else C) (next_step t f a l i best)"
  using assms by (cases best) (auto simp: next_step_def least_of_def admissible_def Let_def)

lemma next_scan_least:
  "least_of t (admissible f a l) C best \<Longrightarrow>
   least_of t (admissible f a l) (C \<union> {i \<in> set is. live_ctrl (ctrl t ! i)}) (fold (next_step t f a l) is best)"
proof (induction "is" arbitrary: C best)
  case (Cons i "is")
  have "C \<union> {j \<in> set (i # is). live_ctrl (ctrl t ! j)}
      = (if live_ctrl (ctrl t ! i) then insert i C else C) \<union> {j \<in> set is. live_ctrl (ctrl t ! j)}" by auto
  then show ?case using Cons.IH [OF next_step_least [OF Cons.prems, of i]] by simp
qed simp

lemma next_slot_least: "least_of t (admissible f a l) (live_set t) (fold (next_step t f a l) [0..<capacity t] None)"
proof -
  have "{} \<union> {i \<in> set [0..<capacity t]. live_ctrl (ctrl t ! i)} = live_set t" by (auto simp: live_set_def)
  moreover have "least_of t (admissible f a l) {} None" by (simp add: least_of_def)
  ultimately show ?thesis using next_scan_least by metis
qed

lemma find_sorted_least:
  "sorted (map fst xs) \<Longrightarrow> find P xs = Some q \<Longrightarrow> q \<in> set xs \<and> P q \<and> (\<forall>r\<in>set xs. P r \<longrightarrow> fst q \<le> fst r)"
  by (induction xs) (auto split: if_splits)

lemma find_admissible:
  assumes "inj_on (\<lambda>i. e_seq (entries t ! i)) (live_set t)"
  shows "NextLiveBySeq t f a l =
    map_option (\<lambda>(s, k, v, w). (k, v, s)) (find (\<lambda>(s, k, v, w). admissible f a l s) (contents t))"
proof -
  define best where "best = fold (next_step t f a l) [0..<capacity t] None"
  have b: "least_of t (admissible f a l) (live_set t) best" unfolding best_def by (rule next_slot_least)
  let ?P = "\<lambda>(s, k, v, w). admissible f a l s"
  have P: "?P (quad t i) = admissible f a l (e_seq (entries t ! i))" for i by (simp add: quad_def)
  have "find ?P (contents t) = map_option (quad t) best"
  proof (cases best)
    case None
    have "\<not> (\<exists>q. q \<in> set (contents t) \<and> ?P q)" using b None P by (auto simp: least_of_def)
    then have "find ?P (contents t) = None" unfolding find_None_iff .
    then show ?thesis using None by simp
  next
    case (Some j)
    then have j: "j \<in> live_set t" "admissible f a l (e_seq (entries t ! j))"
      "\<forall>i\<in>live_set t. admissible f a l (e_seq (entries t ! i)) \<longrightarrow> e_seq (entries t ! j) \<le> e_seq (entries t ! i)"
      using b by (simp_all add: least_of_def)
    have "find ?P (contents t) \<noteq> None"
      unfolding find_None_iff using j(1,2) P [of j] by (metis imageI set_contents)
    then obtain q where q: "find ?P (contents t) = Some q" by blast
    from find_sorted_least [OF contents_sorted q]
    have m: "q \<in> quad t ` live_set t" "?P q" "\<forall>r\<in>quad t ` live_set t. ?P r \<longrightarrow> fst q \<le> fst r" by simp_all
    then obtain i where i: "i \<in> live_set t" "q = quad t i" by blast
    have "admissible f a l (e_seq (entries t ! i))" using m(2) unfolding i(2) P .
    moreover have "?P (quad t j)" unfolding P by (rule j(2))
    then have "e_seq (entries t ! i) \<le> e_seq (entries t ! j)" using m(3) j(1) by (force simp: i(2))
    moreover have "e_seq (entries t ! j) \<le> e_seq (entries t ! i)" using j(3) i(1) calculation(1) by blast
    ultimately have "e_seq (entries t ! i) = e_seq (entries t ! j)" using j(3) by (simp add: order_antisym)
    then have "i = j" using inj_onD [OF assms _ i(1) j(1)] by simp
    then show ?thesis using q i(2) Some by simp
  qed
  then show ?thesis by (simp add: NextLiveBySeq_def quad_def option.map_comp comp_def flip: best_def)
qed

section \<open>Runs of operations\<close>

datatype table_op = Put_op TsValue TsValue | Put_attrs_op TsValue TsValue u8 | Attrs_op TsValue u8
  | Delete_op TsValue | Clear_op | Resize_op nat

definition table_step :: "value_heap \<Rightarrow> table_op \<Rightarrow> TsValue TsHashTable \<Rightarrow> TsValue TsHashTable option" where
  "table_step hp op t =
     (case op of
        Put_op key val \<Rightarrow> ht_Set (TsValueHash hp) (TsValueEqual hp) UNDEFINED key val t
      | Put_attrs_op key val attr \<Rightarrow> SetWithAttrs (TsValueHash hp) (TsValueEqual hp) UNDEFINED key val attr t
      | Attrs_op key attr \<Rightarrow> Some (SetAttrs (TsValueHash hp) (TsValueEqual hp) key attr t)
      | Delete_op key \<Rightarrow> Some (snd (ht_Delete (TsValueHash hp) (TsValueEqual hp) UNDEFINED key t))
      | Clear_op \<Rightarrow> Some (ht_Clear UNDEFINED t)
      | Resize_op n \<Rightarrow> Resize (TsValueHash hp) UNDEFINED n t)"

fun table_run :: "value_heap \<Rightarrow> table_op list \<Rightarrow> TsValue TsHashTable \<Rightarrow> TsValue TsHashTable option" where
  "table_run hp [] t = Some t"
| "table_run hp (op # ops) t = (case table_step hp op t of None \<Rightarrow> None | Some t' \<Rightarrow> table_run hp ops t')"

text \<open>The same on a list, with the number of the next insertion.\<close>

definition spec_put ::
  "value_heap \<Rightarrow> TsValue \<Rightarrow> TsValue \<Rightarrow> (u8 \<Rightarrow> u8) \<Rightarrow> u8 \<Rightarrow> nat \<times> (nat \<times> TsValue \<times> TsValue \<times> u8) list \<Rightarrow>
   nat \<times> (nat \<times> TsValue \<times> TsValue \<times> u8) list" where
  "spec_put hp key val upd dflt st =
     (let (n, xs) = st
      in (if od_has (TsValueEqual hp) key xs then n else n + 1, od_put (TsValueEqual hp) n key val upd dflt xs))"

definition spec_step ::
  "value_heap \<Rightarrow> table_op \<Rightarrow> nat \<times> (nat \<times> TsValue \<times> TsValue \<times> u8) list \<Rightarrow> nat \<times> (nat \<times> TsValue \<times> TsValue \<times> u8) list" where
  "spec_step hp op st =
     (case op of
        Put_op key val \<Rightarrow> spec_put hp key val id ATTR_DEFAULT st
      | Put_attrs_op key val attr \<Rightarrow> spec_put hp key val (\<lambda>_. attr) attr st
      | Attrs_op key attr \<Rightarrow> (fst st, od_attrs (TsValueEqual hp) key attr (snd st))
      | Delete_op key \<Rightarrow> (fst st, od_delete (TsValueEqual hp) key (snd st))
      | Clear_op \<Rightarrow> (fst st, [])
      | Resize_op n \<Rightarrow> st)"

definition op_ok :: "table_op \<Rightarrow> bool" where
  "op_ok op \<longleftrightarrow>
     (case op of
        Put_op key val \<Rightarrow> proper_key key
      | Put_attrs_op key val attr \<Rightarrow> proper_key key
      | Attrs_op key attr \<Rightarrow> proper_key key
      | Delete_op key \<Rightarrow> proper_key key
      | Clear_op \<Rightarrow> True
      | Resize_op n \<Rightarrow> n \<le> 2 ^ 28)"

abbreviation tagged_table_ok :: "value_heap \<Rightarrow> TsValue TsHashTable \<Rightarrow> bool" where
  "tagged_table_ok hp \<equiv> table_ok (TsValueHash hp) (TsValueEqual hp) proper_key"

lemma od_put_length: "length (od_put eq sq key val upd dflt xs) \<le> length xs + 1"
  by (simp add: od_put_def)

lemma spec_step_length: "length (snd (spec_step hp op st)) \<le> length (snd st) + 1"
  using od_put_length [of "TsValueEqual hp" "fst st"]
  by (cases op) (simp_all add: spec_step_def spec_put_def Let_def case_prod_beta od_attrs_def od_delete_def le_SucI)

lemma table_step_correct:
  assumes t: "tagged_table_ok hp t" and n: "ht_size t \<le> 2 ^ 27" and ok: "op_ok op"
  obtains t' where "table_step hp op t = Some t'" "tagged_table_ok hp t'"
    "(insert_seq t', contents t') = spec_step hp op (insert_seq t, contents t)"
proof (cases op)
  case (Put_op key val)
  then have k: "proper_key key" using ok by (simp add: op_ok_def)
  show ?thesis
    by (rule tagged.set_correct [OF t k n, of UNDEFINED val])
      (use Put_op in \<open>auto intro!: that simp: table_step_def spec_step_def spec_put_def\<close>)
next
  case (Put_attrs_op key val attr)
  then have k: "proper_key key" using ok by (simp add: op_ok_def)
  show ?thesis
    by (rule tagged.set_with_attrs_correct [OF t k n, of UNDEFINED val attr])
      (use Put_attrs_op in \<open>auto intro!: that simp: table_step_def spec_step_def spec_put_def\<close>)
next
  case (Attrs_op key attr)
  then have k: "proper_key key" using ok by (simp add: op_ok_def)
  show ?thesis
    using tagged.set_attrs_correct [OF t k, of attr] Attrs_op that
    by (simp add: table_step_def spec_step_def)
next
  case (Delete_op key)
  then have k: "proper_key key" using ok by (simp add: op_ok_def)
  show ?thesis
    by (rule tagged.delete_correct [OF t k, of UNDEFINED])
      (use Delete_op in \<open>auto intro!: that simp: table_step_def spec_step_def\<close>)
next
  case Clear_op
  then show ?thesis
    using tagged.clear_correct [OF t, of UNDEFINED] that by (simp add: table_step_def spec_step_def)
next
  case (Resize_op m)
  then have m: "m \<le> 2 ^ 28" using ok by (simp add: op_ok_def)
  show ?thesis
    by (rule tagged.resize_correct [OF t m, of UNDEFINED])
      (use Resize_op in \<open>auto intro!: that simp: table_step_def spec_step_def\<close>)
qed

lemma table_run_correct:
  assumes "tagged_table_ok hp t" "ht_size t + length ops \<le> 2 ^ 27" "\<forall>op\<in>set ops. op_ok op"
  shows "\<exists>t'. table_run hp ops t = Some t' \<and> tagged_table_ok hp t' \<and>
    (insert_seq t', contents t') = fold (spec_step hp) ops (insert_seq t, contents t)"
  using assms
proof (induction ops arbitrary: t)
  case (Cons op ops)
  have ok: "op_ok op" "\<forall>op\<in>set ops. op_ok op" and n: "ht_size t \<le> 2 ^ 27" using Cons.prems(2,3) by simp_all
  obtain t1 where t1: "table_step hp op t = Some t1" "tagged_table_ok hp t1"
    "(insert_seq t1, contents t1) = spec_step hp op (insert_seq t, contents t)"
    by (rule table_step_correct [OF Cons.prems(1) n ok(1)])
  have "length (contents t1) \<le> length (contents t) + 1"
    using spec_step_length [of hp op "(insert_seq t, contents t)"] t1(3) by (metis snd_conv)
  then have "ht_size t1 + length ops \<le> 2 ^ 27"
    using Cons.prems(2) tagged.size_correct [OF t1(2)] tagged.size_correct [OF Cons.prems(1)] by simp
  from Cons.IH [OF t1(2) this ok(2)] show ?case using t1(1,3) by simp
qed simp

section \<open>The interface that maps and sets use\<close>

lemma find_map: "(\<And>x. x \<in> set xs \<Longrightarrow> P (f x) = P x) \<Longrightarrow> find P (map f xs) = map_option f (find P xs)"
  by (induction xs) auto

lemma find_append: "find P (xs @ ys) = (case find P xs of None \<Rightarrow> find P ys | Some x \<Rightarrow> Some x)"
  by (induction xs) auto

lemma find_cong_set: "(\<And>x. x \<in> set xs \<Longrightarrow> P x = Q x) \<Longrightarrow> find P xs = find Q xs"
  by (induction xs) auto

lemma find_SomeD: "find P xs = Some x \<Longrightarrow> x \<in> set xs \<and> P x"
  by (induction xs) (auto split: if_splits)

lemma od_has_find: "od_has eq key xs \<longleftrightarrow> find (\<lambda>(s, k, v, a). eq k key) xs \<noteq> None"
  by (induction xs) (auto simp: od_has_def)

definition keys_ok :: "('a \<Rightarrow> bool) \<Rightarrow> (nat \<times> 'a \<times> 'a \<times> u8) list \<Rightarrow> bool" where
  "keys_ok ok xs \<longleftrightarrow> (\<forall>(s, k, v, a)\<in>set xs. ok k)"

context hash_keys
begin

lemma eq_cong: "ok a \<Longrightarrow> ok b \<Longrightarrow> ok c \<Longrightarrow> eq b c \<Longrightarrow> eq a b = eq a c"
  using eq_trans eq_sym by blast

lemma od_find_put:
  assumes xs: "keys_ok ok xs" and k: "ok key" "ok key'"
  shows "od_find eq key' (od_put eq n key val upd dflt xs) =
    (if eq key' key then Some (val, case od_find eq key xs of None \<Rightarrow> dflt | Some (v, a) \<Rightarrow> upd a)
     else od_find eq key' xs)"
proof -
  let ?P = "\<lambda>key (s, k, v, a). eq k key" and ?f = "\<lambda>(s, k, v, a). if eq k key then (s, key, val, upd a) else (s, k, v, a)"
  have same: "find (?P key') xs = find (?P key) xs" if "eq key' key"
  proof (rule find_cong_set)
    fix x assume "x \<in> set xs"
    moreover obtain s k' v a where "x = (s, k', v, a)" by (cases x)
    ultimately show "?P key' x = ?P key x" using xs eq_cong [OF _ k(2,1) that, of k'] by (auto simp: keys_ok_def)
  qed
  show ?thesis
  proof (cases "od_has eq key xs")
    case True
    have m: "find (?P key') (map ?f xs) = map_option ?f (find (?P key') xs)"
    proof (rule find_map)
      fix x assume "x \<in> set xs"
      moreover obtain s k' v a where "x = (s, k', v, a)" by (cases x)
      ultimately show "?P key' (?f x) = ?P key' x"
        using xs k eq_trans [of key k' key'] eq_trans [of k' key key'] eq_sym [of k' key] by (auto simp: keys_ok_def)
    qed
    obtain s k' v a where f: "find (?P key) xs = Some (s, k', v, a)" "eq k' key"
      using True find_SomeD unfolding od_has_find by fastforce
    show ?thesis
    proof (cases "eq key' key")
      case True
      then show ?thesis
        using \<open>od_has eq key xs\<close> f m same by (simp add: od_put_def od_find_def)
    next
      case False
      have "map_option ?f (find (?P key') xs) = find (?P key') xs"
      proof (cases "find (?P key') xs")
        case (Some x)
        obtain s' k2 v' a' where x: "x = (s', k2, v', a')" by (cases x)
        then have "eq k2 key'" "ok k2" using find_SomeD [OF Some] xs by (auto simp: keys_ok_def)
        then have "\<not> eq k2 key" using False eq_trans [of key' k2 key] eq_sym [of k2 key'] k by blast
        then show ?thesis using Some x by simp
      qed simp
      then show ?thesis using True False m by (simp add: od_put_def od_find_def)
    qed
  next
    case False
    then have "find (?P key) xs = None" by (simp only: od_has_find not_not)
    moreover have "eq key key' = eq key' key" using eq_sym k by blast
    ultimately show ?thesis
      using False same by (auto simp: od_put_def od_find_def find_append split: option.split)
  qed
qed

lemma od_find_delete:
  assumes xs: "keys_ok ok xs" and k: "ok key" "ok key'"
  shows "od_find eq key' (od_delete eq key xs) = (if eq key' key then None else od_find eq key' xs)"
proof -
  have d: "\<not> eq k2 key \<or> \<not> eq k2 key' \<or> eq key' key" if "ok k2" for k2
    using eq_trans [of key' k2 key] eq_sym [of k2 key'] k that by blast
  have e: "\<not> eq key' key \<or> \<not> eq k2 key' \<or> eq k2 key" if "ok k2" for k2
    using eq_trans [of k2 key' key] k that by blast
  show ?thesis using xs
  proof (induction xs)
    case (Cons x xs)
    obtain s k2 v a where x: "x = (s, k2, v, a)" by (cases x)
    then have "ok k2" using Cons.prems by (simp add: keys_ok_def)
    moreover have "keys_ok ok xs" using Cons.prems by (simp add: keys_ok_def)
    ultimately show ?case using Cons.IH d [of k2] e [of k2] x by (auto simp: od_find_def od_delete_def)
  qed (simp add: od_find_def od_delete_def)
qed

end

text \<open>A store: an invariant, its entries in order, and the operations with their laws.\<close>

locale ordered_store = hash_keys hs eq ok
  for hs :: "'a \<Rightarrow> u64" and eq :: "'a \<Rightarrow> 'a \<Rightarrow> bool" and ok :: "'a \<Rightarrow> bool" +
  fixes inv :: "'t \<Rightarrow> bool" and items :: "'t \<Rightarrow> (nat \<times> 'a \<times> 'a \<times> u8) list" and mark :: "'t \<Rightarrow> nat"
    and put :: "'a \<Rightarrow> 'a \<Rightarrow> 't \<Rightarrow> 't option" and fetch :: "'t \<Rightarrow> 'a \<Rightarrow> 'a" and drop_key :: "'a \<Rightarrow> 't \<Rightarrow> bool \<times> 't"
    and next_live :: "'t \<Rightarrow> bool \<Rightarrow> nat \<Rightarrow> nat \<Rightarrow> ('a \<times> 'a \<times> nat) option" and none :: 'a
  assumes items_keys: "inv t \<Longrightarrow> keys_ok ok (items t)"
    and items_order: "inv t \<Longrightarrow> sorted (map fst (items t)) \<and> distinct (map fst (items t)) \<and> (\<forall>q\<in>set (items t). fst q < mark t)"
    and put_law: "inv t \<Longrightarrow> ok key \<Longrightarrow> length (items t) \<le> 2 ^ 27 \<Longrightarrow>
      \<exists>t'. put key val t = Some t' \<and> inv t' \<and> items t' = od_put eq (mark t) key val id ATTR_DEFAULT (items t)"
    and fetch_law: "inv t \<Longrightarrow> ok key \<Longrightarrow>
      fetch t key = (case od_find eq key (items t) of None \<Rightarrow> none | Some (v, a) \<Rightarrow> v)"
    and drop_law: "inv t \<Longrightarrow> ok key \<Longrightarrow>
      \<exists>t'. drop_key key t = (od_has eq key (items t), t') \<and> inv t' \<and> items t' = od_delete eq key (items t) \<and> mark t' = mark t"
    and next_law: "inv t \<Longrightarrow> next_live t first_call m l =
      map_option (\<lambda>(s, k, v, a). (k, v, s)) (find (\<lambda>(s, k, v, a). s < l \<and> (first_call \<or> m < s)) (items t))"
begin

lemma fetch_after_put:
  assumes "inv t" "ok key" "ok key'" "length (items t) \<le> 2 ^ 27"
  obtains t' where "put key val t = Some t'" "inv t'" "fetch t' key' = (if eq key' key then val else fetch t key')"
    "length (items t') = (if od_has eq key (items t) then length (items t) else length (items t) + 1)"
proof -
  obtain t' where t': "put key val t = Some t'" "inv t'" "items t' = od_put eq (mark t) key val id ATTR_DEFAULT (items t)"
    using put_law [OF assms(1,2,4)] by blast
  show ?thesis
    by (rule that [OF t'(1,2)])
      (use fetch_law [OF t'(2) assms(3)] fetch_law [OF assms(1,3)] od_find_put [OF items_keys [OF assms(1)] assms(2,3)]
        in \<open>simp_all add: t'(3)\<close>, simp add: od_put_def)
qed

lemma fetch_after_drop:
  assumes "inv t" "ok key" "ok key'"
  obtains t' where "drop_key key t = (od_has eq key (items t), t')" "inv t'"
    "fetch t' key' = (if eq key' key then none else fetch t key')"
proof -
  obtain t' where t': "drop_key key t = (od_has eq key (items t), t')" "inv t'" "items t' = od_delete eq key (items t)"
    using drop_law [OF assms(1,2)] by blast
  show ?thesis
    by (rule that [OF t'(1,2)])
      (use fetch_law [OF t'(2) assms(3)] fetch_law [OF assms(1,3)] od_find_delete [OF items_keys [OF assms(1)] assms(2,3)]
        in \<open>simp add: t'(3)\<close>)
qed

end

lemma contents_keys_ok: "slots_ok hs eq ok t \<Longrightarrow> keys_ok ok (contents t)"
  using slots_okD(3) [of hs eq ok t] by (auto simp: keys_ok_def quad_def)

interpretation store: ordered_store "TsValueHash hp" "TsValueEqual hp" proper_key "tagged_table_ok hp" contents insert_seq
  "ht_Set (TsValueHash hp) (TsValueEqual hp) UNDEFINED" "ht_Get (TsValueHash hp) (TsValueEqual hp) UNDEFINED"
  "ht_Delete (TsValueHash hp) (TsValueEqual hp) UNDEFINED" NextLiveBySeq UNDEFINED for hp
proof unfold_locales
  fix t key val first_call m l
  assume t: "tagged_table_ok hp t"
  note s = table_okD(1) [OF t]
  show "keys_ok proper_key (contents t)" by (rule contents_keys_ok [OF s])
  show "sorted (map fst (contents t)) \<and> distinct (map fst (contents t)) \<and> (\<forall>q\<in>set (contents t). fst q < insert_seq t)"
    using tagged.contents_ordered [OF s] by blast
  show "NextLiveBySeq t first_call m l =
      map_option (\<lambda>(s, k, v, a). (k, v, s)) (find (\<lambda>(s, k, v, a). s < l \<and> (first_call \<or> m < s)) (contents t))"
    using find_admissible [OF slots_okD(7) [OF s]] by (simp add: admissible_def)
  assume k: "proper_key key"
  show "ht_Get (TsValueHash hp) (TsValueEqual hp) UNDEFINED t key =
      (case od_find (TsValueEqual hp) key (contents t) of None \<Rightarrow> UNDEFINED | Some (v, a) \<Rightarrow> v)"
    by (rule tagged.get_correct(1) [OF t k])
  show "\<exists>t'. ht_Delete (TsValueHash hp) (TsValueEqual hp) UNDEFINED key t = (od_has (TsValueEqual hp) key (contents t), t') \<and>
      tagged_table_ok hp t' \<and> contents t' = od_delete (TsValueEqual hp) key (contents t) \<and> insert_seq t' = insert_seq t"
    by (rule tagged.delete_correct [OF t k, of UNDEFINED]) blast
  assume "length (contents t) \<le> 2 ^ 27"
  then have n: "ht_size t \<le> 2 ^ 27" by (simp only: tagged.size_correct [OF t])
  show "\<exists>t'. ht_Set (TsValueHash hp) (TsValueEqual hp) UNDEFINED key val t = Some t' \<and> tagged_table_ok hp t' \<and>
      contents t' = od_put (TsValueEqual hp) (insert_seq t) key val id ATTR_DEFAULT (contents t)"
    by (rule tagged.set_correct [OF t k n, of UNDEFINED val]) blast
qed

section \<open>Properties\<close>

text \<open>C5. The hash table is an insertion-ordered map. From an empty table, any sequence of up to
  2^27 insertions, attribute changes, deletions, clearings and resizings returns (every search
  for a free slot ends, every growth fits), and the table then agrees with the list
  specification run on the same sequence: same entries with the same values and attributes, in
  order of insertion, where storing under a key that is there keeps its place; the size is the
  length of the list, and lookups find what the list has.\<close>

theorem hash_table_refines_ordered_list:
  assumes "\<forall>op\<in>set ops. op_ok op" "length ops \<le> 2 ^ 27" "proper_key key"
  shows "\<exists>t. table_run hp ops (Create UNDEFINED 8) = Some t \<and> tagged_table_ok hp t \<and>
    (let xs = snd (fold (spec_step hp) ops (0, []))
     in contents t = xs \<and> ForEach t = map (\<lambda>(s, k, v, a). (k, v)) xs \<and> ht_size t = length xs \<and>
        ht_Get (TsValueHash hp) (TsValueEqual hp) UNDEFINED t key
          = (case od_find (TsValueEqual hp) key xs of None \<Rightarrow> UNDEFINED | Some (v, a) \<Rightarrow> v) \<and>
        GetAttrs (TsValueHash hp) (TsValueEqual hp) t key
          = (case od_find (TsValueEqual hp) key xs of None \<Rightarrow> 0 | Some (v, a) \<Rightarrow> a) \<and>
        ht_Has (TsValueHash hp) (TsValueEqual hp) t key = od_has (TsValueEqual hp) key xs)"
proof -
  let ?t0 = "Create UNDEFINED 8 :: TsValue TsHashTable"
  have n8: "(8 :: nat) \<le> 2 ^ 28" by simp
  note c = tagged.create_correct(1) [OF n8, of hp UNDEFINED] tagged.create_correct(2,3) [OF n8, of UNDEFINED]
  have "ht_size ?t0 = 0" using tagged.size_correct [OF c(1)] c(2) by simp
  then obtain t where t: "table_run hp ops ?t0 = Some t" "tagged_table_ok hp t"
    "(insert_seq t, contents t) = fold (spec_step hp) ops (0, [])"
    using table_run_correct [OF c(1), of ops] assms(1,2) c(2,3) by auto
  have x: "snd (fold (spec_step hp) ops (0, [])) = contents t" using t(3) by (metis snd_conv)
  show ?thesis
    by (intro exI [of _ t]; simp only: x Let_def)
      (use t(1,2) tagged.get_correct [OF t(2) assms(3)] tagged.size_correct [OF t(2)] ForEach_contents in simp)
qed

theorem hash_table_refines_ordered_list_witness:
  "\<forall>hp. \<exists>t. table_run hp [Put_op (NUMBER_INT 5) (BOOLEAN True), Put_op (NUMBER_INT 7) (NUMBER_INT 1),
      Put_op (NUMBER_INT 5) (BOOLEAN False)] (Create UNDEFINED 8) = Some t \<and>
    ForEach t = [(NUMBER_INT 5, BOOLEAN False), (NUMBER_INT 7, NUMBER_INT 1)] \<and>
    ht_Get (TsValueHash hp) (TsValueEqual hp) UNDEFINED t (NUMBER_INT 5) = BOOLEAN False"
  using hash_table_refines_ordered_list [of "[Put_op (NUMBER_INT 5) (BOOLEAN True),
      Put_op (NUMBER_INT 7) (NUMBER_INT 1), Put_op (NUMBER_INT 5) (BOOLEAN False)]" "NUMBER_INT 5"]
  by (intro allI) (auto simp: op_ok_def proper_key_def spec_step_def spec_put_def od_has_def od_put_def od_find_def
      plain_equal_iff Let_def)

text \<open>C26. The iteration cursor: \<open>NextLiveBySeq\<close>, which rescans the slots on every call, returns
  the first entry in insertion order whose number is below the limit and, after the first call,
  above the previous one; it reports the end exactly when no such entry is left.\<close>

theorem cursor_is_next_in_order:
  assumes "tagged_table_ok hp t"
  shows "NextLiveBySeq t first_call afterSeq seqLimit =
    map_option (\<lambda>(s, k, v, w). (k, v, s))
      (find (\<lambda>(s, k, v, w). s < seqLimit \<and> (first_call \<or> afterSeq < s)) (contents t))"
  using find_admissible [OF slots_okD(7) [OF table_okD(1) [OF assms]]] by (simp add: admissible_def)

theorem cursor_is_next_in_order_witness:
  "NextLiveBySeq (Create UNDEFINED 8 :: TsValue TsHashTable) True 0 100 = None"
proof -
  have n8: "(8 :: nat) \<le> 2 ^ 28" by simp
  show ?thesis
    using cursor_is_next_in_order [OF tagged.create_correct(1) [OF n8], of UNDEFINED True 0 100]
    by (simp add: tagged.create_correct(2) [OF n8] del: set_contents)
qed

end
