(* ===== verification/MapSet.thy ===== *)
theory MapSet
  imports HashTableCorrect
begin

text \<open>
  The \<open>Map\<close>, object and \<open>Set\<close> containers over the hash table: the classes \<open>TsMap\<close> and \<open>TsSet\<close>
  (\<open>src/src/runtime/src/TsMap.cpp\<close>, \<open>TsSet.cpp\<close> and their headers) with canonical keys, the
  freeze, seal and extensibility flags, the snapshots, the live iteration of \<open>Set.forEach\<close>, and
  the prototype chain of maps with its cycle check. An array that an operation returns is the
  list of its elements. The corrections of misaligned receivers and of corrupt table pointers
  and the write barriers have no counterpart.
\<close>

unbundle bit_operations_syntax

section \<open>Map\<close>

record TsMap =
  impl :: "TsValue TsHashTable"
  frozen :: bool
  sealed :: bool
  extensible :: bool
  isExplicitMap :: bool

text \<open>\<open>strncmp (k, prefix, length prefix) = 0\<close>\<close>

definition c_prefix :: "string \<Rightarrow> string \<Rightarrow> bool" where
  "c_prefix p s \<longleftrightarrow> take (length p) (c_string s) = p"

definition synthetic_key :: "string \<Rightarrow> bool" where
  "synthetic_key s \<longleftrightarrow> c_prefix ''__getter_'' s \<or> c_prefix ''__setter_'' s"

definition ts_key_is_internal_slot :: "value_heap \<Rightarrow> TsValue \<Rightarrow> bool" where
  "ts_key_is_internal_slot hp key \<longleftrightarrow>
     (case key of
        STRING_PTR p \<Rightarrow>
          (if p = 0 then False
           else let k = string_text hp p
                in if c_prefix [CHR 0x01] k then True else synthetic_key k)
      | _ \<Rightarrow> False)"

definition map_Create :: TsMap where
  "map_Create = \<lparr>impl = Create UNDEFINED 8, frozen = False, sealed = False, extensible = True, isExplicitMap = False\<rparr>"

definition map_key :: "TsMap \<Rightarrow> TsValue \<Rightarrow> TsValue" where
  "map_key m key = (if isExplicitMap m then ts_map_canon_key key else key)"

definition map_Set :: "value_heap \<Rightarrow> TsValue \<Rightarrow> TsValue \<Rightarrow> TsMap \<Rightarrow> TsMap option" where
  "map_Set hp key val m =
     (let key = map_key m key
      in if frozen m then Some m
         else if (sealed m \<or> \<not> extensible m) \<and>
                 \<not> ht_Has (TsValueHash hp) (TsValueEqual hp) (impl m) key \<and> \<not> ts_key_is_internal_slot hp key
              then Some m
         else map_option (\<lambda>t. m\<lparr>impl := t\<rparr>)
                (ht_Set (TsValueHash hp) (TsValueEqual hp) UNDEFINED key val (impl m)))"

definition map_SetWithAttrs :: "value_heap \<Rightarrow> TsValue \<Rightarrow> TsValue \<Rightarrow> u8 \<Rightarrow> TsMap \<Rightarrow> TsMap option" where
  "map_SetWithAttrs hp key val attr m =
     (if frozen m then Some m
      else if (sealed m \<or> \<not> extensible m) \<and>
              \<not> ht_Has (TsValueHash hp) (TsValueEqual hp) (impl m) key \<and> \<not> ts_key_is_internal_slot hp key
           then Some m
      else map_option (\<lambda>t. m\<lparr>impl := t\<rparr>)
             (SetWithAttrs (TsValueHash hp) (TsValueEqual hp) UNDEFINED key val attr (impl m)))"

definition map_Get :: "value_heap \<Rightarrow> TsMap \<Rightarrow> TsValue \<Rightarrow> TsValue" where
  "map_Get hp m key =
     (let key = map_key m key
      in if \<not> looks_valid (impl m) then UNDEFINED
         else ht_Get (TsValueHash hp) (TsValueEqual hp) UNDEFINED (impl m) key)"

definition map_Has :: "value_heap \<Rightarrow> TsMap \<Rightarrow> TsValue \<Rightarrow> bool" where
  "map_Has hp m key = ht_Has (TsValueHash hp) (TsValueEqual hp) (impl m) (map_key m key)"

definition map_Delete :: "value_heap \<Rightarrow> TsValue \<Rightarrow> TsMap \<Rightarrow> bool \<times> TsMap" where
  "map_Delete hp key m =
     (let key = map_key m key
      in if frozen m \<or> sealed m then (False, m)
         else let (b, t) = ht_Delete (TsValueHash hp) (TsValueEqual hp) UNDEFINED key (impl m)
              in (b, m\<lparr>impl := t\<rparr>))"

definition map_Clear :: "TsMap \<Rightarrow> TsMap" where
  "map_Clear m = (if frozen m \<or> sealed m then m else m\<lparr>impl := ht_Clear UNDEFINED (impl m)\<rparr>)"

definition map_Size :: "TsMap \<Rightarrow> nat" where
  "map_Size m = ht_size (impl m)"

definition map_GetKeys :: "TsMap \<Rightarrow> u64 list" where
  "map_GetKeys m = map (\<lambda>(key, val). nanbox_from_tagged key) (ForEach (impl m))"

definition map_GetEnumerableKeys :: "value_heap \<Rightarrow> TsMap \<Rightarrow> u64 list" where
  "map_GetEnumerableKeys hp m =
     map (\<lambda>(key, val). nanbox_from_tagged key)
       (filter (\<lambda>(key, val). case key of STRING_PTR p \<Rightarrow> p = 0 \<or> \<not> synthetic_key (string_text hp p) | _ \<Rightarrow> True)
         (ForEachEnumerable (impl m)))"

definition map_GetValues :: "TsMap \<Rightarrow> u64 list" where
  "map_GetValues m = map (\<lambda>(key, val). nanbox_from_tagged val) (ForEach (impl m))"

definition map_GetEntries :: "TsMap \<Rightarrow> (u64 \<times> u64) list" where
  "map_GetEntries m = map (\<lambda>(key, val). (nanbox_from_tagged key, nanbox_from_tagged val)) (ForEach (impl m))"

definition map_GetPropertyAttrs :: "value_heap \<Rightarrow> TsMap \<Rightarrow> TsValue \<Rightarrow> u8" where
  "map_GetPropertyAttrs hp m key = GetAttrs (TsValueHash hp) (TsValueEqual hp) (impl m) key"

definition map_SetPropertyAttrs :: "value_heap \<Rightarrow> TsValue \<Rightarrow> u8 \<Rightarrow> TsMap \<Rightarrow> TsMap" where
  "map_SetPropertyAttrs hp key attr m = m\<lparr>impl := SetAttrs (TsValueHash hp) (TsValueEqual hp) key attr (impl m)\<rparr>"

text \<open>\<open>Map.forEach\<close>: the slots are collected once, and each is read when its turn comes, from the
  table as the callback left it. The callback gets the world, the boxed value and key, and the
  map, and returns the new world and map.\<close>

fun map_for_each_loop ::
  "('w \<Rightarrow> u64 \<Rightarrow> u64 \<Rightarrow> TsMap \<Rightarrow> 'w \<times> TsMap) \<Rightarrow> nat list \<Rightarrow> 'w \<times> TsMap \<Rightarrow> 'w \<times> TsMap" where
  "map_for_each_loop cb [] st = st"
| "map_for_each_loop cb (i # is) st =
     (let e = entries (impl (snd st)) ! i
      in map_for_each_loop cb is
           (cb (fst st) (nanbox_from_tagged (e_value e)) (nanbox_from_tagged (e_key e)) (snd st)))"

definition map_ForEach :: "('w \<Rightarrow> u64 \<Rightarrow> u64 \<Rightarrow> TsMap \<Rightarrow> 'w \<times> TsMap) \<Rightarrow> 'w \<Rightarrow> TsMap \<Rightarrow> 'w \<times> TsMap" where
  "map_ForEach cb w m = map_for_each_loop cb (collect_ordered (impl m)) (w, m)"

text \<open>The copy of the entries whose string keys are not in a list, in a fresh map.\<close>

definition copy_entry :: "value_heap \<Rightarrow> string list \<Rightarrow> TsValue \<times> TsValue \<Rightarrow> TsMap option \<Rightarrow> TsMap option" where
  "copy_entry hp excluded = (\<lambda>(key, val) dest.
     case key of
       STRING_PTR p \<Rightarrow>
         (if \<exists>ex\<in>set excluded. c_string (string_text hp p) = c_string ex then dest
          else Option.bind dest (map_Set hp key val))
     | _ \<Rightarrow> Option.bind dest (map_Set hp key val))"

definition map_CopyExcluding :: "value_heap \<Rightarrow> string list \<Rightarrow> TsMap \<Rightarrow> TsMap option" where
  "map_CopyExcluding hp excluded m = fold (copy_entry hp excluded) (ForEach (impl m)) (Some map_Create)"

section \<open>Set\<close>

type_synonym TsSet = "TsValue TsHashTable"

definition set_Create :: TsSet where
  "set_Create = Create UNDEFINED 8"

definition set_Add :: "value_heap \<Rightarrow> TsValue \<Rightarrow> TsSet \<Rightarrow> TsSet option" where
  "set_Add hp val t = ht_Set (TsValueHash hp) (TsValueEqual hp) UNDEFINED (ts_set_canon_key val) UNDEFINED t"

definition set_Has :: "value_heap \<Rightarrow> TsSet \<Rightarrow> TsValue \<Rightarrow> bool" where
  "set_Has hp t val = ht_Has (TsValueHash hp) (TsValueEqual hp) t (ts_set_canon_key val)"

definition set_Delete :: "value_heap \<Rightarrow> TsValue \<Rightarrow> TsSet \<Rightarrow> bool \<times> TsSet" where
  "set_Delete hp val t = ht_Delete (TsValueHash hp) (TsValueEqual hp) UNDEFINED (ts_set_canon_key val) t"

definition set_Clear :: "TsSet \<Rightarrow> TsSet" where
  "set_Clear t = ht_Clear UNDEFINED t"

definition set_Size :: "TsSet \<Rightarrow> nat" where
  "set_Size t = ht_size t"

definition set_GetValues :: "TsSet \<Rightarrow> u64 list" where
  "set_GetValues t = map (\<lambda>(key, val). nanbox_from_tagged key) (ForEach t)"

definition set_SeqMark :: "TsSet \<Rightarrow> nat" where
  "set_SeqMark t = CurrentSeqMark t"

definition set_NextLive :: "bool \<Rightarrow> nat \<Rightarrow> nat \<Rightarrow> TsSet \<Rightarrow> (TsValue \<times> nat) option" where
  "set_NextLive fst_call afterSeq seqLimit t =
     map_option (\<lambda>(key, val, s). (key, s)) (NextLiveBySeq t fst_call afterSeq seqLimit)"

definition UINT64_MAX :: nat where
  "UINT64_MAX = 2 ^ 64 - 1"

text \<open>The loop of \<open>Set.forEach\<close>: the callback gets the world, the boxed element and the set, and
  returns the new world and the set as it left it. One unit of fuel per round.\<close>

fun set_for_each_loop ::
  "nat \<Rightarrow> ('w \<Rightarrow> u64 \<Rightarrow> TsSet \<Rightarrow> 'w \<times> TsSet) \<Rightarrow> bool \<Rightarrow> nat \<Rightarrow> 'w \<times> TsSet \<Rightarrow> ('w \<times> TsSet) option" where
  "set_for_each_loop 0 cb fst_call seq st = None"
| "set_for_each_loop (Suc n) cb fst_call seq st =
     (case set_NextLive fst_call seq UINT64_MAX (snd st) of
        None \<Rightarrow> Some st
      | Some (key, seq') \<Rightarrow> set_for_each_loop n cb False seq' (cb (fst st) (nanbox_from_tagged key) (snd st)))"

definition set_ForEach ::
  "nat \<Rightarrow> ('w \<Rightarrow> u64 \<Rightarrow> TsSet \<Rightarrow> 'w \<times> TsSet) \<Rightarrow> 'w \<Rightarrow> TsSet \<Rightarrow> ('w \<times> TsSet) option" where
  "set_ForEach fuel cb w t = set_for_each_loop fuel cb True 0 (w, t)"

section \<open>Prototype chain\<close>

text \<open>The \<open>prototype\<close> field of every map by its address; 0 is null. The walk up the chain may run
  forever on a heap with a cycle.\<close>

type_synonym proto_heap = "u64 \<Rightarrow> u64"

partial_function (option) chain_reaches :: "proto_heap \<Rightarrow> u64 \<Rightarrow> u64 \<Rightarrow> bool option" where
  "chain_reaches ph this current =
     (if current \<noteq> 0 then if current = this then Some True else chain_reaches ph this (ph current)
      else Some False)"

definition WouldCreateCycle :: "proto_heap \<Rightarrow> u64 \<Rightarrow> u64 \<Rightarrow> bool option" where
  "WouldCreateCycle ph this proto = chain_reaches ph this proto"

definition SetPrototype :: "u64 \<Rightarrow> u64 \<Rightarrow> proto_heap \<Rightarrow> proto_heap" where
  "SetPrototype this proto ph = (if proto \<noteq> 0 \<and> proto < 0x10000 then ph else ph(this := proto))"

text \<open>How \<open>Object.setPrototypeOf\<close> uses them on two maps: a cyclic chain leaves the heap alone.\<close>

definition set_prototype_of :: "u64 \<Rightarrow> u64 \<Rightarrow> proto_heap \<Rightarrow> proto_heap option" where
  "set_prototype_of this proto ph =
     map_option (\<lambda>cyclic. if cyclic then ph else SetPrototype this proto ph) (WouldCreateCycle ph this proto)"

section \<open>Maps\<close>

lemma canon_proper: "proper_key v \<Longrightarrow> proper_key (ts_map_canon_key v)"
  by (cases v) (simp_all add: ts_map_canon_key_def proper_key_def)

lemma map_key_proper: "proper_key v \<Longrightarrow> proper_key (map_key m v)"
  by (simp add: map_key_def canon_proper)

lemma table_looks_valid: "tagged_table_ok hp t \<Longrightarrow> looks_valid t"
  using shape_step(1) [OF slots_okD(1) [OF table_okD(1)]] by blast

lemma map_Get_store: "tagged_table_ok hp (impl m) \<Longrightarrow>
  map_Get hp m key = ht_Get (TsValueHash hp) (TsValueEqual hp) UNDEFINED (impl m) (map_key m key)"
  by (simp add: map_Get_def table_looks_valid)

lemma map_key_impl [simp]: "map_key (m\<lparr>impl := t\<rparr>) = map_key m"
  by (simp add: map_key_def fun_eq_iff)

text \<open>C27. \<open>Map.prototype.set\<close> and \<open>get\<close>: on a map that is neither frozen nor sealed, setting a key
  returns, and afterwards every key reads the new value if it is the same key for SameValueZero
  (\<open>5\<close> and \<open>5.0\<close>, \<open>0\<close> and \<open>-0\<close>, NaN) and what it read before otherwise.\<close>

theorem map_set_get:
  assumes "tagged_table_ok hp (impl m)" "isExplicitMap m" "\<not> frozen m" "\<not> sealed m" "extensible m"
    "proper_key key" "proper_key key'" "safe_key key" "safe_key key'" "map_Size m \<le> 2 ^ 27"
  shows "\<exists>m'. map_Set hp key val m = Some m' \<and> tagged_table_ok hp (impl m') \<and>
    map_Get hp m' key' = (if same_value_zero hp key' key then val else map_Get hp m key')"
proof -
  have n: "length (contents (impl m)) \<le> 2 ^ 27"
    using assms(10) tagged.size_correct [OF assms(1)] by (simp add: map_Size_def)
  obtain t' where t': "ht_Set (TsValueHash hp) (TsValueEqual hp) UNDEFINED (map_key m key) val (impl m) = Some t'"
    "tagged_table_ok hp t'"
    "ht_Get (TsValueHash hp) (TsValueEqual hp) UNDEFINED t' (map_key m key') =
       (if TsValueEqual hp (map_key m key') (map_key m key) then val
        else ht_Get (TsValueHash hp) (TsValueEqual hp) UNDEFINED (impl m) (map_key m key'))"
    by (rule store.fetch_after_put [OF assms(1) map_key_proper [OF assms(6)] map_key_proper [OF assms(7)] n])
  have "TsValueEqual hp (map_key m key') (map_key m key) = same_value_zero hp key' key"
    using canonical_key_equality [OF assms(9,8)] assms(2) by (simp add: map_key_def)
  then show ?thesis
    using t' assms(1,3-5)
    by (intro exI [of _ "m\<lparr>impl := t'\<rparr>"]) (simp add: map_Set_def map_Get_store Let_def)
qed

theorem map_set_get_witness:
  "\<forall>hp. \<exists>m'. map_Set hp (NUMBER_INT 5) (BOOLEAN True) (map_Create\<lparr>isExplicitMap := True\<rparr>) = Some m' \<and>
    map_Get hp m' (NUMBER_INT 5) = BOOLEAN True"
proof
  fix hp
  have n8: "(8 :: nat) \<le> 2 ^ 28" by simp
  have z: "same_value_zero hp (NUMBER_INT 5) (NUMBER_INT 5)"
    by (simp add: same_value_zero_def number_of_def f64_eq_refl f64_of_int_not_nan)
  have sz: "ht_size (Create UNDEFINED 8 :: TsValue TsHashTable) = 0" by (simp add: Create_def Let_def)
  show "\<exists>m'. map_Set hp (NUMBER_INT 5) (BOOLEAN True) (map_Create\<lparr>isExplicitMap := True\<rparr>) = Some m' \<and>
    map_Get hp m' (NUMBER_INT 5) = BOOLEAN True"
    using map_set_get [of hp "map_Create\<lparr>isExplicitMap := True\<rparr>" "NUMBER_INT 5" "NUMBER_INT 5" "BOOLEAN True"]
      tagged.create_correct(1) [OF n8, of hp UNDEFINED] z sz
    by (auto simp: map_Create_def proper_key_def safe_key_def map_Size_def)
qed

text \<open>Bookkeeping slots are recognised by their text, so equal keys are slots together.\<close>

lemma internal_slot_cong: "TsValueEqual hp a b \<Longrightarrow> ts_key_is_internal_slot hp a = ts_key_is_internal_slot hp b"
  by (cases a) (auto simp: equal_iffs ts_key_is_internal_slot_def)

lemma od_has_find_some: "od_has eq key xs \<longleftrightarrow> od_find eq key xs \<noteq> None"
  by (simp add: od_has_find od_find_def)

lemma od_has_put:
  assumes "keys_ok proper_key xs" "proper_key key" "proper_key key'"
  shows "od_has (TsValueEqual hp) key' (od_put (TsValueEqual hp) n key val upd dflt xs) \<longleftrightarrow>
    TsValueEqual hp key' key \<or> od_has (TsValueEqual hp) key' xs"
  by (simp add: od_has_find_some tagged.od_find_put [OF assms])

lemma od_has_cong:
  assumes "keys_ok proper_key xs" "proper_key a" "proper_key b" "TsValueEqual hp a b"
  shows "od_has (TsValueEqual hp) a xs = od_has (TsValueEqual hp) b xs"
proof -
  have "TsValueEqual hp k a = TsValueEqual hp k b" if "(s, k, v, w) \<in> set xs" for s k v w
    using tagged.eq_cong [OF _ assms(2-4), of k] assms(1) that by (auto simp: keys_ok_def)
  then show ?thesis unfolding od_has_def by (intro bex_cong) auto
qed

lemma map_Has_store: "tagged_table_ok hp (impl m) \<Longrightarrow> proper_key key \<Longrightarrow>
  map_Has hp m key = od_has (TsValueEqual hp) (map_key m key) (contents (impl m))"
  by (simp add: map_Has_def tagged.get_correct(3) map_key_proper)

text \<open>On a closed map, a set either changes nothing or hits a key that is there or a slot.\<close>

lemma closed_set_keys:
  assumes t: "tagged_table_ok hp (impl m)" and closed: "sealed m \<or> \<not> extensible m"
    and k: "proper_key key" "proper_key key'" "\<not> ts_key_is_internal_slot hp (map_key m key')" and n: "map_Size m \<le> 2 ^ 27"
  shows "\<exists>m'. map_Set hp key val m = Some m' \<and> map_Has hp m' key' = map_Has hp m key'"
proof -
  let ?k = "map_key m key" and ?k' = "map_key m key'"
  note pk = map_key_proper [OF k(1), of m] and pk' = map_key_proper [OF k(2), of m]
  show ?thesis
  proof (cases "frozen m \<or> (\<not> ht_Has (TsValueHash hp) (TsValueEqual hp) (impl m) ?k \<and> \<not> ts_key_is_internal_slot hp ?k)")
    case True
    then show ?thesis using closed by (auto simp: map_Set_def Let_def)
  next
    case False
    have l: "length (contents (impl m)) \<le> 2 ^ 27"
      using n tagged.size_correct [OF t] by (simp add: map_Size_def)
    obtain t' where t': "ht_Set (TsValueHash hp) (TsValueEqual hp) UNDEFINED ?k val (impl m) = Some t'"
      "tagged_table_ok hp t'"
      "contents t' = od_put (TsValueEqual hp) (insert_seq (impl m)) ?k val id ATTR_DEFAULT (contents (impl m))"
      using store.put_law [OF t pk l] by blast
    have "od_has (TsValueEqual hp) ?k' (contents t') = od_has (TsValueEqual hp) ?k' (contents (impl m))"
    proof (cases "TsValueEqual hp ?k' ?k")
      case True
      then have "ht_Has (TsValueHash hp) (TsValueEqual hp) (impl m) ?k"
        using False k(3) internal_slot_cong [OF True] by blast
      then have "od_has (TsValueEqual hp) ?k (contents (impl m))" using tagged.get_correct(3) [OF t pk] by simp
      then have "od_has (TsValueEqual hp) ?k' (contents (impl m))"
        using od_has_cong [OF contents_keys_ok [OF table_okD(1) [OF t]] pk' pk True] by simp
      then show ?thesis
        using od_has_put [OF contents_keys_ok [OF table_okD(1) [OF t]] pk pk'] by (simp add: t'(3))
    next
      case ne: False
      then show ?thesis
        using od_has_put [OF contents_keys_ok [OF table_okD(1) [OF t]] pk pk'] by (simp add: t'(3))
    qed
    then have "map_Has hp (m\<lparr>impl := t'\<rparr>) key' = map_Has hp m key'"
      using t'(2) t k(2) by (simp add: map_Has_store)
    moreover have "map_Set hp key val m = Some (m\<lparr>impl := t'\<rparr>)"
      using False t'(1) by (auto simp: map_Set_def Let_def)
    ultimately show ?thesis by blast
  qed
qed



section \<open>Live iteration of sets\<close>

text \<open>A callback that may delete elements but adds none.\<close>

definition adds_nothing :: "value_heap \<Rightarrow> ('w \<Rightarrow> u64 \<Rightarrow> TsSet \<Rightarrow> 'w \<times> TsSet) \<Rightarrow> bool" where
  "adds_nothing hp cb \<longleftrightarrow>
     (\<forall>w v t. tagged_table_ok hp t \<longrightarrow>
        tagged_table_ok hp (snd (cb w v t)) \<and> insert_seq (snd (cb w v t)) = insert_seq t)"

lemma next_live_store:
  assumes "tagged_table_ok hp t"
  shows "set_NextLive f m l t =
    map_option (\<lambda>(s, k, v, a). (k, s)) (find (\<lambda>(s, k, v, a). s < l \<and> (f \<or> m < s)) (contents t))"
  unfolding set_NextLive_def store.next_law [OF assms] option.map_comp comp_def split_def by simp

lemma next_live_bounds:
  assumes "tagged_table_ok hp t" "set_NextLive f m l t = Some (k, s)"
  shows "s < insert_seq t" "f \<or> m < s"
proof -
  from assms(2) obtain v a where f: "find (\<lambda>(s, k, v, a). s < l \<and> (f \<or> m < s)) (contents t) = Some (s, k, v, a)"
    unfolding next_live_store [OF assms(1)] by auto
  from find_SomeD [OF f] show "s < insert_seq t" "f \<or> m < s"
    using store.items_order [OF assms(1)] by (auto simp del: set_contents)
qed

lemma for_each_ends:
  assumes cb: "adds_nothing hp cb"
  shows "tagged_table_ok hp (snd st) \<Longrightarrow> seq < insert_seq (snd st) \<Longrightarrow> insert_seq (snd st) \<le> n + seq \<Longrightarrow>
    set_for_each_loop n cb False seq st \<noteq> None"
proof (induction n arbitrary: seq st)
  case (Suc n)
  show ?case
  proof (cases "set_NextLive False seq UINT64_MAX (snd st)")
    case (Some r)
    obtain k s where r: "r = (k, s)" by (cases r)
    note b = next_live_bounds [OF Suc.prems(1) Some [unfolded r]]
    let ?st = "cb (fst st) (nanbox_from_tagged k) (snd st)"
    have st': "tagged_table_ok hp (snd ?st)" "insert_seq (snd ?st) = insert_seq (snd st)"
      using cb Suc.prems(1) by (simp_all add: adds_nothing_def)
    show ?thesis
      using Suc.IH [OF st'(1), of s] st'(2) b Suc.prems(3) Some r by simp
  qed simp
qed simp

lemma filter_from_find:
  fixes xs :: "(nat \<times> 'b) list"
  assumes "sorted (map fst xs)" "distinct (map fst xs)"
  shows "filter (\<lambda>q. m < fst q) xs =
    (case find (\<lambda>q. m < fst q) xs of None \<Rightarrow> [] | Some q \<Rightarrow> q # filter (\<lambda>r. fst q < fst r) xs)"
  using assms
proof (induction xs)
  case (Cons x xs)
  have lt: "\<forall>r\<in>set xs. fst x < fst r" using Cons.prems by (simp add: less_le) (metis image_eqI)
  show ?case
  proof (cases "m < fst x")
    case True
    then have "filter (\<lambda>q. m < fst q) xs = xs" "filter (\<lambda>r. fst x < fst r) xs = xs"
      using lt by (auto intro!: filter_True)
    then show ?thesis using True by simp
  next
    case False
    have "\<not> fst q < fst x" if "find (\<lambda>q. m < fst q) xs = Some q" for q
      using find_SomeD [OF that] lt by auto
    then show ?thesis using False Cons.IH Cons.prems by (auto split: option.split)
  qed
qed simp

lemma for_each_pure:
  assumes t: "tagged_table_ok hp t" and mx: "insert_seq t \<le> UINT64_MAX"
    and pure: "\<And>w v t'. snd (cb w v t') = t'"
  shows "length (filter (\<lambda>q. seq < fst q) (contents t)) < n \<Longrightarrow>
    set_for_each_loop n cb False seq (w, t) =
      Some (fold (\<lambda>(s, k, v, a) w. fst (cb w (nanbox_from_tagged k) t)) (filter (\<lambda>q. seq < fst q) (contents t)) w, t)"
proof (induction n arbitrary: seq w)
  case (Suc n)
  note o = store.items_order [OF t]
  have "find (\<lambda>(s, k, v, a). s < UINT64_MAX \<and> (False \<or> seq < s)) (contents t) = find (\<lambda>q. seq < fst q) (contents t)"
    using o mx by (intro find_cong_set) (auto simp del: set_contents)
  then have nl: "set_NextLive False seq UINT64_MAX t =
      map_option (\<lambda>(s, k, v, a). (k, s)) (find (\<lambda>q. seq < fst q) (contents t))"
    unfolding next_live_store [OF t] by simp
  note ff = filter_from_find [of "contents t" seq]
  show ?case
  proof (cases "find (\<lambda>q. seq < fst q) (contents t)")
    case None
    then show ?thesis using nl ff o by simp
  next
    case (Some q)
    obtain s k v a where q: "q = (s, k, v, a)" by (cases q)
    have f: "filter (\<lambda>q. seq < fst q) (contents t) = q # filter (\<lambda>r. s < fst r) (contents t)"
      using ff o Some by (simp add: q)
    have st: "cb w (nanbox_from_tagged k) t = (fst (cb w (nanbox_from_tagged k) t), t)" by (simp add: prod_eq_iff pure)
    have "length (filter (\<lambda>r. s < fst r) (contents t)) < n" using Suc.prems f by simp
    from Suc.IH [OF this, where w = "fst (cb w (nanbox_from_tagged k) t)"] show ?thesis
      using nl Some f st by (simp add: q)
  qed
qed simp

lemma for_each_first:
  assumes t: "tagged_table_ok hp t" and mx: "insert_seq t \<le> UINT64_MAX"
    and pure: "\<And>w v t'. snd (cb w v t') = t'"
  shows "length (contents t) < n \<Longrightarrow>
    set_ForEach n cb w t = Some (fold (\<lambda>(s, k, v, a) w. fst (cb w (nanbox_from_tagged k) t)) (contents t) w, t)"
proof (cases n)
  case (Suc m)
  assume n: "length (contents t) < n"
  note o = store.items_order [OF t]
  have "find (\<lambda>(s, k, v, a). s < UINT64_MAX \<and> (True \<or> 0 < s)) (contents t) = find (\<lambda>_. True) (contents t)"
    using o mx by (intro find_cong_set) (auto simp del: set_contents)
  then have nl: "set_NextLive True 0 UINT64_MAX t =
      map_option (\<lambda>(s, k, v, a). (k, s)) (find (\<lambda>_. True) (contents t))"
    unfolding next_live_store [OF t] by simp
  show ?thesis
  proof (cases "contents t")
    case Nil
    then show ?thesis using nl Suc by (simp add: set_ForEach_def)
  next
    case (Cons q xs)
    obtain s k v a where q: "q = (s, k, v, a)" by (cases q)
    have "\<forall>r\<in>set xs. s < fst r" using o q unfolding Cons by (simp add: less_le) (metis fst_conv image_eqI)
    then have f: "filter (\<lambda>r. s < fst r) (contents t) = xs" by (simp add: Cons q)
    have st: "cb w (nanbox_from_tagged k) t = (fst (cb w (nanbox_from_tagged k) t), t)" by (simp add: prod_eq_iff pure)
    have "length (filter (\<lambda>r. s < fst r) (contents t)) < m" using n Suc unfolding f by (simp add: Cons)
    from for_each_pure [OF t mx pure this, where w = "fst (cb w (nanbox_from_tagged k) t)"] show ?thesis
      using nl Cons q st Suc unfolding f by (simp add: set_ForEach_def)
  qed
qed simp

text \<open>C29. \<open>Set.forEach\<close> ends and visits everything: with a callback that may delete elements but adds
  none, the live iteration returns after at most as many rounds as insertions were ever made; and
  with a callback that leaves the set alone it calls the callback on exactly the elements, each
  once, in insertion order, like iterating over a snapshot.\<close>

theorem set_forEach_ends:
  assumes "tagged_table_ok hp t" "adds_nothing hp cb"
  shows "\<exists>st. set_ForEach (set_SeqMark t + 1) cb w t = Some st \<and>
    ((\<forall>w v t'. snd (cb w v t') = t') \<and> set_SeqMark t \<le> UINT64_MAX \<longrightarrow>
       st = (fold (\<lambda>v w. fst (cb w v t)) (set_GetValues t) w, t))"
proof -
  let ?n = "insert_seq t + 1"
  have "set_ForEach ?n cb w t \<noteq> None"
  proof (cases "set_NextLive True 0 UINT64_MAX t")
    case (Some r)
    obtain k s where r: "r = (k, s)" by (cases r)
    note b = next_live_bounds [OF assms(1) Some [unfolded r]]
    have "tagged_table_ok hp (snd (cb w (nanbox_from_tagged k) t))"
      "insert_seq (snd (cb w (nanbox_from_tagged k) t)) = insert_seq t"
      using assms by (simp_all add: adds_nothing_def)
    then show ?thesis
      using for_each_ends [OF assms(2), of "cb w (nanbox_from_tagged k) t" s "insert_seq t"] b Some r
      by (simp add: set_ForEach_def)
  qed (simp add: set_ForEach_def)
  then obtain st where st: "set_ForEach ?n cb w t = Some st" by blast
  have "st = (fold (\<lambda>v w. fst (cb w v t)) (set_GetValues t) w, t)"
    if p: "\<forall>w v t'. snd (cb w v t') = t'" and mx: "insert_seq t \<le> UINT64_MAX"
  proof -
    have "length (contents t) = card (fst ` set (contents t))"
      using store.items_order [OF assms(1)] distinct_card [of "map fst (contents t)"] by (simp del: set_contents)
    also have "\<dots> \<le> card {..<insert_seq t}"
      using store.items_order [OF assms(1)] by (intro card_mono) (auto simp del: set_contents)
    finally have "length (contents t) < ?n" by simp
    from for_each_first [OF assms(1) mx _ this, of cb w] p st show ?thesis
      by (simp add: set_GetValues_def ForEach_contents fold_map comp_def split_def)
  qed
  then show ?thesis using st by (auto simp: set_SeqMark_def CurrentSeqMark_def)
qed

theorem set_forEach_ends_witness:
  "set_ForEach (set_SeqMark set_Create + 1) (\<lambda>w v t. (v # w, t)) [] set_Create = Some ([], set_Create)"
proof -
  have n8: "(8 :: nat) \<le> 2 ^ 28" by simp
  have t: "tagged_table_ok hp set_Create" for hp unfolding set_Create_def by (rule tagged.create_correct(1) [OF n8])
  have s: "set_SeqMark set_Create = 0"
    unfolding set_SeqMark_def CurrentSeqMark_def set_Create_def by (rule tagged.create_correct(3) [OF n8])
  have "contents set_Create = []" unfolding set_Create_def by (rule tagged.create_correct(2) [OF n8])
  then have "set_GetValues set_Create = []" by (simp add: set_GetValues_def ForEach_contents)
  then show ?thesis
    using set_forEach_ends [OF t, of _ "\<lambda>w v t. (v # w, t)" "[] :: u64 list"] s
    by (auto simp: adds_nothing_def UINT64_MAX_def)
qed

section \<open>Prototype chains\<close>

text \<open>The chain of an object ends at null.\<close>

inductive chain_ends :: "proto_heap \<Rightarrow> u64 \<Rightarrow> bool" for ph where
  null: "chain_ends ph 0"
| up: "chain_ends ph (ph a) \<Longrightarrow> chain_ends ph a"

inductive on_chain :: "proto_heap \<Rightarrow> u64 \<Rightarrow> u64 \<Rightarrow> bool" for ph this where
  here: "this \<noteq> 0 \<Longrightarrow> on_chain ph this this"
| up: "a \<noteq> 0 \<Longrightarrow> on_chain ph this (ph a) \<Longrightarrow> on_chain ph this a"

inductive_simps on_chain_null [simp]: "on_chain ph this 0"

inductive_simps on_chain_step: "on_chain ph this a"

lemma chain_reaches_ends: "chain_ends ph a \<Longrightarrow> chain_reaches ph this a = Some (on_chain ph this a)"
proof (induction rule: chain_ends.induct)
  case null
  show ?case by (subst chain_reaches.simps) simp
next
  case (up a)
  show ?case
    by (subst chain_reaches.simps) (use up.IH in \<open>auto simp: on_chain.here intro: on_chain.up elim: on_chain.cases\<close>)
qed

lemma chain_ends_off:
  "chain_ends ph a \<Longrightarrow> \<not> on_chain ph this a \<Longrightarrow> chain_ends (ph(this := p)) a"
proof (induction rule: chain_ends.induct)
  case (up a)
  show ?case
  proof (cases "a = 0")
    case False
    then have "a \<noteq> this" "\<not> on_chain ph this (ph a)" using up.prems on_chain.here on_chain.up by blast+
    then have "chain_ends (ph(this := p)) ((ph(this := p)) a)" using up.IH by (simp add: fun_upd_def)
    then show ?thesis by (rule chain_ends.up)
  qed (simp add: chain_ends.null)
qed (rule chain_ends.null)

lemma chain_ends_update:
  assumes p: "chain_ends (ph(this := p)) p"
  shows "chain_ends ph a \<Longrightarrow> chain_ends (ph(this := p)) a"
proof (induction rule: chain_ends.induct)
  case (up a)
  have "chain_ends (ph(this := p)) ((ph(this := p)) a)" using p up.IH by (cases "a = this") (simp_all add: fun_upd_def)
  then show ?case by (rule chain_ends.up)
qed (rule chain_ends.null)

text \<open>C30. Prototype chains stay acyclic: when every chain of the heap ends, the cycle check ends,
  answers whether the object is on the chain of its new prototype, and setting the prototype of a
  map accordingly leaves a heap whose chains all end; a cyclic request changes nothing.\<close>

theorem prototype_chains_end:
  assumes "\<And>a. chain_ends ph a"
  shows "WouldCreateCycle ph this proto = Some (on_chain ph this proto) \<and>
    (\<exists>ph'. set_prototype_of this proto ph = Some ph' \<and> (\<forall>a. chain_ends ph' a) \<and>
       ph' = (if on_chain ph this proto then ph else SetPrototype this proto ph))"
proof -
  have w: "WouldCreateCycle ph this proto = Some (on_chain ph this proto)"
    unfolding WouldCreateCycle_def by (rule chain_reaches_ends [OF assms])
  have "chain_ends (SetPrototype this proto ph) a" if "\<not> on_chain ph this proto" for a
    using chain_ends_update [OF chain_ends_off [OF assms that] assms] assms by (simp add: SetPrototype_def)
  then show ?thesis using w assms by (auto simp: set_prototype_of_def)
qed

theorem prototype_chains_end_witness:
  "set_prototype_of 0x20000 0x30000 (\<lambda>_. 0) = Some ((\<lambda>_. 0)(0x20000 := 0x30000))
   \<and> (\<forall>a. chain_ends ((\<lambda>_. 0)(0x20000 := 0x30000)) a)"
proof -
  have e: "chain_ends (\<lambda>_. 0) a" for a by (rule chain_ends.up) (simp add: chain_ends.null)
  have n: "\<not> on_chain (\<lambda>_. 0) 0x20000 0x30000" by (subst on_chain_step) simp
  show ?thesis
    using prototype_chains_end [OF e, of "0x20000" "0x30000"] n by (simp add: SetPrototype_def)
qed

section \<open>Deleting during \<open>Map.forEach\<close>\<close>

lemma find_slot_at:
  assumes s: "slots_ok (TsValueHash hp) (TsValueEqual hp) proper_key t" and i: "i \<in> live_set t"
  shows "find_slot (TsValueHash hp) (TsValueEqual hp) t (e_key (entries t ! i)) = Some i"
proof (cases "find_slot (TsValueHash hp) (TsValueEqual hp) t (e_key (entries t ! i))")
  case None
  note k = slots_okD(3) [OF s i]
  from tagged.find_slot_none [OF s k None i] show ?thesis using tagged.eq_refl [OF k, of hp] by blast
next
  case (Some j)
  note k = slots_okD(3) [OF s i]
  from tagged.find_slot_unique [OF s k Some i] show ?thesis using tagged.eq_refl [OF k, of hp] Some by simp
qed

text \<open>A callback that records what it is called with and deletes one key.\<close>

definition delete_key_cb ::
  "value_heap \<Rightarrow> TsValue \<Rightarrow> (u64 \<times> u64) list \<Rightarrow> u64 \<Rightarrow> u64 \<Rightarrow> TsMap \<Rightarrow> (u64 \<times> u64) list \<times> TsMap" where
  "delete_key_cb hp key w v k m = (w @ [(v, k)], snd (map_Delete hp key m))"

text \<open>C38. \<open>Map.forEach\<close> visits deleted entries: on a map with two entries, a callback that deletes the
  second entry during its first call is called a second time, with undefined for value and key,
  where ECMAScript skips the entry. The slots are collected before the first call and not checked
  again.\<close>

theorem map_forEach_visits_deleted:
  assumes t: "tagged_table_ok hp (impl m)" and "\<not> frozen m" "\<not> sealed m"
    and c: "contents (impl m) = [(s1, k1, v1, a1), (s2, k2, v2, a2)]" and k: "map_key m k2 = k2"
  shows "fst (map_ForEach (delete_key_cb hp k2) [] m) =
    [(nanbox_from_tagged v1, nanbox_from_tagged k1), (NANBOX_UNDEFINED, NANBOX_UNDEFINED)]"
proof -
  note s = table_okD(1) [OF t]
  obtain i1 i2 where i: "collect_ordered (impl m) = [i1, i2]" "quad (impl m) i1 = (s1, k1, v1, a1)"
    "quad (impl m) i2 = (s2, k2, v2, a2)"
    using c by (auto simp: contents_def map_eq_Cons_conv)
  have i2: "i2 \<in> live_set (impl m)" using set_collect_ordered [of "impl m"] i(1) by auto
  then have il: "i2 < length (entries (impl m))"
    using live_setD(1) [OF i2] shape_cap(6) [OF slots_okD(1) [OF s]] by simp
  have e: "e_key (entries (impl m) ! i2) = k2" "e_key (entries (impl m) ! i1) = k1" "e_value (entries (impl m) ! i1) = v1"
    using i(2,3) by (simp_all add: quad_def)
  have f: "find_slot (TsValueHash hp) (TsValueEqual hp) (impl m) k2 = Some i2"
    using find_slot_at [OF s i2] by (simp add: e)
  let ?e = "entries (impl (snd (map_Delete hp k2 m))) ! i2"
  have "e_key ?e = UNDEFINED \<and> e_value ?e = UNDEFINED"
    using assms(2,3) il by (simp add: map_Delete_def k ht_Delete_def f Let_def)
  then show ?thesis by (simp add: map_ForEach_def i(1) delete_key_cb_def e Let_def)
qed

theorem map_forEach_visits_deleted_witness:
  "\<exists>hp m. contents (impl m) = [(0, NUMBER_INT 1, NUMBER_INT 10, ATTR_DEFAULT), (1, NUMBER_INT 2, NUMBER_INT 20, ATTR_DEFAULT)] \<and>
     fst (map_ForEach (delete_key_cb hp (NUMBER_INT 2)) [] m) =
       [(nanbox_from_tagged (NUMBER_INT 10), nanbox_from_tagged (NUMBER_INT 1)), (NANBOX_UNDEFINED, NANBOX_UNDEFINED)]"
proof -
  fix hp
  have n8: "(8 :: nat) \<le> 2 ^ 28" by simp
  let ?t0 = "Create UNDEFINED 8 :: TsValue TsHashTable"
  note c0 = tagged.create_correct(1) [OF n8, of hp UNDEFINED] and c1 = tagged.create_correct(2,3) [OF n8, of UNDEFINED]
  have p: "proper_key (NUMBER_INT i)" for i by (simp add: proper_key_def)
  have "ht_size ?t0 \<le> 2 ^ 27" by (simp add: Create_def Let_def)
  from tagged.set_correct [OF c0 p this, of UNDEFINED 1 "NUMBER_INT 10"] obtain t1 where
    t1: "tagged_table_ok hp t1" "contents t1 = [(0, NUMBER_INT 1, NUMBER_INT 10, ATTR_DEFAULT)]" "insert_seq t1 = 1"
    by (auto simp: c1 od_put_def od_has_def simp del: set_contents)
  have "ht_size t1 \<le> 2 ^ 27" using tagged.size_correct [OF t1(1)] t1(2) by simp
  from tagged.set_correct [OF t1(1) p this, of UNDEFINED 2 "NUMBER_INT 20"] obtain t2 where
    t2: "tagged_table_ok hp t2"
      "contents t2 = [(0, NUMBER_INT 1, NUMBER_INT 10, ATTR_DEFAULT), (1, NUMBER_INT 2, NUMBER_INT 20, ATTR_DEFAULT)]"
    by (auto simp: t1(2,3) od_put_def od_has_def plain_equal_iff simp del: set_contents)
  let ?m = "map_Create\<lparr>impl := t2\<rparr>"
  have "fst (map_ForEach (delete_key_cb hp (NUMBER_INT 2)) [] ?m) =
       [(nanbox_from_tagged (NUMBER_INT 10), nanbox_from_tagged (NUMBER_INT 1)), (NANBOX_UNDEFINED, NANBOX_UNDEFINED)]"
    by (rule map_forEach_visits_deleted) (use t2 in \<open>simp_all add: map_Create_def map_key_def\<close>)
  then show ?thesis using t2(2) by (intro exI [of _ hp] exI [of _ ?m]) simp
qed

end
