(* ===== verification/TokenKind.thy ===== *)
theory TokenKind
  imports Main
begin

text \<open>
  The token kinds of the lexer, \<open>enum class TokenKind\<close> of \<open>src/src/compiler/parser/Lexer.h\<close>, in
  the source's order (which \<open>isKeyword\<close> compares by), with the keyword table, the names of the
  kinds and the two classifications of \<open>Lexer.cpp\<close>.
\<close>

datatype (plugins only: size) token_kind =
    NumericLiteral | StringLiteral | TemplateHead | TemplateMiddle | TemplateTail |
    NoSubstitutionTemplate | RegularExpressionLiteral | BigIntLiteral | Identifier | KW_break |
    KW_case | KW_catch | KW_class | KW_const | KW_continue | KW_debugger | KW_default |
    KW_delete | KW_do | KW_else | KW_enum | KW_export | KW_extends | KW_false | KW_finally |
    KW_for | KW_function | KW_if | KW_import | KW_in | KW_instanceof | KW_let | KW_new |
    KW_null | KW_return | KW_super | KW_switch | KW_this | KW_throw | KW_true | KW_try |
    KW_typeof | KW_undefined | KW_var | KW_void | KW_while | KW_with | KW_yield | KW_async |
    KW_await | KW_of | KW_from | KW_as | KW_get | KW_set | KW_type | KW_interface |
    KW_declare | KW_abstract | KW_implements | KW_readonly | KW_namespace | KW_module |
    KW_public | KW_private | KW_protected | KW_static | KW_constructor | KW_keyof | KW_infer |
    KW_is | KW_asserts | KW_satisfies | KW_override | KW_out | KW_require | OpenParen |
    CloseParen | OpenBrace | CloseBrace | OpenBracket | CloseBracket | Dot | DotDotDot |
    Semicolon | Comma | Colon | QuestionMark | QuestionDot | Arrow | At | Hash | Plus | Minus |
    Star | Slash | Percent | StarStar | Ampersand | Pipe | Caret | Tilde | ExclamationMark |
    LessThan | GreaterThan | LessThanEquals | GreaterThanEquals | EqualsEquals |
    ExclamationEquals | EqualsEqualsEquals | ExclamationEqualsEquals | PlusPlus | MinusMinus |
    LessThanLessThan | GreaterThanGreaterThan | GreaterThanGreaterThanGreaterThan |
    AmpersandAmpersand | PipePipe | QuestionQuestion | Equals | PlusEquals | MinusEquals |
    StarEquals | SlashEquals | PercentEquals | StarStarEquals | AmpersandEquals | PipeEquals |
    CaretEquals | LessThanLessThanEquals | GreaterThanGreaterThanEquals |
    GreaterThanGreaterThanGreaterThanEquals | AmpersandAmpersandEquals | PipePipeEquals |
    QuestionQuestionEquals | EndOfFile | Error | COUNT

primrec kind_index :: "token_kind \<Rightarrow> nat" where
  "kind_index NumericLiteral = 0"
| "kind_index StringLiteral = 1"
| "kind_index TemplateHead = 2"
| "kind_index TemplateMiddle = 3"
| "kind_index TemplateTail = 4"
| "kind_index NoSubstitutionTemplate = 5"
| "kind_index RegularExpressionLiteral = 6"
| "kind_index BigIntLiteral = 7"
| "kind_index Identifier = 8"
| "kind_index KW_break = 9"
| "kind_index KW_case = 10"
| "kind_index KW_catch = 11"
| "kind_index KW_class = 12"
| "kind_index KW_const = 13"
| "kind_index KW_continue = 14"
| "kind_index KW_debugger = 15"
| "kind_index KW_default = 16"
| "kind_index KW_delete = 17"
| "kind_index KW_do = 18"
| "kind_index KW_else = 19"
| "kind_index KW_enum = 20"
| "kind_index KW_export = 21"
| "kind_index KW_extends = 22"
| "kind_index KW_false = 23"
| "kind_index KW_finally = 24"
| "kind_index KW_for = 25"
| "kind_index KW_function = 26"
| "kind_index KW_if = 27"
| "kind_index KW_import = 28"
| "kind_index KW_in = 29"
| "kind_index KW_instanceof = 30"
| "kind_index KW_let = 31"
| "kind_index KW_new = 32"
| "kind_index KW_null = 33"
| "kind_index KW_return = 34"
| "kind_index KW_super = 35"
| "kind_index KW_switch = 36"
| "kind_index KW_this = 37"
| "kind_index KW_throw = 38"
| "kind_index KW_true = 39"
| "kind_index KW_try = 40"
| "kind_index KW_typeof = 41"
| "kind_index KW_undefined = 42"
| "kind_index KW_var = 43"
| "kind_index KW_void = 44"
| "kind_index KW_while = 45"
| "kind_index KW_with = 46"
| "kind_index KW_yield = 47"
| "kind_index KW_async = 48"
| "kind_index KW_await = 49"
| "kind_index KW_of = 50"
| "kind_index KW_from = 51"
| "kind_index KW_as = 52"
| "kind_index KW_get = 53"
| "kind_index KW_set = 54"
| "kind_index KW_type = 55"
| "kind_index KW_interface = 56"
| "kind_index KW_declare = 57"
| "kind_index KW_abstract = 58"
| "kind_index KW_implements = 59"
| "kind_index KW_readonly = 60"
| "kind_index KW_namespace = 61"
| "kind_index KW_module = 62"
| "kind_index KW_public = 63"
| "kind_index KW_private = 64"
| "kind_index KW_protected = 65"
| "kind_index KW_static = 66"
| "kind_index KW_constructor = 67"
| "kind_index KW_keyof = 68"
| "kind_index KW_infer = 69"
| "kind_index KW_is = 70"
| "kind_index KW_asserts = 71"
| "kind_index KW_satisfies = 72"
| "kind_index KW_override = 73"
| "kind_index KW_out = 74"
| "kind_index KW_require = 75"
| "kind_index OpenParen = 76"
| "kind_index CloseParen = 77"
| "kind_index OpenBrace = 78"
| "kind_index CloseBrace = 79"
| "kind_index OpenBracket = 80"
| "kind_index CloseBracket = 81"
| "kind_index Dot = 82"
| "kind_index DotDotDot = 83"
| "kind_index Semicolon = 84"
| "kind_index Comma = 85"
| "kind_index Colon = 86"
| "kind_index QuestionMark = 87"
| "kind_index QuestionDot = 88"
| "kind_index Arrow = 89"
| "kind_index At = 90"
| "kind_index Hash = 91"
| "kind_index Plus = 92"
| "kind_index Minus = 93"
| "kind_index Star = 94"
| "kind_index Slash = 95"
| "kind_index Percent = 96"
| "kind_index StarStar = 97"
| "kind_index Ampersand = 98"
| "kind_index Pipe = 99"
| "kind_index Caret = 100"
| "kind_index Tilde = 101"
| "kind_index ExclamationMark = 102"
| "kind_index LessThan = 103"
| "kind_index GreaterThan = 104"
| "kind_index LessThanEquals = 105"
| "kind_index GreaterThanEquals = 106"
| "kind_index EqualsEquals = 107"
| "kind_index ExclamationEquals = 108"
| "kind_index EqualsEqualsEquals = 109"
| "kind_index ExclamationEqualsEquals = 110"
| "kind_index PlusPlus = 111"
| "kind_index MinusMinus = 112"
| "kind_index LessThanLessThan = 113"
| "kind_index GreaterThanGreaterThan = 114"
| "kind_index GreaterThanGreaterThanGreaterThan = 115"
| "kind_index AmpersandAmpersand = 116"
| "kind_index PipePipe = 117"
| "kind_index QuestionQuestion = 118"
| "kind_index Equals = 119"
| "kind_index PlusEquals = 120"
| "kind_index MinusEquals = 121"
| "kind_index StarEquals = 122"
| "kind_index SlashEquals = 123"
| "kind_index PercentEquals = 124"
| "kind_index StarStarEquals = 125"
| "kind_index AmpersandEquals = 126"
| "kind_index PipeEquals = 127"
| "kind_index CaretEquals = 128"
| "kind_index LessThanLessThanEquals = 129"
| "kind_index GreaterThanGreaterThanEquals = 130"
| "kind_index GreaterThanGreaterThanGreaterThanEquals = 131"
| "kind_index AmpersandAmpersandEquals = 132"
| "kind_index PipePipeEquals = 133"
| "kind_index QuestionQuestionEquals = 134"
| "kind_index EndOfFile = 135"
| "kind_index Error = 136"
| "kind_index COUNT = 137"

definition all_kinds :: "token_kind list" where
  "all_kinds = [
     NumericLiteral, StringLiteral, TemplateHead, TemplateMiddle, TemplateTail,
     NoSubstitutionTemplate, RegularExpressionLiteral, BigIntLiteral, Identifier, KW_break,
     KW_case, KW_catch, KW_class, KW_const, KW_continue, KW_debugger, KW_default, KW_delete,
     KW_do, KW_else, KW_enum, KW_export, KW_extends, KW_false, KW_finally, KW_for, KW_function,
     KW_if, KW_import, KW_in, KW_instanceof, KW_let, KW_new, KW_null, KW_return, KW_super,
     KW_switch, KW_this, KW_throw, KW_true, KW_try, KW_typeof, KW_undefined, KW_var, KW_void,
     KW_while, KW_with, KW_yield, KW_async, KW_await, KW_of, KW_from, KW_as, KW_get, KW_set,
     KW_type, KW_interface, KW_declare, KW_abstract, KW_implements, KW_readonly, KW_namespace,
     KW_module, KW_public, KW_private, KW_protected, KW_static, KW_constructor, KW_keyof,
     KW_infer, KW_is, KW_asserts, KW_satisfies, KW_override, KW_out, KW_require, OpenParen,
     CloseParen, OpenBrace, CloseBrace, OpenBracket, CloseBracket, Dot, DotDotDot, Semicolon,
     Comma, Colon, QuestionMark, QuestionDot, Arrow, At, Hash, Plus, Minus, Star, Slash,
     Percent, StarStar, Ampersand, Pipe, Caret, Tilde, ExclamationMark, LessThan, GreaterThan,
     LessThanEquals, GreaterThanEquals, EqualsEquals, ExclamationEquals, EqualsEqualsEquals,
     ExclamationEqualsEquals, PlusPlus, MinusMinus, LessThanLessThan, GreaterThanGreaterThan,
     GreaterThanGreaterThanGreaterThan, AmpersandAmpersand, PipePipe, QuestionQuestion, Equals,
     PlusEquals, MinusEquals, StarEquals, SlashEquals, PercentEquals, StarStarEquals,
     AmpersandEquals, PipeEquals, CaretEquals, LessThanLessThanEquals,
     GreaterThanGreaterThanEquals, GreaterThanGreaterThanGreaterThanEquals,
     AmpersandAmpersandEquals, PipePipeEquals, QuestionQuestionEquals, EndOfFile, Error, COUNT]"

lemma all_kinds_index: "all_kinds ! kind_index a = a"
  by (cases a) (simp_all add: all_kinds_def)

lemma kind_index_inject: "kind_index a = kind_index b \<longleftrightarrow> a = b"
  by (metis all_kinds_index)

instantiation token_kind :: "{equal, linorder}"
begin

definition equal_token_kind :: "token_kind \<Rightarrow> token_kind \<Rightarrow> bool" where
  "equal_token_kind a b \<longleftrightarrow> kind_index a = kind_index b"

definition less_eq_token_kind :: "token_kind \<Rightarrow> token_kind \<Rightarrow> bool" where
  "a \<le> b \<longleftrightarrow> kind_index a \<le> kind_index b"

definition less_token_kind :: "token_kind \<Rightarrow> token_kind \<Rightarrow> bool" where
  "a < b \<longleftrightarrow> kind_index a < kind_index b"

instance
  by standard
    (auto simp: equal_token_kind_def less_eq_token_kind_def less_token_kind_def kind_index_inject)

end

section \<open>Tables\<close>

text \<open>The static \<open>Lexer::keywords_\<close>.\<close>

definition keyword_table :: "(string \<times> token_kind) list" where
  "keyword_table = [
     (''break'', KW_break), (''case'', KW_case), (''catch'', KW_catch), (''class'', KW_class),
     (''const'', KW_const), (''continue'', KW_continue), (''debugger'', KW_debugger),
     (''default'', KW_default), (''delete'', KW_delete), (''do'', KW_do), (''else'', KW_else),
     (''enum'', KW_enum), (''export'', KW_export), (''extends'', KW_extends),
     (''false'', KW_false), (''finally'', KW_finally), (''for'', KW_for),
     (''function'', KW_function), (''if'', KW_if), (''import'', KW_import), (''in'', KW_in),
     (''instanceof'', KW_instanceof), (''let'', KW_let), (''new'', KW_new),
     (''null'', KW_null), (''return'', KW_return), (''super'', KW_super),
     (''switch'', KW_switch), (''this'', KW_this), (''throw'', KW_throw), (''true'', KW_true),
     (''try'', KW_try), (''typeof'', KW_typeof), (''undefined'', KW_undefined),
     (''var'', KW_var), (''void'', KW_void), (''while'', KW_while), (''with'', KW_with),
     (''yield'', KW_yield), (''async'', KW_async), (''await'', KW_await), (''of'', KW_of),
     (''from'', KW_from), (''as'', KW_as), (''get'', KW_get), (''set'', KW_set),
     (''type'', KW_type), (''interface'', KW_interface), (''declare'', KW_declare),
     (''abstract'', KW_abstract), (''implements'', KW_implements), (''readonly'', KW_readonly),
     (''namespace'', KW_namespace), (''module'', KW_module), (''public'', KW_public),
     (''private'', KW_private), (''protected'', KW_protected), (''static'', KW_static),
     (''constructor'', KW_constructor), (''keyof'', KW_keyof), (''infer'', KW_infer),
     (''is'', KW_is), (''asserts'', KW_asserts), (''satisfies'', KW_satisfies),
     (''override'', KW_override), (''out'', KW_out), (''require'', KW_require)]"

definition identifierToKeyword :: "string \<Rightarrow> token_kind" where
  "identifierToKeyword text = (case map_of keyword_table text of Some k \<Rightarrow> k | None \<Rightarrow> Identifier)"

definition isKeyword :: "token_kind \<Rightarrow> bool" where
  "isKeyword k \<longleftrightarrow> KW_break \<le> k \<and> k \<le> KW_require"

definition token_names :: "(token_kind \<times> string) list" where
  "token_names = [
     (NumericLiteral, ''NumericLiteral''), (StringLiteral, ''StringLiteral''),
     (TemplateHead, ''TemplateHead''), (TemplateMiddle, ''TemplateMiddle''),
     (TemplateTail, ''TemplateTail''), (NoSubstitutionTemplate, ''NoSubstitutionTemplate''),
     (RegularExpressionLiteral, ''RegularExpressionLiteral''),
     (BigIntLiteral, ''BigIntLiteral''), (Identifier, ''Identifier''), (KW_break, ''break''),
     (KW_case, ''case''), (KW_catch, ''catch''), (KW_class, ''class''), (KW_const, ''const''),
     (KW_continue, ''continue''), (KW_debugger, ''debugger''), (KW_default, ''default''),
     (KW_delete, ''delete''), (KW_do, ''do''), (KW_else, ''else''), (KW_enum, ''enum''),
     (KW_export, ''export''), (KW_extends, ''extends''), (KW_false, ''false''),
     (KW_finally, ''finally''), (KW_for, ''for''), (KW_function, ''function''),
     (KW_if, ''if''), (KW_import, ''import''), (KW_in, ''in''),
     (KW_instanceof, ''instanceof''), (KW_let, ''let''), (KW_new, ''new''),
     (KW_null, ''null''), (KW_return, ''return''), (KW_super, ''super''),
     (KW_switch, ''switch''), (KW_this, ''this''), (KW_throw, ''throw''), (KW_true, ''true''),
     (KW_try, ''try''), (KW_typeof, ''typeof''), (KW_undefined, ''undefined''),
     (KW_var, ''var''), (KW_void, ''void''), (KW_while, ''while''), (KW_with, ''with''),
     (KW_yield, ''yield''), (KW_async, ''async''), (KW_await, ''await''), (KW_of, ''of''),
     (KW_from, ''from''), (KW_as, ''as''), (KW_get, ''get''), (KW_set, ''set''),
     (KW_type, ''type''), (KW_interface, ''interface''), (KW_declare, ''declare''),
     (KW_abstract, ''abstract''), (KW_implements, ''implements''), (KW_readonly, ''readonly''),
     (KW_namespace, ''namespace''), (KW_module, ''module''), (KW_public, ''public''),
     (KW_private, ''private''), (KW_protected, ''protected''), (KW_static, ''static''),
     (KW_constructor, ''constructor''), (KW_keyof, ''keyof''), (KW_infer, ''infer''),
     (KW_is, ''is''), (KW_asserts, ''asserts''), (KW_satisfies, ''satisfies''),
     (KW_override, ''override''), (KW_out, ''out''), (KW_require, ''require''),
     (OpenParen, ''(''), (CloseParen, '')''), (OpenBrace, ''{''), (CloseBrace, ''}''),
     (OpenBracket, ''[''), (CloseBracket, '']''), (Dot, ''.''), (DotDotDot, ''...''),
     (Semicolon, '';''), (Comma, '',''), (Colon, '':''), (QuestionMark, ''?''),
     (QuestionDot, ''?.''), (Arrow, ''=>''), (At, ''@''), (Hash, ''#''), (Plus, ''+''),
     (Minus, ''-''), (Star, ''*''), (Slash, ''/''), (Percent, ''%''), (StarStar, ''**''),
     (Ampersand, ''&''), (Pipe, ''|''), (Caret, ''^''), (Tilde, ''~''),
     (ExclamationMark, ''!''), (LessThan, ''<''), (GreaterThan, ''>''),
     (LessThanEquals, ''<=''), (GreaterThanEquals, ''>=''), (EqualsEquals, ''==''),
     (ExclamationEquals, ''!=''), (EqualsEqualsEquals, ''===''),
     (ExclamationEqualsEquals, ''!==''), (PlusPlus, ''++''), (MinusMinus, ''--''),
     (LessThanLessThan, ''<<''), (GreaterThanGreaterThan, ''>>''),
     (GreaterThanGreaterThanGreaterThan, ''>>>''), (AmpersandAmpersand, ''&&''),
     (PipePipe, ''||''), (QuestionQuestion, ''??''), (Equals, ''=''), (PlusEquals, ''+=''),
     (MinusEquals, ''-=''), (StarEquals, ''*=''), (SlashEquals, ''/=''),
     (PercentEquals, ''%=''), (StarStarEquals, ''**=''), (AmpersandEquals, ''&=''),
     (PipeEquals, ''|=''), (CaretEquals, ''^=''), (LessThanLessThanEquals, ''<<=''),
     (GreaterThanGreaterThanEquals, ''>>=''),
     (GreaterThanGreaterThanGreaterThanEquals, ''>>>=''), (AmpersandAmpersandEquals, ''&&=''),
     (PipePipeEquals, ''||=''), (QuestionQuestionEquals, ''??=''), (EndOfFile, ''EOF''),
     (Error, ''Error'')]"

definition tokenKindToString :: "token_kind \<Rightarrow> string" where
  "tokenKindToString k = (case map_of token_names k of Some s \<Rightarrow> s | None \<Rightarrow> ''<unknown>'')"

definition canStartStatement :: "token_kind \<Rightarrow> bool" where
  "canStartStatement k \<longleftrightarrow> k \<in> set [
     KW_var, KW_let, KW_const, KW_function, KW_class, KW_if, KW_while, KW_for, KW_do,
     KW_switch, KW_try, KW_throw, KW_return, KW_break, KW_continue, KW_import, KW_export,
     KW_enum, KW_interface, KW_type, KW_abstract, KW_declare, KW_async, KW_debugger, OpenBrace,
     Semicolon, At]"

definition isBinaryOperator :: "token_kind \<Rightarrow> bool" where
  "isBinaryOperator k \<longleftrightarrow> k \<in> set [
     Plus, Minus, Star, Slash, Percent, StarStar, Ampersand, Pipe, Caret, LessThan,
     GreaterThan, LessThanEquals, GreaterThanEquals, EqualsEquals, ExclamationEquals,
     EqualsEqualsEquals, ExclamationEqualsEquals, LessThanLessThan, GreaterThanGreaterThan,
     GreaterThanGreaterThanGreaterThan, AmpersandAmpersand, PipePipe, QuestionQuestion, KW_in,
     KW_instanceof, KW_as]"

end
