(* ===== verification/Lexer.thy ===== *)
theory Lexer
  imports Prelude TokenKind
begin

text \<open>
  The scanner of the compiler, \<open>class Lexer\<close> of \<open>src/src/compiler/parser/Lexer.cpp\<close>: its
  character access, whitespace and comments, identifiers, numbers, strings, templates, regular
  expressions and punctuation. The source buffer, the file name's goal and the external
  predicates stand in a record that no operation changes; the mutable members are a second
  record, passed on by every operation. A thrown \<open>std::runtime_error\<close> is a value of
  \<open>lex_error\<close>. Positions are byte offsets, as in the code; \<open>int\<close> does not wrap for sources
  below 2 GB.

  ICU's character properties and the probe of a regular expression by
  \<open>tsaot::validateRegExpLiteral\<close> are parameters.
\<close>

section \<open>Characters\<close>

abbreviation LF :: char where "LF \<equiv> CHR 0x0A"
abbreviation CR :: char where "CR \<equiv> CHR 0x0D"
abbreviation BACKSLASH :: char where "BACKSLASH \<equiv> CHR 0x5C"
abbreviation QUOTE :: char where "QUOTE \<equiv> CHR 0x27"

text \<open>The value of a byte as \<open>unsigned char\<close>, and as the \<open>char\<close> of the target, which is signed.\<close>

definition byte :: "char \<Rightarrow> nat" where
  "byte c = of_char c"

definition schar :: "char \<Rightarrow> int" where
  "schar c = (if byte c < 128 then int (byte c) else int (byte c) - 256)"

definition isDigit :: "char \<Rightarrow> bool" where
  "isDigit c \<longleftrightarrow> byte CHR ''0'' \<le> byte c \<and> byte c \<le> byte CHR ''9''"

definition isHexDigit :: "char \<Rightarrow> bool" where
  "isHexDigit c \<longleftrightarrow> isDigit c \<or> (byte CHR ''a'' \<le> byte c \<and> byte c \<le> byte CHR ''f'') \<or>
     (byte CHR ''A'' \<le> byte c \<and> byte c \<le> byte CHR ''F'')"

definition isIdentStart :: "char \<Rightarrow> bool" where
  "isIdentStart c \<longleftrightarrow> (byte CHR ''a'' \<le> byte c \<and> byte c \<le> byte CHR ''z'') \<or>
     (byte CHR ''A'' \<le> byte c \<and> byte c \<le> byte CHR ''Z'') \<or> c = CHR ''_'' \<or> c = CHR ''$''"

definition isIdentPart :: "char \<Rightarrow> bool" where
  "isIdentPart c \<longleftrightarrow> isIdentStart c \<or> isDigit c"

text \<open>The lambdas \<open>hexDigitValue\<close> and \<open>hexVal\<close>: \<open>None\<close> is the -1 (or the 0) of a character that
  is no hexadecimal digit.\<close>

definition hexVal :: "char \<Rightarrow> nat option" where
  "hexVal c =
     (if isDigit c then Some (byte c - byte CHR ''0'')
      else if byte CHR ''a'' \<le> byte c \<and> byte c \<le> byte CHR ''f'' then Some (byte c - byte CHR ''a'' + 10)
      else if byte CHR ''A'' \<le> byte c \<and> byte c \<le> byte CHR ''F'' then Some (byte c - byte CHR ''A'' + 10)
      else None)"

definition hexDigitValue :: "char \<Rightarrow> nat" where
  "hexDigitValue c = (case hexVal c of Some v \<Rightarrow> v | None \<Rightarrow> 0)"

section \<open>UTF-8\<close>

text \<open>\<open>decodeUtf8\<close>: the code point (\<open>None\<close> for -1) and the number of bytes.\<close>

definition follow :: "string \<Rightarrow> nat \<Rightarrow> nat option" where
  "follow p idx =
     (if idx < length p \<and> byte (p ! idx) AND 0xC0 = 0x80 then Some (byte (p ! idx) AND 0x3F) else None)"

definition decodeUtf8 :: "string \<Rightarrow> nat option \<times> nat" where
  "decodeUtf8 p =
     (if p = [] then (None, 0)
      else
        let b0 = byte (p ! 0)
        in if b0 < 0x80 then (Some b0, 1)
           else if b0 AND 0xE0 = 0xC0 then
             (case follow p 1 of
                None \<Rightarrow> (None, 1)
              | Some b1 \<Rightarrow> (Some (push_bit 6 (b0 AND 0x1F) OR b1), 2))
           else if b0 AND 0xF0 = 0xE0 then
             (case (follow p 1, follow p 2) of
                (Some b1, Some b2) \<Rightarrow> (Some (push_bit 12 (b0 AND 0x0F) OR push_bit 6 b1 OR b2), 3)
              | _ \<Rightarrow> (None, 1))
           else if b0 AND 0xF8 = 0xF0 then
             (case (follow p 1, follow p 2, follow p 3) of
                (Some b1, Some b2, Some b3) \<Rightarrow>
                  (Some (push_bit 18 (b0 AND 0x07) OR push_bit 12 b1 OR push_bit 6 b2 OR b3), 4)
              | _ \<Rightarrow> (None, 1))
           else (None, 1))"

text \<open>The encoder that is written out after every escape; the casts to \<open>char\<close> keep the low byte.\<close>

definition encodeUtf8 :: "int \<Rightarrow> string" where
  "encodeUtf8 cp =
     (if cp < 0x80 then [char_of cp]
      else if cp < 0x800 then [char_of (0xC0 OR drop_bit 6 cp), char_of (0x80 OR (cp AND 0x3F))]
      else if cp < 0x10000 then
        [char_of (0xE0 OR drop_bit 12 cp), char_of (0x80 OR (drop_bit 6 cp AND 0x3F)),
         char_of (0x80 OR (cp AND 0x3F))]
      else
        [char_of (0xF0 OR drop_bit 18 cp), char_of (0x80 OR (drop_bit 12 cp AND 0x3F)),
         char_of (0x80 OR (drop_bit 6 cp AND 0x3F)), char_of (0x80 OR (cp AND 0x3F))])"

text \<open>The encoder of the identifier scanner has no fourth case.\<close>

definition encodeUtf8_bmp :: "u32 \<Rightarrow> string" where
  "encodeUtf8_bmp cp =
     (if cp < 0x80 then [char_of (uint cp)]
      else if cp < 0x800 then
        [char_of (uint (0xC0 OR drop_bit 6 cp)), char_of (uint (0x80 OR (cp AND 0x3F)))]
      else
        [char_of (uint (0xE0 OR drop_bit 12 cp)), char_of (uint (0x80 OR (drop_bit 6 cp AND 0x3F))),
         char_of (uint (0x80 OR (cp AND 0x3F)))])"

section \<open>Tokens and state\<close>

record token =
  tk_kind :: token_kind
  tk_text :: string
  tk_line :: nat
  tk_column :: nat
  tk_offset :: nat
  hadNewlineBefore :: bool
  escapedReservedWord :: bool
  isLegacyOctal :: bool
  decodedText :: string

record lex_input =
  source :: string
  moduleGoal :: bool
  u_isIDStart :: "int \<Rightarrow> bool"
  u_isIDPart :: "int \<Rightarrow> bool"
  u_isUWhiteSpace :: "int \<Rightarrow> bool"
  validateRegExpLiteral :: "string \<Rightarrow> string \<Rightarrow> string option"

record lexer =
  pos :: nat
  line :: nat
  column :: nat
  tokenStartLine :: nat
  tokenStartColumn :: nat
  regexAllowed :: bool
  hadNewline :: bool
  hasEmittedToken :: bool
  sawEvalIdent :: bool
  errorCount :: nat
  lastError :: string
  templateBraceDepth :: "int list"
  braceDepth :: int

datatype property_fault =
  NoBrace | Unclosed | EmptyName | LeadingCaret | LeadingEquals

datatype lex_error =
    HtmlComment nat
  | UnterminatedComment nat nat
  | InvalidIdentifierEscape nat nat u32
  | IdentAfterNumericLiteral nat nat
  | UnterminatedString nat nat
  | UnterminatedRegExp nat nat
  | InvalidRegExp nat nat string
  | PropertyEscape nat nat property_fault

text \<open>The members' initial values.\<close>

definition new_lexer :: lexer where
  "new_lexer = \<lparr>pos = 0, line = 1, column = 1, tokenStartLine = 1, tokenStartColumn = 1,
     regexAllowed = True, hadNewline = False, hasEmittedToken = False, sawEvalIdent = False,
     errorCount = 0, lastError = [], templateBraceDepth = [], braceDepth = 0\<rparr>"

record lexer_state =
  st_pos :: nat
  st_line :: nat
  st_column :: nat
  st_tokenStartLine :: nat
  st_tokenStartColumn :: nat
  st_regexAllowed :: bool
  st_hadNewline :: bool
  st_templateBraceDepth :: "int list"
  st_braceDepth :: int

definition saveLexerState :: "lexer \<Rightarrow> lexer_state" where
  "saveLexerState s = \<lparr>st_pos = pos s, st_line = line s, st_column = column s,
     st_tokenStartLine = tokenStartLine s, st_tokenStartColumn = tokenStartColumn s,
     st_regexAllowed = regexAllowed s, st_hadNewline = hadNewline s,
     st_templateBraceDepth = templateBraceDepth s, st_braceDepth = braceDepth s\<rparr>"

definition restoreLexerState :: "lexer_state \<Rightarrow> lexer \<Rightarrow> lexer" where
  "restoreLexerState st s = s\<lparr>pos := st_pos st, line := st_line st, column := st_column st,
     tokenStartLine := st_tokenStartLine st, tokenStartColumn := st_tokenStartColumn st,
     regexAllowed := st_regexAllowed st, hadNewline := st_hadNewline st,
     templateBraceDepth := st_templateBraceDepth st, braceDepth := st_braceDepth st\<rparr>"

definition setRegexAllowed :: "bool \<Rightarrow> lexer \<Rightarrow> lexer" where
  "setRegexAllowed b s = s\<lparr>regexAllowed := b\<rparr>"

definition reportLexError :: "string \<Rightarrow> lexer \<Rightarrow> lexer" where
  "reportLexError msg s =
     s\<lparr>errorCount := errorCount s + 1, lastError := (if lastError s = [] then msg else lastError s)\<rparr>"

definition getSourceRange :: "lex_input \<Rightarrow> int \<Rightarrow> int \<Rightarrow> string" where
  "getSourceRange E start stop =
     (let a = max 0 start; b = min stop (int (length (source E)))
      in if a \<ge> b then [] else take (nat (b - a)) (drop (nat a) (source E)))"

section \<open>The cursor\<close>

definition peekAt :: "lex_input \<Rightarrow> lexer \<Rightarrow> nat \<Rightarrow> char" where
  "peekAt E s k = (if pos s + k < length (source E) then source E ! (pos s + k) else CHR 0x00)"

definition peek :: "lex_input \<Rightarrow> lexer \<Rightarrow> char" where
  "peek E s = peekAt E s 0"

definition isAtEnd :: "lex_input \<Rightarrow> lexer \<Rightarrow> bool" where
  "isAtEnd E s \<longleftrightarrow> length (source E) \<le> pos s"

text \<open>The character that \<open>advance\<close> returns is \<open>peek\<close>.\<close>

definition advance :: "lex_input \<Rightarrow> lexer \<Rightarrow> lexer" where
  "advance E s =
     (if length (source E) \<le> pos s then s
      else
        let c = source E ! pos s
        in if c = LF then s\<lparr>pos := pos s + 1, line := line s + 1, column := 1\<rparr>
           else if c = CR then
             s\<lparr>pos := (if pos s + 1 < length (source E) \<and> source E ! (pos s + 1) = LF then pos s + 2
                       else pos s + 1),
               line := line s + 1, column := 1\<rparr>
           else s\<lparr>pos := pos s + 1, column := column s + 1\<rparr>)"

primrec advances :: "lex_input \<Rightarrow> nat \<Rightarrow> lexer \<Rightarrow> lexer" where
  "advances E 0 s = s"
| "advances E (Suc n) s = advances E n (advance E s)"

definition rest :: "lex_input \<Rightarrow> lexer \<Rightarrow> string" where
  "rest E s = drop (pos s) (source E)"

lemma advance_pos: "\<not> isAtEnd E s \<Longrightarrow> pos s < pos (advance E s)"
  by (simp add: advance_def isAtEnd_def Let_def)

lemma advance_pos_le: "pos s \<le> pos (advance E s)"
  by (simp add: advance_def Let_def)

lemma advances_pos_le: "pos s \<le> pos (advances E n s)"
proof (induction n arbitrary: s)
  case (Suc n)
  then show ?case using advance_pos_le [of s E] le_trans by fastforce
qed simp

lemma advances_pos: "\<not> isAtEnd E s \<Longrightarrow> 0 < n \<Longrightarrow> pos s < pos (advances E n s)"
  using advance_pos [of E s] advances_pos_le [of "advance E s" E] by (cases n) (auto intro: less_le_trans)

lemma cursor_measure [termination_simp]:
  "\<not> isAtEnd E s \<Longrightarrow> length (source E) - pos (advance E s) < length (source E) - pos s"
  using advance_pos [of E s] by (auto simp: isAtEnd_def intro: diff_less_mono2)

lemma cursor_measure2: "\<not> isAtEnd E s \<Longrightarrow> pos s < pos t \<Longrightarrow> length (source E) - pos t < length (source E) - pos s"
  by (auto simp: isAtEnd_def)

text \<open>The loops that advance while a condition on the current character holds.\<close>

function skip_while :: "lex_input \<Rightarrow> (lexer \<Rightarrow> bool) \<Rightarrow> lexer \<Rightarrow> lexer" where
  "skip_while E P s = (if isAtEnd E s \<or> \<not> P s then s else skip_while E P (advance E s))"
  by pat_completeness auto
termination by (relation "measure (\<lambda>(E, P, s). length (source E) - pos s)") (auto simp: cursor_measure)

declare skip_while.simps [simp del]

definition makeToken :: "lex_input \<Rightarrow> lexer \<Rightarrow> token_kind \<Rightarrow> nat \<Rightarrow> token" where
  "makeToken E s k start = \<lparr>tk_kind = k, tk_text = take (pos s - start) (drop start (source E)),
     tk_line = tokenStartLine s, tk_column = tokenStartColumn s, tk_offset = start,
     hadNewlineBefore = hadNewline s, escapedReservedWord = False, isLegacyOctal = False, decodedText = []\<rparr>"

definition start_token :: "lexer \<Rightarrow> lexer" where
  "start_token s = s\<lparr>tokenStartLine := line s, tokenStartColumn := column s\<rparr>"

section \<open>Unicode classes\<close>

definition in_ranges :: "(int \<times> int) list \<Rightarrow> int \<Rightarrow> bool" where
  "in_ranges rs cp \<longleftrightarrow> list_ex (\<lambda>(a, b). a \<le> cp \<and> cp \<le> b) rs"

definition isUnicode16IdStart :: "int \<Rightarrow> bool" where
  "isUnicode16IdStart = in_ranges [
     (0x1C89, 0x1C8A), (0xA7CB, 0xA7CD), (0xA7DA, 0xA7DC), (0x105C0, 0x105F3),
     (0x10D4A, 0x10D65), (0x10D6F, 0x10D85), (0x10EC2, 0x10EC4), (0x11380, 0x11389),
     (0x1138B, 0x1138B), (0x1138E, 0x1138E), (0x11390, 0x113B5), (0x113B7, 0x113B7),
     (0x113D1, 0x113D1), (0x113D3, 0x113D3), (0x11BC0, 0x11BE0), (0x13460, 0x143FA),
     (0x16100, 0x1611D), (0x16D40, 0x16D6C), (0x18CFF, 0x18CFF), (0x1E5D0, 0x1E5ED),
     (0x1E5F0, 0x1E5F0)]"

definition isUnicode16IdContinueOnly :: "int \<Rightarrow> bool" where
  "isUnicode16IdContinueOnly = in_ranges [
     (0x0897, 0x0897), (0x10D40, 0x10D49), (0x10D69, 0x10D6D), (0x10EFC, 0x10EFC),
     (0x113B8, 0x113C0), (0x113C2, 0x113C2), (0x113C5, 0x113C5), (0x113C7, 0x113CA),
     (0x113CC, 0x113D0), (0x113D2, 0x113D2), (0x113E1, 0x113E2), (0x116D0, 0x116E3),
     (0x11BF0, 0x11BF9), (0x11F5A, 0x11F5A), (0x1611E, 0x16139), (0x16D70, 0x16D79),
     (0x1CCF0, 0x1CCF9), (0x1E5EE, 0x1E5EF), (0x1E5F1, 0x1E5FA)]"

text \<open>The number of bytes of the code point at the cursor when it is of the class, else 0.\<close>

definition isUnicodeIdentStartAt :: "lex_input \<Rightarrow> lexer \<Rightarrow> nat" where
  "isUnicodeIdentStartAt E s =
     (if isAtEnd E s \<or> byte (peek E s) < 0x80 then 0
      else case decodeUtf8 (rest E s) of
             (None, _) \<Rightarrow> 0
           | (Some cp, consumed) \<Rightarrow>
               if u_isIDStart E (int cp) then consumed
               else if isUnicode16IdStart (int cp) then consumed
               else 0)"

definition isUnicodeIdentPartAt :: "lex_input \<Rightarrow> lexer \<Rightarrow> nat" where
  "isUnicodeIdentPartAt E s =
     (if isAtEnd E s \<or> byte (peek E s) < 0x80 then 0
      else case decodeUtf8 (rest E s) of
             (None, _) \<Rightarrow> 0
           | (Some cp, consumed) \<Rightarrow>
               if u_isIDPart E (int cp) then consumed
               else if cp = 0x200C \<or> cp = 0x200D then consumed
               else if isUnicode16IdStart (int cp) then consumed
               else if isUnicode16IdContinueOnly (int cp) then consumed
               else 0)"

text \<open>With the flag that the code point is a line terminator.\<close>

definition isUnicodeWhitespaceAt :: "lex_input \<Rightarrow> lexer \<Rightarrow> nat \<times> bool" where
  "isUnicodeWhitespaceAt E s =
     (if isAtEnd E s \<or> byte (peek E s) < 0x80 then (0, False)
      else case decodeUtf8 (rest E s) of
             (None, _) \<Rightarrow> (0, False)
           | (Some cp, consumed) \<Rightarrow>
               if cp = 0x2028 \<or> cp = 0x2029 then (consumed, True)
               else if u_isUWhiteSpace E (int cp) \<or> cp = 0xFEFF then (consumed, False)
               else (0, False))"

section \<open>Whitespace and comments\<close>

text \<open>The bytes of U+2028 or U+2029 at the cursor.\<close>

definition at_line_sep :: "lex_input \<Rightarrow> lexer \<Rightarrow> bool" where
  "at_line_sep E s \<longleftrightarrow> byte (peek E s) = 0xE2 \<and> byte (peekAt E s 1) = 0x80 \<and>
     (byte (peekAt E s 2) = 0xA8 \<or> byte (peekAt E s 2) = 0xA9)"

text \<open>The rest of a single-line, HTML-like or hashbang comment.\<close>

definition skip_line :: "lex_input \<Rightarrow> lexer \<Rightarrow> lexer" where
  "skip_line E = skip_while E (\<lambda>s. peek E s \<noteq> LF \<and> peek E s \<noteq> CR \<and> \<not> at_line_sep E s)"

definition block_step :: "lex_input \<Rightarrow> lexer \<Rightarrow> lexer" where
  "block_step E s =
     (if peek E s = LF \<or> peek E s = CR then advance E (s\<lparr>hadNewline := True\<rparr>)
      else if byte (peek E s) \<ge> 0x80 then
        (let (n, isLineTerm) = isUnicodeWhitespaceAt E s
         in if n > 0 then advances E n (if isLineTerm then s\<lparr>hadNewline := True\<rparr> else s)
            else advance E s)
      else advance E s)"

lemma block_step_pos: "\<not> isAtEnd E s \<Longrightarrow> pos s < pos (block_step E s)"
  using advance_pos [of E s] advance_pos [of E "s\<lparr>hadNewline := True\<rparr>"]
    advances_pos [of E s] advances_pos [of E "s\<lparr>hadNewline := True\<rparr>"]
  by (auto simp: block_step_def isAtEnd_def split: prod.split)

text \<open>The body of a multi-line comment; the flag says that it was closed.\<close>

function block_comment :: "lex_input \<Rightarrow> lexer \<Rightarrow> bool \<times> lexer" where
  "block_comment E s =
     (if isAtEnd E s then (False, s)
      else if peek E s = CHR ''*'' \<and> peekAt E s 1 = CHR ''/'' then (True, advances E 2 s)
      else block_comment E (block_step E s))"
  by pat_completeness auto
termination
  by (relation "measure (\<lambda>(E, s). length (source E) - pos s)") (auto simp: cursor_measure2 block_step_pos)

declare block_comment.simps [simp del]

text \<open>One turn of the loop of \<open>skipWhitespaceAndComments\<close>; \<open>None\<close> leaves it.\<close>

definition skip_step :: "lex_input \<Rightarrow> lexer \<Rightarrow> lex_error + lexer option" where
  "skip_step E s =
     (let c = peek E s
      in if c \<in> {CHR '' '', CHR 0x09, CHR 0x0B, CHR 0x0C} then Inr (Some (advance E s))
         else if c = LF \<or> c = CR then Inr (Some (advance E (s\<lparr>hadNewline := True\<rparr>)))
         else if byte c \<ge> 0x80 then
           (let (n, isLineTerm) = isUnicodeWhitespaceAt E s
            in if n = 0 then Inr None
               else Inr (Some (advances E n (if isLineTerm then s\<lparr>hadNewline := True\<rparr> else s))))
         else if c = CHR ''/'' \<and> peekAt E s 1 = CHR ''/'' then Inr (Some (skip_line E (advances E 2 s)))
         else if c = CHR ''<'' \<and> peekAt E s 1 = CHR ''!'' \<and> peekAt E s 2 = CHR ''-'' \<and>
                 peekAt E s 3 = CHR ''-'' then
           (if moduleGoal E then Inl (HtmlComment (line s))
            else Inr (Some (skip_line E (advances E 4 s))))
         else if c = CHR ''-'' \<and> peekAt E s 1 = CHR ''-'' \<and> peekAt E s 2 = CHR ''>'' \<and>
                 (hadNewline s \<or> \<not> hasEmittedToken s) then
           (if moduleGoal E then Inl (HtmlComment (line s))
            else Inr (Some (skip_line E (advances E 3 s))))
         else if c = CHR ''/'' \<and> peekAt E s 1 = CHR ''*'' then
           (let (closed, s') = block_comment E (advances E 2 s)
            in if closed then Inr (Some s') else Inl (UnterminatedComment (line s) (column s)))
         else if c = CHR ''#'' \<and> pos s = 0 \<and> peekAt E s 1 = CHR ''!'' then
           Inr (Some (skip_line E (advances E 2 s)))
         else Inr None)"

lemma skip_while_pos_le: "pos s \<le> pos (skip_while E P s)"
  by (induction E P s rule: skip_while.induct)
    (subst skip_while.simps, use advance_pos_le le_trans in fastforce)

lemma block_comment_pos_le: "pos s \<le> pos (snd (block_comment E s))"
proof (induction E s rule: block_comment.induct)
  case (1 E s)
  then show ?case
    using block_step_pos [of E s] advances_pos_le [of s E 2]
    by (subst block_comment.simps) (auto intro: le_trans [OF less_imp_le])
qed

lemma skip_step_pos:
  assumes "skip_step E s = Inr (Some t)" and "\<not> isAtEnd E s"
  shows "pos s < pos t"
proof -
  note a = assms(2) advance_pos [OF assms(2)] advances_pos [OF assms(2)]
  have h: "pos s < pos (advance E (s\<lparr>hadNewline := True\<rparr>))" "0 < n \<Longrightarrow> pos s < pos (advances E n (s\<lparr>hadNewline := True\<rparr>))" for n
    using assms(2) advance_pos [of E "s\<lparr>hadNewline := True\<rparr>"] advances_pos [of E "s\<lparr>hadNewline := True\<rparr>"]
    by (auto simp: isAtEnd_def)
  have l: "0 < n \<Longrightarrow> pos s < pos (skip_line E (advances E n s))" for n
    using a(3) skip_while_pos_le less_le_trans unfolding skip_line_def by blast
  have b: "pos s < pos (snd (block_comment E (advances E 2 s)))"
    using a(3) block_comment_pos_le less_le_trans by (metis zero_less_numeral)
  show ?thesis
    using assms(1) a h l b
    by (auto simp: skip_step_def Let_def simp del: advances.simps split: if_splits prod.splits)
qed

function skipWhitespaceAndComments :: "lex_input \<Rightarrow> lexer \<Rightarrow> lex_error + lexer" where
  "skipWhitespaceAndComments E s =
     (if isAtEnd E s then Inr s
      else case skip_step E s of
             Inl e \<Rightarrow> Inl e
           | Inr None \<Rightarrow> Inr s
           | Inr (Some t) \<Rightarrow> skipWhitespaceAndComments E t)"
  by pat_completeness auto
termination
  by (relation "measure (\<lambda>(E, s). length (source E) - pos s)") (auto simp: cursor_measure2 skip_step_pos)

declare skipWhitespaceAndComments.simps [simp del]

section \<open>Identifiers and keywords\<close>

text \<open>The digits of \<open>\u{...}\<close>, and at most \<open>n\<close> digits; the 32-bit code point wraps around.\<close>

function hex_run :: "lex_input \<Rightarrow> u32 \<Rightarrow> lexer \<Rightarrow> u32 \<times> lexer" where
  "hex_run E cp s =
     (if isAtEnd E s \<or> \<not> isHexDigit (peek E s) then (cp, s)
      else hex_run E (cp * 16 + of_nat (hexDigitValue (peek E s))) (advance E s))"
  by pat_completeness auto
termination by (relation "measure (\<lambda>(E, cp, s). length (source E) - pos s)") (auto simp: cursor_measure)

declare hex_run.simps [simp del]

primrec hex_upto :: "lex_input \<Rightarrow> nat \<Rightarrow> u32 \<Rightarrow> lexer \<Rightarrow> u32 \<times> lexer" where
  "hex_upto E 0 cp s = (cp, s)"
| "hex_upto E (Suc n) cp s =
     (if isAtEnd E s \<or> \<not> isHexDigit (peek E s) then (cp, s)
      else hex_upto E n (cp * 16 + of_nat (hexDigitValue (peek E s))) (advance E s))"

definition ident_escape :: "lex_input \<Rightarrow> lexer \<Rightarrow> u32 \<times> lexer" where
  "ident_escape E s =
     (let s1 = advances E 2 s
      in if \<not> isAtEnd E s1 \<and> peek E s1 = CHR ''{'' then
           (let (cp, s2) = hex_run E 0 (advance E s1)
            in (cp, if \<not> isAtEnd E s2 \<and> peek E s2 = CHR ''}'' then advance E s2 else s2))
         else hex_upto E 4 0 s1)"

definition escape_start :: "lex_input \<Rightarrow> u32 \<Rightarrow> bool" where
  "escape_start E cp \<longleftrightarrow> cp = 0x24 \<or> cp = 0x5F \<or> u_isIDStart E (sint cp) \<or> isUnicode16IdStart (sint cp)"

definition escape_part :: "lex_input \<Rightarrow> u32 \<Rightarrow> bool" where
  "escape_part E cp \<longleftrightarrow> escape_start E cp \<or> cp = 0x200C \<or> cp = 0x200D \<or> u_isIDPart E (sint cp) \<or>
     isUnicode16IdContinueOnly (sint cp)"

text \<open>One turn of the loop, on the first character or a later one; \<open>None\<close> leaves it.\<close>

definition ident_step :: "lex_input \<Rightarrow> bool \<Rightarrow> lexer \<Rightarrow> lex_error + lexer option" where
  "ident_step E isFirstChar s =
     (let c = peek E s
      in if byte c \<ge> 0x80 then
           (let n = (if isFirstChar then isUnicodeIdentStartAt E s else isUnicodeIdentPartAt E s)
            in if n = 0 then Inr None else Inr (Some (advances E n s)))
         else if (if isFirstChar then isIdentStart c else isIdentPart c) then Inr (Some (advance E s))
         else if c = BACKSLASH \<and> peekAt E s 1 = CHR ''u'' then
           (let (cp, s') = ident_escape E s
            in if (if isFirstChar then escape_start E cp else escape_part E cp) then Inr (Some s')
               else Inl (InvalidIdentifierEscape (line s) (column s) cp))
         else Inr None)"

lemma hex_run_pos_le: "pos s \<le> pos (snd (hex_run E cp s))"
proof (induction E cp s rule: hex_run.induct)
  case (1 E cp s)
  then show ?case
    using advance_pos_le [of s E] by (subst hex_run.simps) (auto intro: le_trans)
qed

lemma hex_upto_pos_le: "pos s \<le> pos (snd (hex_upto E n cp s))"
  by (induction n arbitrary: cp s) (auto intro: le_trans [OF advance_pos_le])

lemma ident_escape_pos: "\<not> isAtEnd E s \<Longrightarrow> pos s < pos (snd (ident_escape E s))"
proof -
  assume a: "\<not> isAtEnd E s"
  let ?s1 = "advances E 2 s"
  have 1: "pos s < pos ?s1" using advances_pos [OF a] by (metis zero_less_numeral)
  have 2: "pos ?s1 \<le> pos (snd (hex_run E 0 (advance E ?s1)))"
    using advance_pos_le hex_run_pos_le le_trans by blast
  then have 3: "pos ?s1 \<le> pos (advance E (snd (hex_run E 0 (advance E ?s1))))"
    using advance_pos_le le_trans by blast
  show ?thesis
    using 1 2 3 hex_upto_pos_le [of ?s1 E 4 0]
    by (auto simp: ident_escape_def Let_def split_beta simp del: advances.simps)
qed

lemma ident_step_pos:
  assumes "ident_step E f s = Inr (Some t)" and "\<not> isAtEnd E s"
  shows "pos s < pos t"
  using assms(1) assms(2) advance_pos [OF assms(2)] advances_pos [OF assms(2)] ident_escape_pos [OF assms(2)]
  by (auto simp: ident_step_def Let_def split_beta split: if_splits)

function ident_loop :: "lex_input \<Rightarrow> bool \<Rightarrow> lexer \<Rightarrow> lex_error + lexer" where
  "ident_loop E isFirstChar s =
     (if isAtEnd E s then Inr s
      else case ident_step E isFirstChar s of
             Inl e \<Rightarrow> Inl e
           | Inr None \<Rightarrow> Inr s
           | Inr (Some t) \<Rightarrow> ident_loop E False t)"
  by pat_completeness auto
termination
  by (relation "measure (\<lambda>(E, f, s). length (source E) - pos s)") (auto simp: cursor_measure2 ident_step_pos)

declare ident_loop.simps [simp del]

text \<open>The second decoding, of the token's text: here every character counts as a digit, with the
  value that signed \<open>char\<close> arithmetic gives it.\<close>

definition raw_digit :: "char \<Rightarrow> u32" where
  "raw_digit c =
     word_of_int (if isDigit c then schar c - 48 else if schar c \<ge> 97 then schar c - 97 + 10 else schar c - 65 + 10)"

definition raw_hex :: "string \<Rightarrow> u32" where
  "raw_hex ds = foldl (\<lambda>cp c. cp * 16 + raw_digit c) 0 ds"

function decode_ident :: "string \<Rightarrow> string" where
  "decode_ident [] = []"
| "decode_ident (c # cs) =
     (if c = BACKSLASH \<and> cs \<noteq> [] \<and> hd cs = CHR ''u'' then
        (let r = tl cs
         in if r \<noteq> [] \<and> hd r = CHR ''{'' then
              encodeUtf8_bmp (raw_hex (takeWhile (\<lambda>c. c \<noteq> CHR ''}'') (tl r))) @
                decode_ident (drop 1 (dropWhile (\<lambda>c. c \<noteq> CHR ''}'') (tl r)))
            else encodeUtf8_bmp (raw_hex (take 4 r)) @ decode_ident (drop 4 r))
      else c # decode_ident cs)"
  by pat_completeness auto
termination
proof (relation "measure length", goal_cases)
  case (2 c cs x)
  then show ?case using length_dropWhile_le [of "\<lambda>c. c \<noteq> CHR ''}''" "tl x"] by simp
qed auto

declare decode_ident.simps [simp del]

definition scanIdentifierOrKeyword :: "lex_input \<Rightarrow> lexer \<Rightarrow> lex_error + token \<times> lexer" where
  "scanIdentifierOrKeyword E s0 =
     (let start = pos s0; s = start_token s0
      in case ident_loop E True s of
           Inl e \<Rightarrow> Inl e
         | Inr s \<Rightarrow>
             let text = take (pos s - start) (drop start (source E))
             in if BACKSLASH \<notin> set text then
                  (case map_of keyword_table text of
                     Some k \<Rightarrow> Inr (makeToken E s k start, s)
                   | None \<Rightarrow>
                       Inr (makeToken E s Identifier start,
                         if pos s - start = 4 \<and> text = ''eval'' then s\<lparr>sawEvalIdent := True\<rparr> else s))
                else
                  (let decoded = decode_ident text; tok = makeToken E s Identifier start
                   in case map_of keyword_table decoded of
                        Some k \<Rightarrow>
                          if k = KW_async then Inr (tok\<lparr>decodedText := decoded\<rparr>, s)
                          else Inr (tok\<lparr>escapedReservedWord := True, decodedText := decoded\<rparr>, s)
                      | None \<Rightarrow>
                          Inr (tok\<lparr>decodedText := decoded\<rparr>,
                            if decoded = ''eval'' then s\<lparr>sawEvalIdent := True\<rparr> else s)))"

section \<open>Numbers\<close>

definition isOctalDigit :: "char \<Rightarrow> bool" where
  "isOctalDigit c \<longleftrightarrow> byte CHR ''0'' \<le> byte c \<and> byte c \<le> byte CHR ''7''"

definition isBinaryDigit :: "char \<Rightarrow> bool" where
  "isBinaryDigit c \<longleftrightarrow> c = CHR ''0'' \<or> c = CHR ''1''"

text \<open>The helper of the same name. Its callers ignore the boolean result.\<close>

function digits_loop :: "lex_input \<Rightarrow> (char \<Rightarrow> bool) \<Rightarrow> string \<Rightarrow> bool \<Rightarrow> bool \<Rightarrow> lexer \<Rightarrow> lexer" where
  "digits_loop E isDigitFn ctxt prevWasSep prevWasDigit s =
     (let fin = (if prevWasSep then reportLexError (''Numeric separator cannot be at end of '' @ ctxt) s else s)
      in if isAtEnd E s then fin
         else if isDigitFn (peek E s) then digits_loop E isDigitFn ctxt False True (advance E s)
         else if peek E s = CHR ''_'' then
           (if prevWasSep then
              advance E (reportLexError (''Only one underscore is allowed as numeric separator in '' @ ctxt) s)
            else if \<not> prevWasDigit then
              advance E (reportLexError (''Numeric separator must follow a digit in '' @ ctxt) s)
            else digits_loop E isDigitFn ctxt True False (advance E s))
         else fin)"
  by pat_completeness auto
termination
  by (relation "measure (\<lambda>(E, d, c, p, q, s). length (source E) - pos s)") (auto simp: cursor_measure)

declare digits_loop.simps [simp del]

definition consumeDigitsWithSeparators :: "lex_input \<Rightarrow> (char \<Rightarrow> bool) \<Rightarrow> string \<Rightarrow> lexer \<Rightarrow> lexer" where
  "consumeDigitsWithSeparators E isDigitFn ctxt s = digits_loop E isDigitFn ctxt False False s"

text \<open>\<open>rejectIdentAfterLiteral\<close> before the token is made.\<close>

definition number_token :: "lex_input \<Rightarrow> token_kind \<Rightarrow> nat \<Rightarrow> lexer \<Rightarrow> lex_error + token \<times> lexer" where
  "number_token E k start s =
     (if \<not> isAtEnd E s \<and> (isIdentStart (peek E s) \<or> isDigit (peek E s))
      then Inl (IdentAfterNumericLiteral (tokenStartLine s) (tokenStartColumn s))
      else Inr (makeToken E s k start, s))"

definition suffixed_number :: "lex_input \<Rightarrow> nat \<Rightarrow> lexer \<Rightarrow> lex_error + token \<times> lexer" where
  "suffixed_number E start s =
     (if \<not> isAtEnd E s \<and> peek E s = CHR ''n'' then number_token E BigIntLiteral start (advance E s)
      else number_token E NumericLiteral start s)"

text \<open>The three branches after a prefix differ in the digits and the messages.\<close>

definition prefixed_number ::
  "lex_input \<Rightarrow> (char \<Rightarrow> bool) \<Rightarrow> string \<Rightarrow> string \<Rightarrow> nat \<Rightarrow> lexer \<Rightarrow> lex_error + token \<times> lexer" where
  "prefixed_number E isDigitFn prefx ctxt start s =
     (let s1 = advance E s;
          s2 = (if peek E s1 = CHR ''_''
                then reportLexError (''Numeric separator cannot be after '' @ prefx @ '' prefix'') s1 else s1)
      in suffixed_number E start (consumeDigitsWithSeparators E isDigitFn ctxt s2))"

definition legacy_number :: "lex_input \<Rightarrow> nat \<Rightarrow> lexer \<Rightarrow> lex_error + token \<times> lexer" where
  "legacy_number E start s0 =
     (let s = skip_while E (\<lambda>s. isDigit (peek E s)) s0
      in if \<not> isAtEnd E s \<and> peek E s = CHR ''n'' then
           (let s' = advance E (reportLexError ''BigInt literal cannot use legacy octal notation'' s)
            in Inr (makeToken E s' BigIntLiteral start, s'))
         else case number_token E NumericLiteral start s of
                Inl e \<Rightarrow> Inl e
              | Inr (t, s') \<Rightarrow> Inr (t\<lparr>isLegacyOctal := True\<rparr>, s'))"

text \<open>The parts of a decimal literal after its integer digits, with the flags
  \<open>hasDecimalPoint\<close> and \<open>hasExponent\<close>.\<close>

definition fraction_part :: "lex_input \<Rightarrow> lexer \<Rightarrow> bool \<times> lexer" where
  "fraction_part E s =
     (if \<not> isAtEnd E s \<and> peek E s = CHR ''.''
      then (True, consumeDigitsWithSeparators E isDigit ''decimal fraction'' (advance E s))
      else (False, s))"

definition exponent_part :: "lex_input \<Rightarrow> lexer \<Rightarrow> bool \<times> lexer" where
  "exponent_part E s =
     (if \<not> isAtEnd E s \<and> (peek E s = CHR ''e'' \<or> peek E s = CHR ''E'') then
        (let s1 = advance E s;
             s2 = (if \<not> isAtEnd E s1 \<and> (peek E s1 = CHR ''+'' \<or> peek E s1 = CHR ''-'')
                   then advance E s1 else s1)
         in (True, consumeDigitsWithSeparators E isDigit ''exponent'' s2))
      else (False, s))"

definition decimal_number :: "lex_input \<Rightarrow> nat \<Rightarrow> lexer \<Rightarrow> lex_error + token \<times> lexer" where
  "decimal_number E start s0 =
     (let s1 = consumeDigitsWithSeparators E isDigit ''decimal literal'' s0;
          (hasDecimalPoint, s2) = fraction_part E s1;
          (hasExponent, s3) = exponent_part E s2
      in if \<not> isAtEnd E s3 \<and> peek E s3 = CHR ''n'' then
           (let s4 = (if hasDecimalPoint
                      then reportLexError ''BigInt literal cannot have a decimal point'' s3 else s3);
                s5 = (if hasExponent
                      then reportLexError ''BigInt literal cannot have an exponent'' s4 else s4)
            in number_token E BigIntLiteral start (advance E s5))
         else number_token E NumericLiteral start s3)"

definition scanNumericLiteral :: "lex_input \<Rightarrow> lexer \<Rightarrow> lex_error + token \<times> lexer" where
  "scanNumericLiteral E s0 =
     (let start = pos s0; s = start_token s0
      in if peek E s = CHR ''0'' then
           (let s1 = advance E s; nxt = peek E s1
            in if nxt = CHR ''x'' \<or> nxt = CHR ''X'' then prefixed_number E isHexDigit ''0x'' ''hex literal'' start s1
               else if nxt = CHR ''o'' \<or> nxt = CHR ''O'' then
                 prefixed_number E isOctalDigit ''0o'' ''octal literal'' start s1
               else if nxt = CHR ''b'' \<or> nxt = CHR ''B'' then
                 prefixed_number E isBinaryDigit ''0b'' ''binary literal'' start s1
               else if isDigit nxt then legacy_number E start s1
               else decimal_number E start s1)
         else decimal_number E start s)"

section \<open>Strings and templates\<close>

text \<open>One turn of the loop of \<open>scanStringLiteral\<close>; the loop ends at the closing quote.\<close>

definition string_step :: "lex_input \<Rightarrow> lexer \<Rightarrow> lex_error + lexer" where
  "string_step E s =
     (if peek E s = BACKSLASH then
        (let s1 = advance E s
         in Inr (if isAtEnd E s1 then s1
                 else if peek E s1 = CR then
                   (let s2 = advance E s1 in if \<not> isAtEnd E s2 \<and> peek E s2 = LF then advance E s2 else s2)
                 else advance E s1))
      else if peek E s = LF \<or> peek E s = CR then
        Inl (UnterminatedString (tokenStartLine s) (tokenStartColumn s))
      else Inr (advance E s))"

lemma string_step_pos: "string_step E s = Inr t \<Longrightarrow> \<not> isAtEnd E s \<Longrightarrow> pos s < pos t"
  using advance_pos [of E s] advance_pos_le [of "advance E s" E] advance_pos_le [of "advance E (advance E s)" E]
  by (auto simp: string_step_def Let_def split: if_splits)

function string_loop :: "lex_input \<Rightarrow> char \<Rightarrow> lexer \<Rightarrow> lex_error + lexer" where
  "string_loop E q s =
     (if isAtEnd E s \<or> peek E s = q then Inr s
      else case string_step E s of Inl e \<Rightarrow> Inl e | Inr t \<Rightarrow> string_loop E q t)"
  by pat_completeness auto
termination
  by (relation "measure (\<lambda>(E, q, s). length (source E) - pos s)") (auto simp: cursor_measure2 string_step_pos)

declare string_loop.simps [simp del]

definition scanStringLiteral :: "lex_input \<Rightarrow> char \<Rightarrow> lexer \<Rightarrow> lex_error + token \<times> lexer" where
  "scanStringLiteral E q s0 =
     (let start = pos s0
      in case string_loop E q (advance E (start_token s0)) of
           Inl e \<Rightarrow> Inl e
         | Inr s \<Rightarrow>
             let s' = (if isAtEnd E s then s else advance E s)
             in Inr (makeToken E s' StringLiteral start, s'))"

text \<open>The loop that \<open>scanTemplateLiteral\<close> and \<open>scanTemplateContinuation\<close> share: it ends after an
  opening of a substitution (\<open>Some True\<close>), after the closing backtick (\<open>Some False\<close>) or at the end of
  the source.\<close>

function template_loop :: "lex_input \<Rightarrow> lexer \<Rightarrow> bool option \<times> lexer" where
  "template_loop E s =
     (if isAtEnd E s then (None, s)
      else if peek E s = BACKSLASH then
        template_loop E (let s1 = advance E s in if isAtEnd E s1 then s1 else advance E s1)
      else if peek E s = CHR ''$'' \<and> peekAt E s 1 = CHR ''{'' then (Some True, advances E 2 s)
      else if peek E s = CHR ''`'' then (Some False, advance E s)
      else template_loop E (advance E s))"
  by pat_completeness auto
termination
proof (relation "measure (\<lambda>(E, s). length (source E) - pos s)", goal_cases)
  case (2 E s)
  then show ?case
    using advance_pos [of E s] advance_pos_le [of "advance E s" E] cursor_measure2 [of E s]
    by (auto simp: Let_def)
qed (auto simp: cursor_measure)

declare template_loop.simps [simp del]

definition push_brace :: "lexer \<Rightarrow> lexer" where
  "push_brace s = s\<lparr>templateBraceDepth := templateBraceDepth s @ [braceDepth s]\<rparr>"

definition template_token ::
  "lex_input \<Rightarrow> token_kind \<Rightarrow> token_kind \<Rightarrow> nat \<Rightarrow> lexer \<Rightarrow> token \<times> lexer" where
  "template_token E opened finished start s0 =
     (case template_loop E s0 of
        (Some True, s) \<Rightarrow> (makeToken E (push_brace s) opened start, push_brace s)
      | (_, s) \<Rightarrow> (makeToken E s finished start, s))"

definition scanTemplateLiteral :: "lex_input \<Rightarrow> lexer \<Rightarrow> token \<times> lexer" where
  "scanTemplateLiteral E s0 =
     template_token E TemplateHead NoSubstitutionTemplate (pos s0) (advance E (start_token s0))"

text \<open>Called at the brace that closes a substitution, with a nonempty stack.\<close>

definition scanTemplateContinuation :: "lex_input \<Rightarrow> lexer \<Rightarrow> token \<times> lexer" where
  "scanTemplateContinuation E s0 =
     (let s = advance E (start_token s0)
      in template_token E TemplateMiddle TemplateTail (pos s0)
           (s\<lparr>templateBraceDepth := butlast (templateBraceDepth s)\<rparr>))"

section \<open>Regular expressions\<close>

text \<open>The body up to the closing slash; \<open>None\<close> when it is not closed on the line.\<close>

definition regex_step :: "lex_input \<Rightarrow> bool \<Rightarrow> lexer \<Rightarrow> (bool \<times> lexer) option" where
  "regex_step E inCharClass s =
     (let c = peek E s
      in if c = BACKSLASH then
           (let s1 = advance E s
            in if \<not> isAtEnd E s1 \<and> (peek E s1 = LF \<or> peek E s1 = CR \<or> at_line_sep E s1) then None
               else Some (inCharClass, if isAtEnd E s1 then s1 else advance E s1))
         else if c = CHR ''['' then Some (True, advance E s)
         else if c = CHR '']'' then Some (False, advance E s)
         else if c = LF \<or> c = CR \<or> at_line_sep E s then None
         else Some (inCharClass, advance E s))"

lemma regex_step_pos: "regex_step E b s = Some (b', t) \<Longrightarrow> \<not> isAtEnd E s \<Longrightarrow> pos s < pos t"
  using advance_pos [of E s] advance_pos_le [of "advance E s" E]
  by (auto simp: regex_step_def Let_def split: if_splits)

function regex_body :: "lex_input \<Rightarrow> bool \<Rightarrow> lexer \<Rightarrow> lexer option" where
  "regex_body E inCharClass s =
     (if isAtEnd E s then None
      else if peek E s = CHR ''/'' \<and> \<not> inCharClass then Some (advance E s)
      else case regex_step E inCharClass s of None \<Rightarrow> None | Some (b, t) \<Rightarrow> regex_body E b t)"
  by pat_completeness auto
termination
  by (relation "measure (\<lambda>(E, b, s). length (source E) - pos s)") (auto simp: cursor_measure2 regex_step_pos)

declare regex_body.simps [simp del]

text \<open>The walk over the body that checks \<open>\p{...}\<close> and \<open>\P{...}\<close>.\<close>

function property_fault_of :: "string \<Rightarrow> property_fault option" where
  "property_fault_of [] = None"
| "property_fault_of (c # cs) =
     (if c = BACKSLASH \<and> cs \<noteq> [] then
        (if hd cs = CHR ''p'' \<or> hd cs = CHR ''P'' then
           (let q = tl cs
            in if q = [] \<or> hd q \<noteq> CHR ''{'' then Some NoBrace
               else
                 let content = takeWhile (\<lambda>c. c \<noteq> CHR ''}'') (tl q); r = dropWhile (\<lambda>c. c \<noteq> CHR ''}'') (tl q)
                 in if r = [] then Some Unclosed
                    else if content = [] then Some EmptyName
                    else if hd content = CHR ''^'' then Some LeadingCaret
                    else if hd content = CHR ''='' then Some LeadingEquals
                    else property_fault_of (tl r))
         else property_fault_of (tl cs))
      else property_fault_of cs)"
  by pat_completeness auto
termination
proof (relation "measure length", goal_cases)
  case (2 c cs q x y)
  then show ?case using length_dropWhile_le [of "\<lambda>c. c \<noteq> CHR ''}''" "tl q"] by simp
qed (auto simp: less_Suc_eq_le)

declare property_fault_of.simps [simp del]

definition scanRegularExpression :: "lex_input \<Rightarrow> lexer \<Rightarrow> lex_error + token \<times> lexer" where
  "scanRegularExpression E s0 =
     (let start = pos s0; s1 = start_token s0; l = tokenStartLine s1; k = tokenStartColumn s1;
          s2 = advance E s1
      in case regex_body E False s2 of
           None \<Rightarrow> Inl (UnterminatedRegExp l k)
         | Some s3 \<Rightarrow>
             let body = take (pos s3 - 1 - pos s2) (drop (pos s2) (source E));
                 s4 = skip_while E (\<lambda>s. isIdentPart (peek E s)) s3;
                 flags = take (pos s4 - pos s3) (drop (pos s3) (source E))
             in case validateRegExpLiteral E body flags of
                  Some msg \<Rightarrow> Inl (InvalidRegExp l k msg)
                | None \<Rightarrow>
                    case (if CHR ''u'' \<in> set flags \<or> CHR ''v'' \<in> set flags then property_fault_of body else None) of
                      Some f \<Rightarrow> Inl (PropertyEscape l k f)
                    | None \<Rightarrow> Inr (makeToken E s4 RegularExpressionLiteral start, s4))"

section \<open>Punctuation\<close>

text \<open>After the first character: the kind of the token and the number of further characters.\<close>

definition punctuator :: "lex_input \<Rightarrow> lexer \<Rightarrow> char \<Rightarrow> token_kind \<times> nat" where
  "punctuator E s c =
     (let p = peek E s; p1 = peekAt E s 1; p2 = peekAt E s 2; eq = CHR ''=''
      in if c = CHR ''('' then (OpenParen, 0)
         else if c = CHR '')'' then (CloseParen, 0)
         else if c = CHR ''{'' then (OpenBrace, 0)
         else if c = CHR ''}'' then (CloseBrace, 0)
         else if c = CHR ''['' then (OpenBracket, 0)
         else if c = CHR '']'' then (CloseBracket, 0)
         else if c = CHR '';'' then (Semicolon, 0)
         else if c = CHR '','' then (Comma, 0)
         else if c = CHR ''~'' then (Tilde, 0)
         else if c = CHR ''@'' then (At, 0)
         else if c = CHR ''#'' then (Hash, 0)
         else if c = CHR ''.'' then (if p = CHR ''.'' \<and> p1 = CHR ''.'' then (DotDotDot, 2) else (Dot, 0))
         else if c = CHR '':'' then (Colon, 0)
         else if c = CHR ''?'' then
           (if p = CHR ''.'' \<and> \<not> isDigit p1 then (QuestionDot, 1)
            else if p = CHR ''?'' then (if p1 = eq then (QuestionQuestionEquals, 2) else (QuestionQuestion, 1))
            else (QuestionMark, 0))
         else if c = CHR ''+'' then
           (if p = CHR ''+'' then (PlusPlus, 1) else if p = eq then (PlusEquals, 1) else (Plus, 0))
         else if c = CHR ''-'' then
           (if p = CHR ''-'' then (MinusMinus, 1) else if p = eq then (MinusEquals, 1) else (Minus, 0))
         else if c = CHR ''*'' then
           (if p = CHR ''*'' then (if p1 = eq then (StarStarEquals, 2) else (StarStar, 1))
            else if p = eq then (StarEquals, 1) else (Star, 0))
         else if c = CHR ''/'' then (if p = eq then (SlashEquals, 1) else (Slash, 0))
         else if c = CHR ''%'' then (if p = eq then (PercentEquals, 1) else (Percent, 0))
         else if c = CHR ''&'' then
           (if p = CHR ''&'' then (if p1 = eq then (AmpersandAmpersandEquals, 2) else (AmpersandAmpersand, 1))
            else if p = eq then (AmpersandEquals, 1) else (Ampersand, 0))
         else if c = CHR ''|'' then
           (if p = CHR ''|'' then (if p1 = eq then (PipePipeEquals, 2) else (PipePipe, 1))
            else if p = eq then (PipeEquals, 1) else (Pipe, 0))
         else if c = CHR ''^'' then (if p = eq then (CaretEquals, 1) else (Caret, 0))
         else if c = CHR ''!'' then
           (if p = eq then (if p1 = eq then (ExclamationEqualsEquals, 2) else (ExclamationEquals, 1))
            else (ExclamationMark, 0))
         else if c = eq then
           (if p = CHR ''>'' then (Arrow, 1)
            else if p = eq then (if p1 = eq then (EqualsEqualsEquals, 2) else (EqualsEquals, 1))
            else (Equals, 0))
         else if c = CHR ''<'' then
           (if p = CHR ''<'' then (if p1 = eq then (LessThanLessThanEquals, 2) else (LessThanLessThan, 1))
            else if p = eq then (LessThanEquals, 1) else (LessThan, 0))
         else if c = CHR ''>'' then
           (if p = CHR ''>'' then
              (if p1 = CHR ''>'' then
                 (if p2 = eq then (GreaterThanGreaterThanGreaterThanEquals, 3)
                  else (GreaterThanGreaterThanGreaterThan, 2))
               else if p1 = eq then (GreaterThanGreaterThanEquals, 2)
               else (GreaterThanGreaterThan, 1))
            else if p = eq then (GreaterThanEquals, 1) else (GreaterThan, 0))
         else (Error, 0))"

definition scanPunctuation :: "lex_input \<Rightarrow> lexer \<Rightarrow> token \<times> lexer" where
  "scanPunctuation E s0 =
     (let start = pos s0; c = peek E s0; s = advance E (start_token s0);
          (k, n) = punctuator E s c; s1 = advances E n s;
          s2 = (if k = OpenBrace then s1\<lparr>braceDepth := braceDepth s1 + 1\<rparr>
                else if k = CloseBrace then s1\<lparr>braceDepth := braceDepth s1 - 1\<rparr> else s1)
      in (makeToken E s2 k start, s2))"

section \<open>The next token\<close>

definition nextToken :: "lex_input \<Rightarrow> lexer \<Rightarrow> lex_error + token \<times> lexer" where
  "nextToken E s0 =
     (case skipWhitespaceAndComments E (s0\<lparr>hadNewline := False\<rparr>) of
        Inl e \<Rightarrow> Inl e
      | Inr s1 \<Rightarrow>
          let s = s1\<lparr>hasEmittedToken := True\<rparr>; c = peek E s
          in if isAtEnd E s then
               (let s' = start_token s in Inr (makeToken E s' EndOfFile (pos s'), s'))
             else if templateBraceDepth s \<noteq> [] \<and> c = CHR ''}'' \<and>
                     braceDepth s = last (templateBraceDepth s) then
               Inr (scanTemplateContinuation E s)
             else
               let s = start_token s
               in if isIdentStart c \<or> (c = BACKSLASH \<and> peekAt E s 1 = CHR ''u'') \<or>
                     (byte c \<ge> 0x80 \<and> isUnicodeIdentStartAt E s > 0) then
                    scanIdentifierOrKeyword E s
                  else if isDigit c \<or> (c = CHR ''.'' \<and> isDigit (peekAt E s 1)) then scanNumericLiteral E s
                  else if c = QUOTE \<or> c = CHR 0x22 then scanStringLiteral E c s
                  else if c = CHR ''`'' then Inr (scanTemplateLiteral E s)
                  else if c = CHR ''/'' \<and> regexAllowed s \<and> peekAt E s 1 \<noteq> CHR ''/'' \<and>
                          peekAt E s 1 \<noteq> CHR ''*'' then
                    scanRegularExpression E s
                  else Inr (scanPunctuation E s))"

end
