(* ===== verification/LexerText.thy ===== *)
theory LexerText
  imports Lexer
begin

text \<open>
  What a string or template token says: \<open>Lexer::getStringValue\<close>,
  \<open>Lexer::validateLegacyOctalEscapes\<close> and \<open>Lexer::processTemplateEscapes\<close> of
  \<open>src/src/compiler/parser/Lexer.cpp\<close>. The loops over an index are recursions over the rest of
  the text; a turn that starts at a backslash with a character after it is \<open>string_escape\<close> or
  \<open>template_escape\<close>, given the text after that character.
\<close>

datatype text_error = BadHexEscape | BadUnicodeEscape | CodePointOutOfRange

section \<open>Shared pieces\<close>

text \<open>The UTF-8 of a code point below 0x800, written out after \<open>\x\<close> and octal escapes.\<close>

definition encode_small :: "nat \<Rightarrow> string" where
  "encode_small v =
     (if v < 0x80 then [char_of v]
      else [char_of (0xC0 OR drop_bit 6 v), char_of (0x80 OR (v AND 0x3F))])"

text \<open>The value of digits, \<open>None\<close> when one is not hexadecimal.\<close>

fun hex_value :: "nat \<Rightarrow> string \<Rightarrow> nat option" where
  "hex_value v [] = Some v"
| "hex_value v (h # hs) = (case hexVal h of None \<Rightarrow> None | Some d \<Rightarrow> hex_value (v * 16 + d) hs)"

text \<open>The second half of a surrogate pair, looked for after a high surrogate \<open>cp\<close>: the combined
  code point and the rest of the text.\<close>

definition surrogate :: "nat \<Rightarrow> string \<Rightarrow> nat \<times> string" where
  "surrogate cp r =
     (if 0xD800 \<le> cp \<and> cp \<le> 0xDBFF \<and> 6 \<le> length r \<and> r ! 0 = BACKSLASH \<and> r ! 1 = CHR ''u'' \<and>
         r ! 2 \<noteq> CHR ''{''
      then (case hex_value 0 (take 4 (drop 2 r)) of
              Some lo \<Rightarrow>
                if 0xDC00 \<le> lo \<and> lo \<le> 0xDFFF
                then (0x10000 + push_bit 10 (cp - 0xD800) + (lo - 0xDC00), drop 6 r) else (cp, r)
            | None \<Rightarrow> (cp, r))
      else (cp, r))"

section \<open>String literals\<close>

definition octal_more :: "nat \<Rightarrow> string \<Rightarrow> string" where
  "octal_more n r = take n (takeWhile isOctalDigit r)"

definition octal_value :: "string \<Rightarrow> nat" where
  "octal_value ds = foldl (\<lambda>v d. v * 8 + (byte d - byte CHR ''0'')) 0 ds"

text \<open>The digits of \<open>\u{...}\<close>: the code point, or the first error in the loop.\<close>

fun brace_digits :: "nat \<Rightarrow> string \<Rightarrow> text_error + nat" where
  "brace_digits cp [] = Inr cp"
| "brace_digits cp (h # hs) =
     (case hexVal h of
        None \<Rightarrow> Inl BadUnicodeEscape
      | Some d \<Rightarrow> if cp * 16 + d > 0x10FFFF then Inl CodePointOutOfRange else brace_digits (cp * 16 + d) hs)"

definition unicode_escape :: "string \<Rightarrow> text_error + string \<times> string" where
  "unicode_escape r =
     (if r \<noteq> [] \<and> hd r = CHR ''{'' then
        (let ds = takeWhile (\<lambda>c. c \<noteq> CHR ''}'') (tl r); after = dropWhile (\<lambda>c. c \<noteq> CHR ''}'') (tl r)
         in case brace_digits 0 ds of
              Inl e \<Rightarrow> Inl e
            | Inr cp \<Rightarrow>
                if ds = [] \<or> after = [] then Inl BadUnicodeEscape
                else Inr (encodeUtf8 (int cp), tl after))
      else if 4 \<le> length r then
        (case hex_value 0 (take 4 r) of
           None \<Rightarrow> Inl BadUnicodeEscape
         | Some cp \<Rightarrow> let (cp', r') = surrogate cp (drop 4 r) in Inr (encodeUtf8 (int cp'), r'))
      else Inl BadUnicodeEscape)"

definition string_escape :: "char \<Rightarrow> string \<Rightarrow> text_error + string \<times> string" where
  "string_escape c r =
     (if c = CHR ''n'' then Inr ([LF], r)
      else if c = CHR ''r'' then Inr ([CR], r)
      else if c = CHR ''t'' then Inr ([CHR 0x09], r)
      else if c = CHR ''b'' then Inr ([CHR 0x08], r)
      else if c = CHR ''f'' then Inr ([CHR 0x0C], r)
      else if c = CHR ''v'' then Inr ([CHR 0x0B], r)
      else if c = BACKSLASH \<or> c = QUOTE \<or> c = CHR 0x22 \<or> c = CHR ''`'' then Inr ([c], r)
      else if c = LF then Inr ([], r)
      else if c = CR then Inr ([], if r \<noteq> [] \<and> hd r = LF then tl r else r)
      else if isOctalDigit c then
        (let ds = octal_more (if byte c \<le> byte CHR ''3'' then 2 else 1) r
         in Inr (encode_small (octal_value (c # ds)), drop (length ds) r))
      else if c = CHR ''x'' then
        (case r of
           h # l # r' \<Rightarrow>
             (case (hexVal h, hexVal l) of
                (Some hi, Some lo) \<Rightarrow> Inr (encode_small (hi * 16 + lo), r')
              | _ \<Rightarrow> Inl BadHexEscape)
         | _ \<Rightarrow> Inl BadHexEscape)
      else if c = CHR ''u'' then unicode_escape r
      else if byte c = 0xE2 \<and> 2 \<le> length r \<and> byte (r ! 0) = 0x80 \<and> (byte (r ! 1) = 0xA8 \<or> byte (r ! 1) = 0xA9)
      then Inr ([], drop 2 r)
      else Inr ([c], r))"

lemma surrogate_length: "length (snd (surrogate cp r)) \<le> length r"
  by (simp add: surrogate_def split: option.split)

lemma unicode_escape_length: "unicode_escape r = Inr (out, r') \<Longrightarrow> length r' \<le> length r"
proof -
  assume a: "unicode_escape r = Inr (out, r')"
  have d: "length (tl (dropWhile P (tl r))) \<le> length r" for P
    using length_dropWhile_le [of P "tl r"] by simp
  have s: "length (snd (surrogate cp (drop 4 r))) \<le> length r" for cp
    using surrogate_length [of cp "drop 4 r"] by simp
  show ?thesis
    using a d s by (auto simp: unicode_escape_def Let_def split_beta split: if_splits sum.splits option.splits)
qed

lemma string_escape_length: "string_escape c r = Inr (out, r') \<Longrightarrow> length r' \<le> length r"
  by (auto simp: string_escape_def Let_def unicode_escape_length split: if_splits list.splits option.splits)

function string_value :: "string \<Rightarrow> text_error + string" where
  "string_value [] = Inr []"
| "string_value (c # cs) =
     (if c = BACKSLASH \<and> cs \<noteq> [] then
        (case string_escape (hd cs) (tl cs) of
           Inl e \<Rightarrow> Inl e
         | Inr (out, r) \<Rightarrow> (case string_value r of Inl e \<Rightarrow> Inl e | Inr v \<Rightarrow> Inr (out @ v)))
      else (case string_value cs of Inl e \<Rightarrow> Inl e | Inr v \<Rightarrow> Inr (c # v)))"
  by pat_completeness auto
termination
proof (relation "measure length", goal_cases)
  case (2 c cs p out r)
  then show ?case using string_escape_length [of "hd cs" "tl cs" out r] by (cases cs) auto
qed auto

declare string_value.simps [simp del]

definition getStringValue :: "string \<Rightarrow> text_error + string" where
  "getStringValue rawToken =
     (if length rawToken < 2 then Inr rawToken else string_value (butlast (tl rawToken)))"

section \<open>Legacy octal escapes\<close>

datatype octal_error = OctalEscape | EightOrNine

fun legacy_octal :: "string \<Rightarrow> octal_error option" where
  "legacy_octal [] = None"
| "legacy_octal [c] = None"
| "legacy_octal (c # n # r) =
     (if c \<noteq> BACKSLASH then legacy_octal (n # r)
      else if n = CHR ''x'' \<or> n = CHR ''u'' then legacy_octal r
      else if n = CHR ''0'' then (if r \<noteq> [] \<and> isDigit (hd r) then Some OctalEscape else legacy_octal r)
      else if byte CHR ''1'' \<le> byte n \<and> byte n \<le> byte CHR ''7'' then Some OctalEscape
      else if n = CHR ''8'' \<or> n = CHR ''9'' then Some EightOrNine
      else legacy_octal r)"

definition validateLegacyOctalEscapes :: "string \<Rightarrow> bool \<Rightarrow> bool \<Rightarrow> octal_error option" where
  "validateLegacyOctalEscapes rawToken isStrict isTemplate =
     (if \<not> (isStrict \<or> isTemplate) then None else legacy_octal rawToken)"

section \<open>Templates\<close>

text \<open>The early errors of an untagged template, at the character after a backslash.\<close>

definition template_fault :: "char \<Rightarrow> string \<Rightarrow> text_error option" where
  "template_fault c r =
     (if c = CHR ''x'' then
        (if length r < 2 \<or> \<not> isHexDigit (r ! 0) \<or> \<not> isHexDigit (r ! 1) then Some BadHexEscape else None)
      else if c = CHR ''u'' then
        (if r \<noteq> [] \<and> hd r = CHR ''{'' then
           (let ds = takeWhile (\<lambda>c. c \<noteq> CHR ''}'') (tl r); after = dropWhile (\<lambda>c. c \<noteq> CHR ''}'') (tl r)
            in case brace_digits 0 ds of
                 Inl e \<Rightarrow> Some BadUnicodeEscape
               | Inr cp \<Rightarrow> if ds = [] \<or> after = [] then Some BadUnicodeEscape else None)
         else if length r < 4 \<or> \<not> list_all isHexDigit (take 4 r) then Some BadUnicodeEscape
         else None)
      else None)"

text \<open>Without validation a character that is no digit counts as 0 and the code point wraps around
  at 32 bits.\<close>

definition lax_hex :: "string \<Rightarrow> int" where
  "lax_hex ds = sint (foldl (\<lambda>cp h. cp * 16 + of_nat (hexDigitValue h)) (0 :: i32) ds)"

definition template_escape :: "char \<Rightarrow> string \<Rightarrow> string \<times> string" where
  "template_escape c r =
     (if c = CHR ''n'' then ([LF], r)
      else if c = CHR ''r'' then ([CR], r)
      else if c = CHR ''t'' then ([CHR 0x09], r)
      else if c = BACKSLASH \<or> c = QUOTE \<or> c = CHR 0x22 \<or> c = CHR ''`'' \<or> c = CHR ''$'' then ([c], r)
      else if c = CHR ''0'' then ([CHR 0x00], r)
      else if c = CHR ''x'' then
        (if 2 \<le> length r then (encode_small (hexDigitValue (r ! 0) * 16 + hexDigitValue (r ! 1)), drop 2 r)
         else ([], r))
      else if c = CHR ''u'' then
        (if r \<noteq> [] \<and> hd r = CHR ''{'' then
           (encodeUtf8 (lax_hex (takeWhile (\<lambda>c. c \<noteq> CHR ''}'') (tl r))),
            drop 1 (dropWhile (\<lambda>c. c \<noteq> CHR ''}'') (tl r)))
         else if 4 \<le> length r then
           (let (cp, r') = surrogate (nat (lax_hex (take 4 r))) (drop 4 r) in (encodeUtf8 (int cp), r'))
         else ([], r))
      else ([c], r))"

lemma template_escape_length: "length (snd (template_escape c r)) \<le> length r"
proof -
  have d: "length (dropWhile P (tl r)) - 1 \<le> length r" for P
    using length_dropWhile_le [of P "tl r"] by simp
  have s: "length (snd (surrogate cp (drop 4 r))) \<le> length r" for cp
    using surrogate_length [of cp "drop 4 r"] by simp
  show ?thesis using d s by (auto simp: template_escape_def split_beta)
qed

function processTemplateEscapes :: "bool \<Rightarrow> string \<Rightarrow> text_error + string" where
  "processTemplateEscapes validate [] = Inr []"
| "processTemplateEscapes validate (c # cs) =
     (if c = BACKSLASH \<and> cs \<noteq> [] then
        (case (if validate then template_fault (hd cs) (tl cs) else None) of
           Some e \<Rightarrow> Inl e
         | None \<Rightarrow>
             let (out, r) = template_escape (hd cs) (tl cs)
             in (case processTemplateEscapes validate r of Inl e \<Rightarrow> Inl e | Inr v \<Rightarrow> Inr (out @ v)))
      else (case processTemplateEscapes validate cs of Inl e \<Rightarrow> Inl e | Inr v \<Rightarrow> Inr (c # v)))"
  by pat_completeness auto
termination
proof (relation "measure (\<lambda>(v, s). length s)", goal_cases)
  case (2 validate c cs x out r)
  then have "length r \<le> length (tl cs)" using template_escape_length [of "hd cs" "tl cs"] by (metis snd_conv)
  then show ?case using 2 by (cases cs) auto
qed auto

declare processTemplateEscapes.simps [simp del]

end
