(* ===== verification/LexerCorrect.thy ===== *)
theory LexerCorrect
  imports Lexer
begin

text \<open>
  Where the tokens are. The cursor of the lexer always stands at a position whose line and
  column are those of the text before it, every scanner only moves it forward, and so the tokens
  of a file are disjoint parts of it in order, each with its own line and column, and end with
  the end of the file. The contract between the lexer and the parser, which calls it once per
  token and switches regular expressions on and off in between, is the locale \<open>token_source\<close>.
\<close>

section \<open>Line and column\<close>

text \<open>The line and column after a text: CR LF is one line terminator.\<close>

fun track :: "string \<Rightarrow> nat \<times> nat \<Rightarrow> nat \<times> nat" where
  "track [] p = p"
| "track [c] p = (if c = LF \<or> c = CR then (fst p + 1, 1) else (fst p, snd p + 1))"
| "track (c # d # cs) p =
     (if c = CR \<and> d = LF then track cs (fst p + 1, 1)
      else track (d # cs) (if c = LF \<or> c = CR then (fst p + 1, 1) else (fst p, snd p + 1)))"

definition splits_crlf :: "string \<Rightarrow> nat \<Rightarrow> bool" where
  "splits_crlf src p \<longleftrightarrow> 0 < p \<and> p < length src \<and> src ! (p - 1) = CR \<and> src ! p = LF"

definition located :: "lex_input \<Rightarrow> lexer \<Rightarrow> bool" where
  "located E s \<longleftrightarrow> pos s \<le> length (source E) \<and> \<not> splits_crlf (source E) (pos s) \<and>
     (line s, column s) = track (take (pos s) (source E)) (1, 1)"

lemma track_append:
  "\<not> (xs \<noteq> [] \<and> last xs = CR \<and> ys \<noteq> [] \<and> hd ys = LF) \<Longrightarrow> track (xs @ ys) p = track ys (track xs p)"
proof (induction xs p rule: track.induct)
  case (2 c p)
  then show ?case by (cases ys) auto
next
  case (3 c d cs p)
  then show ?case by (cases "cs = []") (auto split: if_split_asm)
qed simp

lemma located_advance: "located E s \<Longrightarrow> located E (advance E s)"
proof -
  assume l: "located E s"
  let ?src = "source E" and ?p = "pos s"
  show ?thesis
  proof (cases "?p < length ?src")
    case False
    then show ?thesis using l by (simp add: advance_def)
  next
    case True
    let ?xs = "take ?p ?src"
    have last: "?xs \<noteq> [] \<Longrightarrow> last ?xs = ?src ! (?p - 1)" using True by (simp add: last_conv_nth min_def)
    have t1: "take (Suc ?p) ?src = ?xs @ [?src ! ?p]" using True by (simp add: take_Suc_conv_app_nth)
    have ok: "\<not> (?xs \<noteq> [] \<and> last ?xs = CR \<and> ?src ! ?p = LF)"
      using l last True by (auto simp: located_def splits_crlf_def)
    have tr: "(line s, column s) = track ?xs (1, 1)" using l by (simp add: located_def)
    show ?thesis
    proof (cases "?src ! ?p = CR \<and> Suc ?p < length ?src \<and> ?src ! Suc ?p = LF")
      case True
      then have t2: "take (Suc (Suc ?p)) ?src = ?xs @ [CR, LF]" by (simp add: take_Suc_conv_app_nth t1)
      have "track (take (Suc (Suc ?p)) ?src) (1, 1) = track [CR, LF] (line s, column s)"
        unfolding t2 tr by (rule track_append) simp
      then show ?thesis using True \<open>?p < length ?src\<close> by (simp add: located_def advance_def splits_crlf_def)
    next
      case False
      have "track (take (Suc ?p) ?src) (1, 1) = track [?src ! ?p] (line s, column s)"
        unfolding t1 tr by (rule track_append) (use ok in simp)
      then show ?thesis
        using False True by (auto simp: located_def advance_def splits_crlf_def Let_def)
    qed
  qed
qed

section \<open>Moving forward\<close>

definition start_of :: "lexer \<Rightarrow> nat \<times> nat" where
  "start_of s = (tokenStartLine s, tokenStartColumn s)"

definition moves :: "lex_input \<Rightarrow> lexer \<Rightarrow> lexer \<Rightarrow> bool" where
  "moves E s t \<longleftrightarrow> pos s \<le> pos t \<and> (located E s \<longrightarrow> located E t) \<and> start_of t = start_of s"

named_theorems scans \<open>what moves the cursor forward\<close>

lemma moves_refl [scans]: "moves E s s"
  by (simp add: moves_def)

lemma moves_trans: "moves E s t \<Longrightarrow> moves E t u \<Longrightarrow> moves E s u"
  by (auto simp: moves_def)

lemma moves_advance [scans]: "moves E s t \<Longrightarrow> moves E s (advance E t)"
  using located_advance [of E t] advance_pos_le [of t E]
  by (auto simp: moves_def) (simp_all add: advance_def start_of_def Let_def)

lemma moves_advances [scans]: "moves E s t \<Longrightarrow> moves E s (advances E n t)"
  by (induction n arbitrary: t) (simp_all add: moves_advance)

lemma moves_updates [scans]:
  "moves E s t \<Longrightarrow> moves E s (t\<lparr>hadNewline := b\<rparr>)" "moves E s t \<Longrightarrow> moves E s (t\<lparr>sawEvalIdent := b\<rparr>)"
  "moves E s t \<Longrightarrow> moves E s (t\<lparr>templateBraceDepth := ds\<rparr>)" "moves E s t \<Longrightarrow> moves E s (t\<lparr>braceDepth := d\<rparr>)"
  "moves E s t \<Longrightarrow> moves E s (t\<lparr>hasEmittedToken := b\<rparr>)" "moves E s t \<Longrightarrow> moves E s (reportLexError m t)"
  by (simp_all add: moves_def located_def start_of_def reportLexError_def)

lemma moves_skip_while [scans]: "moves E s t \<Longrightarrow> moves E s (skip_while E P t)"
proof (induction E P t rule: skip_while.induct)
  case (1 E P t)
  then show ?case by (subst skip_while.simps) (auto intro: scans)
qed

lemma moves_skip_line [scans]: "moves E s t \<Longrightarrow> moves E s (skip_line E t)"
  by (simp add: skip_line_def moves_skip_while)

lemma moves_block_step [scans]: "moves E s t \<Longrightarrow> moves E s (block_step E t)"
  by (auto simp: block_step_def split: prod.split intro: scans)

lemma moves_block_comment [scans]: "moves E s t \<Longrightarrow> moves E s (snd (block_comment E t))"
proof (induction E t rule: block_comment.induct)
  case (1 E t)
  then show ?case by (subst block_comment.simps) (auto intro: scans simp del: advances.simps)
qed

lemma moves_skip_step: "skip_step E t = Inr (Some u) \<Longrightarrow> moves E s t \<Longrightarrow> moves E s u"
  using moves_block_comment [of E s "advances E 2 t"]
  by (auto simp: skip_step_def Let_def split_beta simp del: advances.simps split: if_split_asm intro: scans)

lemma moves_skip: "skipWhitespaceAndComments E t = Inr u \<Longrightarrow> moves E s t \<Longrightarrow> moves E s u"
proof (induction E t rule: skipWhitespaceAndComments.induct)
  case (1 E t)
  then show ?case
    by (subst (asm) skipWhitespaceAndComments.simps [of E t])
      (auto split: if_split_asm sum.splits option.splits dest: moves_skip_step)
qed

lemma moves_hex_run [scans]: "moves E s t \<Longrightarrow> moves E s (snd (hex_run E cp t))"
proof (induction E cp t rule: hex_run.induct)
  case (1 E cp t)
  then show ?case by (subst hex_run.simps) (auto intro: scans)
qed

lemma moves_hex_upto [scans]: "moves E s t \<Longrightarrow> moves E s (snd (hex_upto E n cp t))"
  by (induction n arbitrary: cp t) (auto intro: scans)

lemma moves_ident_escape [scans]: "moves E s t \<Longrightarrow> moves E s (snd (ident_escape E t))"
  by (auto simp: ident_escape_def Let_def split_beta simp del: advances.simps intro!: scans)

lemma moves_ident_step: "ident_step E f t = Inr (Some u) \<Longrightarrow> moves E s t \<Longrightarrow> moves E s u"
  using moves_ident_escape [of E s t]
  by (auto simp: ident_step_def Let_def split_beta split: if_split_asm intro: scans)

lemma moves_ident_loop: "ident_loop E f t = Inr u \<Longrightarrow> moves E s t \<Longrightarrow> moves E s u"
proof (induction E f t rule: ident_loop.induct)
  case (1 E f t)
  then show ?case
    by (subst (asm) ident_loop.simps [of E f t])
      (auto split: if_split_asm sum.splits option.splits dest: moves_ident_step)
qed

lemma moves_digits_loop [scans]: "moves E s t \<Longrightarrow> moves E s (digits_loop E d c p q t)"
proof (induction E d c p q t rule: digits_loop.induct)
  case (1 E d c p q t)
  note a = moves_advance [OF 1(3)]
  from 1 a show ?case by (subst digits_loop.simps) (auto simp: Let_def intro: scans)
qed

lemma moves_digits [scans]: "moves E s t \<Longrightarrow> moves E s (consumeDigitsWithSeparators E d c t)"
  by (simp add: consumeDigitsWithSeparators_def moves_digits_loop)

lemma moves_string_step: "string_step E t = Inr u \<Longrightarrow> moves E s t \<Longrightarrow> moves E s u"
  by (auto simp: string_step_def Let_def split: if_split_asm intro: scans)

lemma moves_string_loop: "string_loop E q t = Inr u \<Longrightarrow> moves E s t \<Longrightarrow> moves E s u"
proof (induction E q t rule: string_loop.induct)
  case (1 E q t)
  then show ?case
    by (subst (asm) string_loop.simps [of E q t]) (auto split: if_split_asm sum.splits dest: moves_string_step)
qed

lemma moves_template_loop [scans]: "moves E s t \<Longrightarrow> moves E s (snd (template_loop E t))"
proof (induction E t rule: template_loop.induct)
  case (1 E t)
  note a = moves_advance [OF 1(3)] moves_advance [OF moves_advance [OF 1(3)]]
  from 1 a show ?case
    by (subst template_loop.simps) (auto simp: Let_def simp del: advances.simps intro: scans)
qed

lemma moves_regex_step: "regex_step E b t = Some (b', u) \<Longrightarrow> moves E s t \<Longrightarrow> moves E s u"
  by (auto simp: regex_step_def Let_def split: if_split_asm intro: scans)

lemma moves_regex_body: "regex_body E b t = Some u \<Longrightarrow> moves E s t \<Longrightarrow> moves E s u"
proof (induction E b t rule: regex_body.induct)
  case (1 E b t)
  then show ?case
    by (subst (asm) regex_body.simps [of E b t])
      (auto split: if_split_asm option.splits dest: moves_regex_step intro: scans)
qed

section \<open>The scanners\<close>

text \<open>A token that starts at the cursor of \<open>s\<close> and ends at that of \<open>t\<close>.\<close>

definition token_of :: "lex_input \<Rightarrow> lexer \<Rightarrow> token \<Rightarrow> lexer \<Rightarrow> bool" where
  "token_of E s k t \<longleftrightarrow> moves E (start_token s) t \<and> tk_offset k = pos s \<and>
     tk_text k = take (pos t - pos s) (drop (pos s) (source E)) \<and> (tk_line k, tk_column k) = (line s, column s)"

lemma token_of_make [scans]: "moves E (start_token s) t \<Longrightarrow> token_of E s (makeToken E t k (pos s)) t"
  by (simp add: token_of_def makeToken_def moves_def start_of_def start_token_def)

lemma token_of_updates [scans]:
  "token_of E s k t \<Longrightarrow> token_of E s (k\<lparr>decodedText := d\<rparr>) t"
  "token_of E s k t \<Longrightarrow> token_of E s (k\<lparr>escapedReservedWord := b\<rparr>) t"
  "token_of E s k t \<Longrightarrow> token_of E s (k\<lparr>isLegacyOctal := b\<rparr>) t"
  by (simp_all add: token_of_def)

lemma moves_start: "moves E (start_token s) t \<Longrightarrow> pos s \<le> pos t" "pos (start_token s) = pos s"
  "located E (start_token s) = located E s"
  by (simp_all add: moves_def start_token_def located_def)

lemma ident_token: "scanIdentifierOrKeyword E s = Inr (k, t) \<Longrightarrow> token_of E s k t"
proof -
  assume a: "scanIdentifierOrKeyword E s = Inr (k, t)"
  then obtain u where u: "ident_loop E True (start_token s) = Inr u"
    by (auto simp: scanIdentifierOrKeyword_def Let_def split: sum.splits)
  have m: "moves E (start_token s) u" using moves_ident_loop [OF u moves_refl] .
  have e: "token_of E s (makeToken E u Identifier (pos s)) (u\<lparr>sawEvalIdent := True\<rparr>)"
    using token_of_make [OF m, of Identifier] moves_updates(2) [OF m, of True] by (simp add: token_of_def)
  show ?thesis
    using a u m e
    by (auto simp: scanIdentifierOrKeyword_def Let_def split: if_split_asm option.splits intro!: scans)
qed

lemma number_token: "number_token E k (pos s) t = Inr (tok, u) \<Longrightarrow> moves E (start_token s) t \<Longrightarrow> token_of E s tok u"
  by (auto simp: number_token_def split: if_split_asm intro: scans)

lemma suffixed_token:
  "suffixed_number E (pos s) t = Inr (tok, u) \<Longrightarrow> moves E (start_token s) t \<Longrightarrow> token_of E s tok u"
  by (auto simp: suffixed_number_def split: if_split_asm intro: scans number_token)

lemma prefixed_token:
  "prefixed_number E d p c (pos s) t = Inr (tok, u) \<Longrightarrow> moves E (start_token s) t \<Longrightarrow> token_of E s tok u"
  unfolding prefixed_number_def Let_def
  by (erule suffixed_token) (auto intro!: scans)

lemma legacy_token:
  "legacy_number E (pos s) t = Inr (tok, u) \<Longrightarrow> moves E (start_token s) t \<Longrightarrow> token_of E s tok u"
  by (auto simp: legacy_number_def Let_def split: if_split_asm sum.splits intro!: scans intro: number_token)

lemma moves_fraction [scans]: "moves E s t \<Longrightarrow> moves E s (snd (fraction_part E t))"
  by (auto simp: fraction_part_def intro: scans)

lemma moves_exponent [scans]: "moves E s t \<Longrightarrow> moves E s (snd (exponent_part E t))"
  by (auto simp: exponent_part_def Let_def intro: scans)

lemma decimal_cases:
  assumes "decimal_number E a t = Inr (tok, u)"
    and "moves E s (snd (fraction_part E (consumeDigitsWithSeparators E isDigit ''decimal literal'' t)))"
  obtains k v where "number_token E k a v = Inr (tok, u)" "moves E s v"
proof -
  let ?v = "snd (exponent_part E (snd (fraction_part E (consumeDigitsWithSeparators E isDigit ''decimal literal'' t))))"
  have v: "moves E s ?v" using assms(2) by (rule moves_exponent)
  from assms(1) have "number_token E NumericLiteral a ?v = Inr (tok, u) \<or>
      (\<exists>w \<in> {?v, reportLexError ''BigInt literal cannot have a decimal point'' ?v}.
        number_token E BigIntLiteral a (advance E w) = Inr (tok, u) \<or>
        number_token E BigIntLiteral a
          (advance E (reportLexError ''BigInt literal cannot have an exponent'' w)) = Inr (tok, u))"
    by (auto simp: decimal_number_def Let_def split_beta split: if_split_asm)
  then show ?thesis
    by (elim disjE bexE insertE emptyE) (hypsubst?, rule that, assumption, intro moves_advance moves_updates(6) v)+
qed

lemma decimal_token:
  assumes "decimal_number E (pos s) t = Inr (tok, u)" and "moves E (start_token s) t"
  shows "token_of E s tok u"
  using decimal_cases [OF assms(1) moves_fraction [OF moves_digits [OF assms(2)]]] number_token by metis

lemma numeric_token: "scanNumericLiteral E s = Inr (k, t) \<Longrightarrow> token_of E s k t"
  unfolding scanNumericLiteral_def Let_def
  by (auto split: if_split_asm intro: scans prefixed_token legacy_token decimal_token)

lemma string_token: "scanStringLiteral E q s = Inr (k, t) \<Longrightarrow> token_of E s k t"
  using moves_string_loop [of E q "advance E (start_token s)" _ "start_token s"]
  by (auto simp: scanStringLiteral_def Let_def split: if_split_asm sum.splits intro!: scans)

lemma template_token:
  assumes "moves E (start_token s) t" and "template_token E a b (pos s) t = (k, u)"
  shows "token_of E s k u"
proof -
  obtain r v where l: "template_loop E t = (r, v)" by (cases "template_loop E t")
  then have v: "moves E (start_token s) v" using moves_template_loop [OF assms(1)] by simp
  then have "moves E (start_token s) (push_brace v)" by (simp add: push_brace_def moves_updates)
  then show ?thesis
    using v assms(2) l by (auto simp: template_token_def split: option.splits bool.splits intro: scans)
qed

lemma template_tokens:
  "scanTemplateLiteral E s = (k, t) \<Longrightarrow> token_of E s k t"
  "scanTemplateContinuation E s = (k, t) \<Longrightarrow> token_of E s k t"
  by (auto simp: scanTemplateLiteral_def scanTemplateContinuation_def Let_def
    intro!: scans elim!: template_token [rotated])

lemma regex_token: "scanRegularExpression E s = Inr (k, t) \<Longrightarrow> token_of E s k t"
  using moves_regex_body [of E False "advance E (start_token s)" _ "start_token s"]
  by (auto simp: scanRegularExpression_def Let_def split: if_split_asm option.splits intro!: scans)

lemma punctuation_token: "scanPunctuation E s = (k, t) \<Longrightarrow> token_of E s k t"
  by (auto simp: scanPunctuation_def Let_def split: prod.splits if_split_asm intro!: scans)

section \<open>Progress\<close>

lemma start_token_peek [simp]:
  "isAtEnd E (start_token s) = isAtEnd E s" "peek E (start_token s) = peek E s" "pos (start_token s) = pos s"
  "peekAt E (start_token s) k = peekAt E s k" "rest E (start_token s) = rest E s"
  by (simp_all add: start_token_def peek_def peekAt_def isAtEnd_def rest_def)

lemma start_token_ident [simp]: "isUnicodeIdentStartAt E (start_token s) = isUnicodeIdentStartAt E s"
  by (simp add: isUnicodeIdentStartAt_def)

lemma isIdentStart_ascii: "isIdentStart c \<Longrightarrow> byte c < 0x80"
  by (auto simp: isIdentStart_def byte_def)

definition starts_ident :: "lex_input \<Rightarrow> lexer \<Rightarrow> bool" where
  "starts_ident E s \<longleftrightarrow> isIdentStart (peek E s) \<or> (peek E s = BACKSLASH \<and> peekAt E s 1 = CHR ''u'') \<or>
     (byte (peek E s) \<ge> 0x80 \<and> isUnicodeIdentStartAt E s > 0)"

lemma ident_step_starts: "starts_ident E s \<Longrightarrow> ident_step E True s \<noteq> Inr None"
proof -
  have "byte BACKSLASH < 0x80" by (simp add: byte_def)
  then show "starts_ident E s \<Longrightarrow> ident_step E True s \<noteq> Inr None"
    using isIdentStart_ascii [of "peek E s"]
    by (auto simp: starts_ident_def ident_step_def Let_def split: if_splits prod.splits)
qed

lemma ident_progress:
  assumes "scanIdentifierOrKeyword E s = Inr (k, t)" and "starts_ident E s" and "\<not> isAtEnd E s"
  shows "pos s < pos t"
proof -
  let ?s = "start_token s"
  have s: "starts_ident E ?s" "\<not> isAtEnd E ?s"
    using assms(2,3)
    by (simp_all add: starts_ident_def)
  from assms(1) obtain u where u: "ident_loop E True ?s = Inr u" "pos t = pos u"
    by (auto simp: scanIdentifierOrKeyword_def Let_def split: sum.splits if_split_asm option.splits)
  obtain v where v: "ident_step E True ?s = Inr (Some v)" "ident_loop E False v = Inr u"
    using u(1) s ident_step_starts [OF s(1)]
    by (subst (asm) ident_loop.simps) (auto split: sum.splits option.splits)
  have "pos ?s < pos v" using ident_step_pos [OF v(1) s(2)] .
  also have "pos v \<le> pos u" using moves_ident_loop [OF v(2) moves_refl] by (simp add: moves_def)
  finally show ?thesis using u(2) by (simp add: start_token_def)
qed

lemma moves_pos: "moves E s t \<Longrightarrow> pos s \<le> pos t"
  by (simp add: moves_def)

lemma advance_moves_pos: "\<not> isAtEnd E s \<Longrightarrow> moves E (advance E s) t \<Longrightarrow> pos s < pos t"
  using advance_pos less_le_trans moves_pos by blast

lemma number_pos: "number_token E k a t = Inr (tok, u) \<Longrightarrow> pos u = pos t"
  by (auto simp: number_token_def split: if_split_asm)

lemma suffixed_pos: "suffixed_number E a t = Inr (tok, u) \<Longrightarrow> pos t \<le> pos u"
  by (auto simp: suffixed_number_def split: if_split_asm dest!: number_pos intro: advance_pos_le)

lemma legacy_pos: "legacy_number E a t = Inr (tok, u) \<Longrightarrow> pos t \<le> pos u"
proof -
  let ?s = "skip_while E (\<lambda>s. isDigit (peek E s)) t"
  assume "legacy_number E a t = Inr (tok, u)"
  then have "pos ?s \<le> pos u"
    using advance_pos_le [of "reportLexError ''BigInt literal cannot use legacy octal notation'' ?s" E]
    by (auto simp: legacy_number_def Let_def reportLexError_def split: if_split_asm sum.splits dest: number_pos)
  then show ?thesis using skip_while_pos_le [of t E] le_trans by blast
qed

lemma decimal_pos:
  assumes "decimal_number E a t = Inr (tok, u)"
    and "moves E s (snd (fraction_part E (consumeDigitsWithSeparators E isDigit ''decimal literal'' t)))"
  shows "pos s \<le> pos u"
  using decimal_cases [OF assms] number_pos moves_pos by metis

lemma digits_first: "\<not> isAtEnd E s \<Longrightarrow> isDigit (peek E s) \<Longrightarrow>
  moves E (advance E s) (consumeDigitsWithSeparators E isDigit c s)"
  unfolding consumeDigitsWithSeparators_def
  by (subst digits_loop.simps) (auto simp: Let_def intro: scans)

lemma digits_none: "peek E s = CHR ''.'' \<Longrightarrow> consumeDigitsWithSeparators E isDigit c s = s"
  unfolding consumeDigitsWithSeparators_def
  by (subst digits_loop.simps) (simp add: isDigit_def byte_def)

lemma decimal_point_pos:
  assumes "decimal_number E a t = Inr (tok, u)" and "peek E t = CHR ''.''" and "\<not> isAtEnd E t"
  shows "pos t < pos u"
proof -
  have "moves E (advance E t) (snd (fraction_part E t))" using assms(2,3) by (auto simp: fraction_part_def intro: scans)
  then have "pos (advance E t) \<le> pos u" using decimal_pos [OF assms(1)] by (simp add: digits_none [OF assms(2)])
  then show ?thesis using advance_pos [OF assms(3)] by simp
qed

lemma numeric_progress:
  assumes k: "scanNumericLiteral E s = Inr (k, t)" and a: "\<not> isAtEnd E s"
    and c: "isDigit (peek E s) \<or> peek E s = CHR ''.''"
  shows "pos s < pos t"
proof -
  let ?s = "start_token s"
  have s1: "pos s < pos (advance E ?s)" using advance_pos [of E ?s] a by simp
  have pre: "pos s < pos u" if "prefixed_number E d p x n (advance E ?s) = Inr (k, u)" for d p x n u
  proof -
    let ?p = "reportLexError (''Numeric separator cannot be after '' @ p @ '' prefix'') (advance E (advance E ?s))"
    have "moves E (advance E ?s) (consumeDigitsWithSeparators E d x (if b then ?p else advance E (advance E ?s)))" for b
      by (auto intro: scans)
    then have "pos (advance E ?s) \<le> pos u"
      using that unfolding prefixed_number_def Let_def by (blast dest: suffixed_pos moves_pos intro: le_trans)
    then show ?thesis using s1 by simp
  qed
  have dec: "pos s < pos t" if "decimal_number E n ?s = Inr (k, t)" for n
  proof (cases "isDigit (peek E s)")
    case True
    have "pos (advance E ?s) \<le> pos t"
      using decimal_pos [OF that moves_fraction [OF digits_first]] a True by simp
    then show ?thesis using s1 by simp
  next
    case False
    then show ?thesis using decimal_point_pos [OF that] a c by simp
  qed
  have dec0: "pos s < pos t" if "decimal_number E n (advance E ?s) = Inr (k, t)" for n
    using decimal_pos [OF that moves_fraction [OF moves_digits [OF moves_refl]]] s1 by simp
  show ?thesis
    using k pre dec dec0 legacy_pos s1 unfolding scanNumericLiteral_def Let_def
    by (auto split: if_split_asm intro: less_le_trans)
qed

lemma string_progress: "scanStringLiteral E q s = Inr (k, t) \<Longrightarrow> \<not> isAtEnd E s \<Longrightarrow> pos s < pos t"
proof -
  assume k: "scanStringLiteral E q s = Inr (k, t)" and a: "\<not> isAtEnd E s"
  let ?s = "advance E (start_token s)"
  obtain u where u: "string_loop E q ?s = Inr u" "pos u \<le> pos t"
    using k by (auto simp: scanStringLiteral_def Let_def advance_pos_le split: sum.splits if_split_asm)
  then have "pos (start_token s) < pos u"
    using advance_moves_pos moves_string_loop [OF _ moves_refl] a by (metis start_token_peek(1))
  then show ?thesis using u(2) by simp
qed

lemma template_pos: "template_token E a b n t = (k, u) \<Longrightarrow> pos t \<le> pos u"
  using moves_template_loop [OF moves_refl, of E t]
  by (auto simp: template_token_def push_brace_def moves_def split: prod.splits option.splits bool.splits)

lemma template_progress:
  "scanTemplateLiteral E s = (k, t) \<Longrightarrow> \<not> isAtEnd E s \<Longrightarrow> pos s < pos t"
  "scanTemplateContinuation E s = (k, t) \<Longrightarrow> \<not> isAtEnd E s \<Longrightarrow> pos s < pos t"
  using advance_pos [of E "start_token s"]
  by (auto simp: scanTemplateLiteral_def scanTemplateContinuation_def Let_def dest!: template_pos)

lemma regex_progress: "scanRegularExpression E s = Inr (k, t) \<Longrightarrow> \<not> isAtEnd E s \<Longrightarrow> pos s < pos t"
proof -
  assume k: "scanRegularExpression E s = Inr (k, t)" and a: "\<not> isAtEnd E s"
  let ?s = "advance E (start_token s)"
  obtain u where u: "regex_body E False ?s = Some u" "pos u \<le> pos t"
    using k by (auto simp: scanRegularExpression_def Let_def skip_while_pos_le split: option.splits)
  then have "pos (start_token s) < pos u"
    using advance_moves_pos moves_regex_body [OF _ moves_refl] a by (metis start_token_peek(1))
  then show ?thesis using u(2) by simp
qed

lemma punctuation_progress: "scanPunctuation E s = (k, t) \<Longrightarrow> \<not> isAtEnd E s \<Longrightarrow> pos s < pos t"
  using advance_pos [of E "start_token s"] advances_pos_le [of "advance E (start_token s)" E]
  by (auto simp: scanPunctuation_def Let_def split: prod.splits if_split_asm intro: less_le_trans)

section \<open>The next token\<close>

text \<open>A token of the source: a part of it, with the line and the column of its first character.\<close>

definition token_in :: "lex_input \<Rightarrow> token \<Rightarrow> bool" where
  "token_in E k \<longleftrightarrow> tk_offset k + length (tk_text k) \<le> length (source E) \<and>
     tk_text k = take (length (tk_text k)) (drop (tk_offset k) (source E)) \<and>
     (tk_line k, tk_column k) = track (take (tk_offset k) (source E)) (1, 1)"

definition token_end :: "token \<Rightarrow> nat" where
  "token_end k = tk_offset k + length (tk_text k)"

lemma token_of_located:
  assumes "token_of E s k t" and "located E s"
  shows "token_in E k" "located E t" "token_end k = pos t" "tk_offset k = pos s"
proof -
  have t: "located E t" "pos s \<le> pos t" using assms moves_start(1) [of E s t]
    by (auto simp: token_of_def moves_def located_def start_token_def)
  then have len: "pos t \<le> length (source E)" by (simp add: located_def)
  then have l: "length (tk_text k) = pos t - pos s" using assms(1) t by (simp add: token_of_def)
  show "located E t" by (rule t)
  show "tk_offset k = pos s" using assms(1) by (simp add: token_of_def)
  show "token_end k = pos t" using assms(1) t l by (simp add: token_of_def token_end_def)
  show "token_in E k" using assms t l len by (simp add: token_of_def token_in_def located_def)
qed

text \<open>The dispatch: the token starts where the whitespace ends; unless the source ended there, it
  is not empty.\<close>

lemma scanned_token:
  assumes "nextToken E s = Inr (k, t)"
  obtains u where "moves E s u" "token_of E u k t" "isAtEnd E u \<longrightarrow> tk_kind k = EndOfFile"
    "\<not> isAtEnd E u \<longrightarrow> pos u < pos t"
proof -
  obtain v where v: "skipWhitespaceAndComments E (s\<lparr>hadNewline := False\<rparr>) = Inr v"
    using assms by (auto simp: nextToken_def split: sum.splits)
  let ?u = "v\<lparr>hasEmittedToken := True\<rparr>" and ?w = "start_token (v\<lparr>hasEmittedToken := True\<rparr>)"
  have m: "moves E s ?u" using moves_skip [OF v moves_updates(1) [OF moves_refl]] by (rule moves_updates)
  have same: "token_of E ?w k t \<Longrightarrow> token_of E ?u k t" by (simp add: token_of_def start_token_def)
  let ?c = "peek E ?u"
  note n = assms [unfolded nextToken_def v sum.case Let_def]
  show ?thesis
  proof (cases "isAtEnd E ?u")
    case True
    then have "t = ?w" "k = makeToken E ?w EndOfFile (pos ?u)" using n by auto
    moreover have "token_of E ?u (makeToken E ?w EndOfFile (pos ?u)) ?w" by (intro scans)
    ultimately show ?thesis using that [OF m] True by (simp add: makeToken_def)
  next
    case False
    note n' = n [simplified False if_False]
    have goal: "token_of E ?u k t \<and> pos ?u < pos t"
    proof (cases "templateBraceDepth ?u \<noteq> [] \<and> ?c = CHR ''}'' \<and> braceDepth ?u = last (templateBraceDepth ?u)")
      case True
      then have "scanTemplateContinuation E ?u = (k, t)" using n' by simp
      then show ?thesis using template_tokens(2) template_progress(2) False by blast
    next
      case nt: False
      have w: "\<not> isAtEnd E ?w" "pos ?w = pos ?u" using False by simp_all
      from n' nt consider
          (i) "scanIdentifierOrKeyword E ?w = Inr (k, t)" "starts_ident E ?w"
        | (n) "scanNumericLiteral E ?w = Inr (k, t)" "isDigit (peek E ?w) \<or> peek E ?w = CHR ''.''"
        | (s) q where "scanStringLiteral E q ?w = Inr (k, t)"
        | (t) "scanTemplateLiteral E ?w = (k, t)"
        | (r) "scanRegularExpression E ?w = Inr (k, t)"
        | (p) "scanPunctuation E ?w = (k, t)"
        by (fastforce simp: starts_ident_def split: if_split_asm)
      then have "token_of E ?w k t \<and> pos ?w < pos t"
      proof cases
        case i then show ?thesis using ident_token ident_progress w(1) by blast
      next
        case n then show ?thesis using numeric_token numeric_progress w(1) by blast
      next
        case s then show ?thesis using string_token string_progress w(1) by blast
      next
        case t then show ?thesis using template_tokens(1) template_progress(1) w(1) by blast
      next
        case r then show ?thesis using regex_token regex_progress w(1) by blast
      next
        case p then show ?thesis using punctuation_token punctuation_progress w(1) by blast
      qed
      then show ?thesis using same w(2) by simp
    qed
    then show ?thesis using that [OF m] False by simp
  qed
qed


section \<open>A file of tokens\<close>

text \<open>The calls of the parser: before each one it says whether a slash starts a regular expression.\<close>

primrec token_run ::
  "('s \<Rightarrow> lex_error + token \<times> 's) \<Rightarrow> (bool \<Rightarrow> 's \<Rightarrow> 's) \<Rightarrow> bool list \<Rightarrow> 's \<Rightarrow> lex_error + token list \<times> 's" where
  "token_run get permit [] s = Inr ([], s)"
| "token_run get permit (b # bs) s =
     (case get (permit b s) of
        Inl e \<Rightarrow> Inl e
      | Inr (k, t) \<Rightarrow>
          (case token_run get permit bs t of Inl e \<Rightarrow> Inl e | Inr (ks, u) \<Rightarrow> Inr (k # ks, u)))"

text \<open>What the parser relies on: each token lies in the source behind the cursor of the call
  before, and is empty only at the end.\<close>

locale token_source =
  fixes get :: "'s \<Rightarrow> lex_error + token \<times> 's" and permit :: "bool \<Rightarrow> 's \<Rightarrow> 's"
    and cursor :: "'s \<Rightarrow> nat" and ok :: "'s \<Rightarrow> bool" and valid :: "token \<Rightarrow> bool" and len :: nat
  assumes permit_ok: "ok s \<Longrightarrow> ok (permit b s)" and permit_cursor: "cursor (permit b s) = cursor s"
    and next_ok: "ok s \<Longrightarrow> get s = Inr (k, t) \<Longrightarrow> ok t"
    and next_valid: "ok s \<Longrightarrow> get s = Inr (k, t) \<Longrightarrow> valid k"
    and next_span: "ok s \<Longrightarrow> get s = Inr (k, t) \<Longrightarrow> cursor s \<le> tk_offset k \<and> token_end k = cursor t"
    and next_bound: "ok s \<Longrightarrow> cursor s \<le> len"
    and next_progress: "ok s \<Longrightarrow> get s = Inr (k, t) \<Longrightarrow> tk_kind k \<noteq> EndOfFile \<Longrightarrow> tk_offset k < token_end k"
begin

lemma run_step:
  assumes "token_run get permit (b # bs) s = Inr (ks, u)" and "ok s"
  obtains k ks' t where "ks = k # ks'" "get (permit b s) = Inr (k, t)" "token_run get permit bs t = Inr (ks', u)"
    "ok t" "valid k" "cursor s \<le> tk_offset k" "token_end k = cursor t"
proof -
  obtain k t ks' where n: "get (permit b s) = Inr (k, t)"
    and r: "token_run get permit bs t = Inr (ks', u)" "ks = k # ks'"
    using assms(1) by (auto split: sum.splits prod.splits)
  note p = permit_ok [OF assms(2), of b]
  show ?thesis
    using that [OF r(2) n r(1) next_ok [OF p n] next_valid [OF p n]] next_span [OF p n]
    by (simp add: permit_cursor)
qed

lemma run_tokens:
  "ok s \<Longrightarrow> token_run get permit bs s = Inr (ks, u) \<Longrightarrow>
    ok u \<and> (\<forall>k \<in> set ks. valid k \<and> cursor s \<le> tk_offset k) \<and>
    sorted_wrt (\<lambda>a b. token_end a \<le> tk_offset b) ks"
proof (induction bs arbitrary: s ks)
  case (Cons b bs)
  from Cons.prems(2,1) show ?case
  proof (rule run_step)
    fix k ks' t
    assume k: "ks = k # ks'" "get (permit b s) = Inr (k, t)" "token_run get permit bs t = Inr (ks', u)"
      "ok t" "valid k" "cursor s \<le> tk_offset k" "token_end k = cursor t"
    have "tk_offset k \<le> token_end k" by (simp add: token_end_def)
    then show ?thesis using Cons.IH [OF k(4,3)] k by fastforce
  qed
qed simp

lemma run_length:
  "ok s \<Longrightarrow> token_run get permit bs s = Inr (ks, u) \<Longrightarrow> \<forall>k \<in> set ks. tk_kind k \<noteq> EndOfFile \<Longrightarrow>
    cursor s + length bs \<le> cursor u"
proof (induction bs arbitrary: s ks)
  case (Cons b bs)
  from Cons.prems(2,1) show ?case
  proof (rule run_step)
    fix k ks' t
    assume k: "ks = k # ks'" "get (permit b s) = Inr (k, t)" "token_run get permit bs t = Inr (ks', u)"
      "ok t" "valid k" "cursor s \<le> tk_offset k" "token_end k = cursor t"
    have "tk_offset k < token_end k" using next_progress [OF permit_ok [OF Cons.prems(1)] k(2)] Cons.prems(3) k(1) by simp
    then show ?thesis using Cons.IH [OF k(4,3)] Cons.prems(3) k(1,6,7) by simp
  qed
qed simp

lemma run_ends:
  assumes "ok s" and "token_run get permit bs s = Inr (ks, u)" and "len < cursor s + length bs"
  shows "\<exists>k \<in> set ks. tk_kind k = EndOfFile"
  using run_length [OF assms(1,2)] next_bound [of u] run_tokens [OF assms(1,2)] assms(3) by fastforce

end

lemma next_located:
  assumes "located E s" and "nextToken E s = Inr (k, t)"
  shows "located E t" "token_in E k" "pos s \<le> tk_offset k" "token_end k = pos t"
    "tk_kind k \<noteq> EndOfFile \<Longrightarrow> tk_offset k < token_end k"
proof -
  from assms(2) obtain u where u: "moves E s u" "token_of E u k t" "isAtEnd E u \<longrightarrow> tk_kind k = EndOfFile"
    "\<not> isAtEnd E u \<longrightarrow> pos u < pos t"
    by (rule scanned_token)
  have l: "located E u" "pos s \<le> pos u" using u(1) assms(1) by (auto simp: moves_def)
  note t = token_of_located [OF u(2) l(1)]
  show "located E t" "token_in E k" "pos s \<le> tk_offset k" "token_end k = pos t" using t l(2) by simp_all
  show "tk_kind k \<noteq> EndOfFile \<Longrightarrow> tk_offset k < token_end k" using u(3,4) t by auto
qed

interpretation lexer: token_source "nextToken E" setRegexAllowed pos "located E" "token_in E" "length (source E)" for E
proof
  fix s k t b
  show "located E s \<Longrightarrow> located E (setRegexAllowed b s)" "pos (setRegexAllowed b s) = pos s"
    by (simp_all add: setRegexAllowed_def located_def)
  show "located E s \<Longrightarrow> pos s \<le> length (source E)" by (simp add: located_def)
  assume l: "located E s" and n: "nextToken E s = Inr (k, t)"
  note x = next_located [OF l n]
  show "located E t" "token_in E k" "pos s \<le> tk_offset k \<and> token_end k = pos t" using x by simp_all
  show "tk_kind k \<noteq> EndOfFile \<Longrightarrow> tk_offset k < token_end k" using x(5) .
qed

lemma located_new: "located E new_lexer"
  by (simp add: located_def new_lexer_def splits_crlf_def)

text \<open>C9. The tokens of a file are disjoint parts of its text in order: whatever the parser says
  about slashes between the calls, every token that the lexer delivers has as its text the bytes of
  the source from its offset on, as its line and column those of its first byte (lines end with LF,
  CR or CR LF), and it starts where or after the token before it ended.\<close>

theorem lexer_locates_tokens:
  assumes "token_run (nextToken E) setRegexAllowed bs new_lexer = Inr (ks, t)"
  shows "(\<forall>k \<in> set ks. token_in E k) \<and> sorted_wrt (\<lambda>a b. token_end a \<le> tk_offset b) ks"
  using lexer.run_tokens [OF located_new assms] by blast

text \<open>C31. Lexing ends: every loop of the lexer terminates, and after at most one call more than the
  source has bytes the lexer has thrown a SyntaxError or delivered the end of the file.\<close>

theorem lexing_ends:
  assumes "length (source E) < length bs"
  shows "(\<exists>e. token_run (nextToken E) setRegexAllowed bs new_lexer = Inl e) \<or>
    (\<exists>ks t. token_run (nextToken E) setRegexAllowed bs new_lexer = Inr (ks, t) \<and>
      (\<exists>k \<in> set ks. tk_kind k = EndOfFile))"
proof (cases "token_run (nextToken E) setRegexAllowed bs new_lexer")
  case (Inr r)
  obtain ks t where r: "r = (ks, t)" by (cases r)
  have "length (source E) < pos new_lexer + length bs" using assms by simp
  then show ?thesis using lexer.run_ends [OF located_new] Inr r by blast
qed simp

text \<open>A one-character file.\<close>

definition plus_input :: lex_input where
  "plus_input = \<lparr>source = ''+'', moduleGoal = True, u_isIDStart = \<lambda>_. False, u_isIDPart = \<lambda>_. False,
     u_isUWhiteSpace = \<lambda>_. False, validateRegExpLiteral = \<lambda>_ _. None\<rparr>"

lemma plus_run:
  "\<exists>ks t. token_run (nextToken plus_input) setRegexAllowed [True, True] new_lexer = Inr (ks, t) \<and>
    map tk_kind ks = [Plus, EndOfFile] \<and> map tk_column ks = [1, 2]"
  by (simp add: nextToken_def skipWhitespaceAndComments.simps skip_step_def plus_input_def new_lexer_def
    setRegexAllowed_def isAtEnd_def peek_def peekAt_def byte_def isIdentStart_def isDigit_def Let_def
    start_token_def scanPunctuation_def punctuator_def advance_def makeToken_def)

theorem lexer_locates_tokens_witness:
  "\<exists>ks t. token_run (nextToken plus_input) setRegexAllowed [True, True] new_lexer = Inr (ks, t) \<and>
    (\<forall>k \<in> set ks. token_in plus_input k)"
  using plus_run lexer_locates_tokens [of plus_input "[True, True]"] by blast

theorem lexing_ends_witness:
  "\<exists>ks t. token_run (nextToken plus_input) setRegexAllowed [True, True] new_lexer = Inr (ks, t) \<and>
    (\<exists>k \<in> set ks. tk_kind k = EndOfFile)"
proof -
  have "length (source plus_input) < length [True, True]" by (simp add: plus_input_def)
  from lexing_ends [OF this] show ?thesis using plus_run by fastforce
qed

end
