(* ===== verification/LexerSpec.thy ===== *)
theory LexerSpec
  imports LexerText LexerCorrect "HOL-Library.Sublist"
begin

text \<open>
  What punctuation tokens mean: the nested switches of \<open>Lexer::scanPunctuation\<close> recognise
  the longest match in the table of punctuators, and nothing else.
\<close>

section \<open>Longest match\<close>

definition punctuators :: "(token_kind \<times> string) list" where
  "punctuators = filter (\<lambda>(k, tx). OpenParen \<le> k \<and> k \<le> QuestionQuestionEquals) token_names"

lemma punctuators_table: "punctuators = take 59 (drop 76 token_names)"
  by (simp add: punctuators_def token_names_def less_eq_token_kind_def)

lemmas punctuator_list = punctuators_table [unfolded token_names_def, simplified]

text \<open>A text without NUL is a prefix of what is ahead when its characters are the ones peeked at.\<close>

fun ahead :: "lex_input \<Rightarrow> lexer \<Rightarrow> nat \<Rightarrow> string \<Rightarrow> bool" where
  "ahead E s k [] = True"
| "ahead E s k (c # cs) \<longleftrightarrow> peekAt E s k = c \<and> ahead E s (Suc k) cs"

lemma ahead_prefix: "CHR 0x00 \<notin> set cs \<Longrightarrow> ahead E s k cs = prefix cs (drop (pos s + k) (source E))"
proof (induction cs arbitrary: k)
  case (Cons c cs)
  show ?case
  proof (cases "pos s + k < length (source E)")
    case True
    then have "drop (pos s + k) (source E) = source E ! (pos s + k) # drop (pos s + Suc k) (source E)"
      by (simp add: Cons_nth_drop_Suc)
    then show ?thesis using Cons True by (auto simp: peekAt_def)
  next
    case False
    then show ?thesis using Cons.prems by (auto simp: peekAt_def)
  qed
qed simp

lemma punctuators_no_nul: "(k, tx) \<in> set punctuators \<Longrightarrow> CHR 0x00 \<notin> set tx"
proof -
  have "list_all (\<lambda>(k, tx). CHR 0x00 \<notin> set tx) punctuators" by (simp add: punctuator_list)
  then show "(k, tx) \<in> set punctuators \<Longrightarrow> CHR 0x00 \<notin> set tx" by (auto simp: list_all_iff)
qed

definition first_chars :: string where
  "first_chars = ''(){}[];,~@#.:?+-*/%&|^!=<>''"

definition longest :: "lex_input \<Rightarrow> lexer \<Rightarrow> token_kind \<Rightarrow> nat \<Rightarrow> bool" where
  "longest E s k n \<longleftrightarrow>
     list_ex (\<lambda>(k', tx). k' = k \<and> length tx = Suc n \<and> ahead E s 0 tx) punctuators \<and>
     list_all (\<lambda>(k', tx). ahead E s 0 tx \<longrightarrow> length tx \<le> Suc n \<or> (k' = QuestionDot \<and> isDigit (peekAt E s 2))) punctuators"

lemma peek_after:
  "pos t = Suc (pos s) \<Longrightarrow> peek E t = peekAt E s 1 \<and> peekAt E t (Suc 0) = peekAt E s 2 \<and> peekAt E t 2 = peekAt E s 3"
  by (simp add: peek_def peekAt_def numeral_3_eq_3)

lemma punctuator_longest:
  assumes t: "pos t = Suc (pos s)" and c: "c = peekAt E s 0" "c \<in> set first_chars"
  shows "longest E s (fst (punctuator E t c)) (snd (punctuator E t c))"
proof -
  note p = peek_after [OF t, of E, unfolded numeral_2_eq_2 numeral_3_eq_3]
  have "list_all (\<lambda>c. peekAt E s 0 = c \<longrightarrow> longest E s (fst (punctuator E t c)) (snd (punctuator E t c))) first_chars"
    unfolding first_chars_def list.pred_inject
    by (intro conjI impI; simp add: longest_def punctuator_list punctuator_def p Let_def numeral_2_eq_2 numeral_3_eq_3)
  then show ?thesis using c by (simp add: list_all_iff)
qed


lemma punctuator_error: "fst (punctuator E t c) = Error \<longleftrightarrow> c \<notin> set first_chars"
proof
  have "list_all (\<lambda>c. fst (punctuator E t c) \<noteq> Error) first_chars"
    unfolding first_chars_def list.pred_inject
    by (intro conjI; simp add: punctuator_def Let_def)
  then show "fst (punctuator E t c) = Error \<Longrightarrow> c \<notin> set first_chars" by (auto simp: list_all_iff)
  show "c \<notin> set first_chars \<Longrightarrow> fst (punctuator E t c) = Error"
    by (simp add: first_chars_def punctuator_def Let_def)
qed

lemma punctuators_first: "(k, tx) \<in> set punctuators \<Longrightarrow> tx \<noteq> [] \<and> hd tx \<in> set first_chars"
proof -
  have "list_all (\<lambda>(k, tx). tx \<noteq> [] \<and> hd tx \<in> set first_chars) punctuators"
    by (simp add: punctuator_list first_chars_def)
  then show "(k, tx) \<in> set punctuators \<Longrightarrow> tx \<noteq> [] \<and> hd tx \<in> set first_chars"
    by (auto simp: list_all_iff)
qed

lemma advances_line:
  "\<forall>i < n. peekAt E s i \<notin> {CR, LF, CHR 0x00} \<Longrightarrow> pos (advances E n s) = pos s + n"
proof (induction n arbitrary: s)
  case (Suc n)
  have 0: "peekAt E s 0 \<notin> {CR, LF, CHR 0x00}" using Suc.prems by blast
  then have a: "pos (advance E s) = Suc (pos s)" by (auto simp: advance_def peekAt_def Let_def split: if_splits)
  have "\<forall>i < n. peekAt E (advance E s) i \<notin> {CR, LF, CHR 0x00}"
    using Suc.prems by (auto simp: peekAt_def a)
  then show ?case using Suc.IH [of "advance E s"] a by simp
qed simp

lemma ahead_chars: "ahead E s k cs \<Longrightarrow> i < length cs \<Longrightarrow> peekAt E s (k + i) = cs ! i"
  by (induction cs arbitrary: k i) (auto simp: nth_Cons split: nat.splits, metis add_Suc)


lemma punctuators_plain: "(k, tx) \<in> set punctuators \<Longrightarrow> CR \<notin> set tx \<and> LF \<notin> set tx"
proof -
  have "list_all (\<lambda>(k, tx). CR \<notin> set tx \<and> LF \<notin> set tx) punctuators" by (simp add: punctuator_list)
  then show "(k, tx) \<in> set punctuators \<Longrightarrow> CR \<notin> set tx \<and> LF \<notin> set tx" by (auto simp: list_all_iff)
qed

lemma punctuator_prefix: "(k, tx) \<in> set punctuators \<Longrightarrow> ahead E s 0 tx = prefix tx (rest E s)"
  using ahead_prefix [of tx E s 0] punctuators_no_nul by (simp add: rest_def)

text \<open>C10. Punctuation is scanned by longest match: where the scanner delivers a punctuator, its
  kind and text are a row of the table of names, the text is what stands at the cursor, and no
  longer punctuator does, except an optional-chaining \<open>?.\<close> that a digit follows; and it
  delivers an error token exactly where no punctuator stands.\<close>

theorem punctuation_longest_match:
  assumes "\<not> isAtEnd E s" and "scanPunctuation E s = (k, t)"
  shows "if tk_kind k = Error then \<forall>(kd, tx) \<in> set punctuators. \<not> prefix tx (rest E s)
    else (tk_kind k, tk_text k) \<in> set punctuators \<and> prefix (tk_text k) (rest E s) \<and>
      (\<forall>(kd, tx) \<in> set punctuators. prefix tx (rest E s) \<longrightarrow>
        length tx \<le> length (tk_text k) \<or> (kd = QuestionDot \<and> isDigit (peekAt E s 2)))"
proof -
  let ?c = "peek E s" and ?s = "advance E (start_token s)"
  obtain kd n where kn: "punctuator E ?s ?c = (kd, n)" by (cases "punctuator E ?s ?c")
  have k: "tk_kind k = kd" "tk_text k = take (pos t - pos s) (rest E s)" "pos t = pos (advances E n ?s)"
    using assms(2) kn by (auto simp: scanPunctuation_def makeToken_def rest_def Let_def split: if_split_asm)
  show ?thesis
  proof (cases "?c \<in> set first_chars")
    case False
    then have "kd = Error" using punctuator_error [of E ?s ?c] kn by simp
    moreover have "\<not> prefix tx (rest E s)" if "(k', tx) \<in> set punctuators" for k' tx
      using punctuators_first [OF that] False punctuator_prefix [OF that, of E s]
      by (cases tx) (auto simp: peek_def)
    ultimately show ?thesis using k(1) by auto
  next
    case True
    have c: "peekAt E s 0 = ?c" by (simp add: peek_def)
    have "?c \<notin> {CR, LF, CHR 0x00}" using True by (auto simp: first_chars_def)
    then have p1: "pos ?s = Suc (pos s)"
      using assms(1) by (auto simp: advance_def isAtEnd_def peek_def peekAt_def start_token_def Let_def)
    have l: "longest E s kd n" using punctuator_longest [OF p1 c [symmetric]] True kn by simp
    then obtain tx where tx: "(kd, tx) \<in> set punctuators" "length tx = Suc n" "ahead E s 0 tx"
      by (auto simp: longest_def list_ex_iff)
    have "\<forall>i < n. peekAt E ?s i \<notin> {CR, LF, CHR 0x00}"
    proof (intro allI impI)
      fix i assume i: "i < n"
      have "peekAt E ?s i = peekAt E s (0 + Suc i)" by (simp add: peekAt_def p1)
      also have "\<dots> = tx ! Suc i" using i tx(2) by (intro ahead_chars [OF tx(3)]) simp
      finally show "peekAt E ?s i \<notin> {CR, LF, CHR 0x00}"
        using punctuators_plain [OF tx(1)] punctuators_no_nul [OF tx(1)] nth_mem [of "Suc i" tx] i tx(2)
        by (metis Suc_less_eq insertE singletonD)
    qed
    then have "pos t - pos s = length tx" using advances_line k(3) p1 tx(2) by simp
    moreover have "prefix tx (rest E s)" using tx(1,3) punctuator_prefix by blast
    ultimately have tt: "tk_text k = tx" "prefix tx (rest E s)" using k(2) by (auto elim: prefixE)
    have "kd \<noteq> Error" using punctuator_error [of E ?s ?c] kn True by simp
    moreover have "\<forall>(k', tx') \<in> set punctuators. prefix tx' (rest E s) \<longrightarrow>
        length tx' \<le> length (tk_text k) \<or> (k' = QuestionDot \<and> isDigit (peekAt E s 2))"
      using l punctuator_prefix tt(1) tx(2) by (fastforce simp: longest_def list_all_iff)
    ultimately show ?thesis using k(1) tt tx(1) by simp
  qed
qed

theorem punctuation_longest_match_witness:
  "\<not> isAtEnd plus_input new_lexer \<and>
    (Plus, ''+'') \<in> set punctuators \<and> tk_kind (fst (scanPunctuation plus_input new_lexer)) = Plus"
proof -
  have a: "\<not> isAtEnd plus_input new_lexer" by (simp add: isAtEnd_def plus_input_def new_lexer_def)
  have k: "tk_kind (fst (scanPunctuation plus_input new_lexer)) = Plus"
    "tk_text (fst (scanPunctuation plus_input new_lexer)) = ''+''"
    by (simp_all add: plus_input_def new_lexer_def peek_def peekAt_def Let_def
      start_token_def scanPunctuation_def punctuator_def advance_def makeToken_def)
  show ?thesis using punctuation_longest_match [OF a surjective_pairing] a k by simp
qed

end
