(* ===== verification/EscapeSpec.thy ===== *)
theory EscapeSpec
  imports LexerText
begin

text \<open>
  The texts behind tokens: the keyword table and the names of the token kinds are inverse, every
  code point that an escape encodes is decoded by the scanner to the same code point, and the
  escapes of string literals and templates compared with each other.
\<close>

section \<open>UTF-8\<close>

lemma byte_char_of: "byte (char_of n) = n mod 256"
  by (simp add: byte_def)

lemma byte_char_of_int: "byte (char_of (n :: int)) = nat (n mod 256)"
  unfolding byte_def by (subst nat_of_char [symmetric]) simp

lemma byte_bound [simp]: "byte c < 256"
  by (simp add: byte_def)

text \<open>The masks of the code, as arithmetic.\<close>

lemma and_high_bits:
  assumes "b < 2 ^ (n + k)"
  shows "b AND push_bit n (mask k) = 2 ^ n * (b div 2 ^ n :: nat)"
proof -
  have "b AND push_bit n (mask k) = push_bit n (take_bit k (drop_bit n b))"
    by (rule bit_eqI) (auto simp: bit_simps)
  also have "take_bit k (drop_bit n b) = drop_bit n b"
    using assms by (simp add: take_bit_nat_eq_self drop_bit_eq_div less_mult_imp_div_less power_add mult.commute)
  finally show ?thesis by (simp add: push_bit_eq_mult drop_bit_eq_div mult.commute)
qed

lemma byte_masks:
  assumes "b < 256"
  shows "b AND 0xC0 = 64 * (b div 64 :: nat)" "b AND 0xE0 = 32 * (b div 32)"
    "b AND 0xF0 = 16 * (b div 16)" "b AND 0xF8 = 8 * (b div 8)"
  using and_high_bits [of b 6 2] and_high_bits [of b 5 3] and_high_bits [of b 4 4] and_high_bits [of b 3 5] assms
  by (simp_all add: mask_eq_exp_minus_1 push_bit_eq_mult)

lemma low_masks:
  "b AND 0x3F = b mod (64 :: nat)" "b AND 0x1F = b mod (32 :: nat)" "b AND 0x0F = b mod (16 :: nat)"
  "b AND 0x07 = b mod (8 :: nat)" "x AND 0x3F = x mod (64 :: int)"
  using take_bit_eq_mask [of 6 b] take_bit_eq_mask [of 5 b] take_bit_eq_mask [of 4 b] take_bit_eq_mask [of 3 b]
    take_bit_eq_mask [of 6 x]
  by (simp_all add: take_bit_eq_mod mask_eq_exp_minus_1)

lemma or_low:
  assumes "a < 2 ^ n"
  shows "push_bit n b OR a = 2 ^ n * b + (a :: nat)"
proof -
  have "\<not> bit (push_bit n b) m \<or> \<not> bit a m" for m
    using assms by (metis bit_push_bit_iff bit_take_bit_iff take_bit_nat_eq_self not_le)
  then have "push_bit n b + a = push_bit n b OR a" by (rule disjunctive_add)
  then show ?thesis by (simp add: push_bit_eq_mult mult.commute)
qed


lemma or_low_int:
  assumes "0 \<le> a" "a < 2 ^ n"
  shows "push_bit n b OR a = 2 ^ n * b + (a :: int)"
proof -
  have "\<not> bit (push_bit n b) m \<or> \<not> bit a m" for m
    using assms by (metis bit_push_bit_iff bit_take_bit_iff take_bit_int_eq_self not_le)
  then have "push_bit n b + a = push_bit n b OR a" by (rule disjunctive_add)
  then show ?thesis by (simp add: push_bit_eq_mult mult.commute)
qed

lemma lead_bytes:
  "0 \<le> a \<Longrightarrow> a < 64 \<Longrightarrow> 0xC0 OR a = 192 + (a :: int)" "0 \<le> a \<Longrightarrow> a < 32 \<Longrightarrow> 0xE0 OR a = 224 + a"
  "0 \<le> a \<Longrightarrow> a < 16 \<Longrightarrow> 0xF0 OR a = 240 + a" "0 \<le> a \<Longrightarrow> a < 128 \<Longrightarrow> 0x80 OR a = 128 + a"
  using or_low_int [of a 6 3] or_low_int [of a 5 7] or_low_int [of a 4 15] or_low_int [of a 7 1]
  by (simp_all add: push_bit_eq_mult)

lemma byte_lead:
  "cp < 0x800 \<Longrightarrow> byte (char_of (0xC0 OR drop_bit 6 (int cp))) = 192 + cp div 64"
  "cp < 0x10000 \<Longrightarrow> byte (char_of (0xE0 OR drop_bit 12 (int cp))) = 224 + cp div 4096"
  "cp < 0x110000 \<Longrightarrow> byte (char_of (0xF0 OR drop_bit 18 (int cp))) = 240 + cp div 262144"
  "byte (char_of (0x80 OR (x AND 0x3F))) = 128 + nat (x mod 64)"
proof -
  show "cp < 0x800 \<Longrightarrow> byte (char_of (0xC0 OR drop_bit 6 (int cp))) = 192 + cp div 64"
    using lead_bytes(1) [of "int cp div 64"] by (simp add: byte_char_of_int drop_bit_eq_div nat_add_distrib div_int_pos_iff nat_div_distrib)
  show "cp < 0x10000 \<Longrightarrow> byte (char_of (0xE0 OR drop_bit 12 (int cp))) = 224 + cp div 4096"
    using lead_bytes(2) [of "int cp div 4096"] by (simp add: byte_char_of_int drop_bit_eq_div nat_add_distrib div_int_pos_iff nat_div_distrib)
  show "cp < 0x110000 \<Longrightarrow> byte (char_of (0xF0 OR drop_bit 18 (int cp))) = 240 + cp div 262144"
    using lead_bytes(3) [of "int cp div 262144"] by (simp add: byte_char_of_int drop_bit_eq_div nat_add_distrib div_int_pos_iff nat_div_distrib)
  have "0x80 OR (x mod 64) = 128 + x mod 64" using lead_bytes(4) [of "x mod 64"] pos_mod_bound [of 64 x] by simp
  moreover have "(128 + x mod 64) mod 256 = 128 + x mod 64" using pos_mod_bound [of 64 x] pos_mod_sign [of 64 x] by simp
  ultimately show "byte (char_of (0x80 OR (x AND 0x3F))) = 128 + nat (x mod 64)"
    by (simp add: byte_char_of_int low_masks nat_add_distrib)
qed

lemma split_div: "a < m \<Longrightarrow> (m * k + a) div m = (k :: nat)" "a < m \<Longrightarrow> (m * k + a) mod m = a"
  by simp_all

lemma trail_div: "a < 64 \<Longrightarrow> (128 + a) div 64 = (2 :: nat) \<and> (128 + a) mod 64 = a"
  using split_div [of a 64 2] by simp

lemma follow_trail:
  assumes "i < length p" and "byte (p ! i) = 128 + a" and "a < 64"
  shows "follow p i = Some a"
  using assms trail_div [OF assms(3)] by (simp add: follow_def byte_masks low_masks)

lemma decode_ascii: "byte c < 0x80 \<Longrightarrow> decodeUtf8 (c # r) = (Some (byte c), 1)"
  by (simp add: decodeUtf8_def)

lemma decode2:
  assumes "byte c0 = 192 + a" "a < 32" "byte c1 = 128 + b" "b < 64"
  shows "decodeUtf8 (c0 # c1 # r) = (Some (64 * a + b), 2)"
proof -
  have "(192 + a) div 32 = 6" "(192 + a) mod 32 = a" using split_div [of a 32 6] assms(2) by simp_all
  then show ?thesis
    using assms follow_trail [of 1 "c0 # c1 # r" b] or_low [of b 6 a]
    by (simp add: decodeUtf8_def byte_masks low_masks)
qed

lemma decode3:
  assumes "byte c0 = 224 + a" "a < 16" "byte c1 = 128 + b" "b < 64" "byte c2 = 128 + d" "d < 64"
  shows "decodeUtf8 (c0 # c1 # c2 # r) = (Some (4096 * a + 64 * b + d), 3)"
proof -
  have m: "(224 + a) div 32 = 7" "(224 + a) div 16 = 14" "(224 + a) mod 16 = a"
    using split_div [of a 32 7] split_div [of a 16 14] assms(2) by simp_all
  have o: "push_bit 6 b OR d = 64 * b + d" "push_bit 12 a OR (64 * b + d) = 4096 * a + (64 * b + d)"
    using or_low [of d 6 b] or_low [of "64 * b + d" 12 a] assms(4,6) by simp_all
  then show ?thesis
    using assms m follow_trail [of 1 "c0 # c1 # c2 # r" b] follow_trail [of 2 "c0 # c1 # c2 # r" d]
    by (simp add: decodeUtf8_def byte_masks low_masks)
qed

lemma decode4:
  assumes "byte c0 = 240 + a" "a < 8" "byte c1 = 128 + b" "b < 64" "byte c2 = 128 + d" "d < 64"
    "byte c3 = 128 + e" "e < 64"
  shows "decodeUtf8 (c0 # c1 # c2 # c3 # r) = (Some (262144 * a + 4096 * b + 64 * d + e), 4)"
proof -
  have m: "(240 + a) div 32 = 7" "(240 + a) div 16 = 15" "(240 + a) div 8 = 30" "(240 + a) mod 8 = a"
    using split_div [of "16 + a" 32 7] split_div [of a 16 15] split_div [of a 8 30] assms(2) by simp_all
  have o: "push_bit 6 d OR e = 64 * d + e" "push_bit 12 b OR (64 * d + e) = 4096 * b + (64 * d + e)"
    "push_bit 18 a OR (4096 * b + (64 * d + e)) = 262144 * a + (4096 * b + (64 * d + e))"
    using or_low [of e 6 d] or_low [of "64 * d + e" 12 b] or_low [of "4096 * b + (64 * d + e)" 18 a] assms(4,6,8)
    by simp_all
  then show ?thesis
    using assms m follow_trail [of 1 "c0 # c1 # c2 # c3 # r" b] follow_trail [of 2 "c0 # c1 # c2 # c3 # r" d]
      follow_trail [of 3 "c0 # c1 # c2 # c3 # r" e]
    by (simp add: decodeUtf8_def byte_masks low_masks)
qed

text \<open>C32. UTF-8 is written as it is read: what an escape of a string or template encodes for a code
  point of Unicode, the scanner decodes to the same code point, over the same number of bytes, and
  whatever follows.\<close>

theorem utf8_roundtrip:
  assumes "cp < 0x110000"
  shows "decodeUtf8 (encodeUtf8 (int cp) @ r) = (Some cp, length (encodeUtf8 (int cp)))"
proof -
  have d: "64 * (cp div 64) + cp mod 64 = cp" "64 * (cp div 4096) + cp div 64 mod 64 = cp div 64"
    "64 * (cp div 262144) + cp div 4096 mod 64 = cp div 4096"
    using mult_div_mod_eq [of 64 "cp div 64"] mult_div_mod_eq [of 64 "cp div 4096"]
    by (simp_all add: div_mult2_eq [symmetric])
  have n: "nat (int cp mod 64) = cp mod 64" "nat (int cp div 64 mod 64) = cp div 64 mod 64"
    "nat (int cp div 4096 mod 64) = cp div 4096 mod 64"
    by (simp_all add: nat_mod_distrib nat_div_distrib)
  have t: "byte (char_of (0x80 OR (int cp AND 0x3F))) = 128 + cp mod 64"
    "byte (char_of (0x80 OR (int cp div 64 AND 0x3F))) = 128 + cp div 64 mod 64"
    "byte (char_of (0x80 OR (int cp div 4096 AND 0x3F))) = 128 + cp div 4096 mod 64"
    using byte_lead(4) [of "int cp"] byte_lead(4) [of "int cp div 64"] byte_lead(4) [of "int cp div 4096"]
    by (simp_all only: n)
  consider "cp < 0x80" | "0x80 \<le> cp" "cp < 0x800" | "0x800 \<le> cp" "cp < 0x10000" | "0x10000 \<le> cp" by linarith
  then show ?thesis
  proof cases
    case 1
    then have "byte (char_of (int cp)) = cp" by (simp add: byte_char_of_int byte_char_of)
    then show ?thesis using 1 decode_ascii [of "char_of (int cp)" r] by (simp add: encodeUtf8_def)
  next
    case 2
    then show ?thesis
      using d(1) decode2 [OF byte_lead(1) [OF 2(2)] _ t(1)] by (simp add: encodeUtf8_def)
  next
    case 3
    have "4096 * (cp div 4096) + 64 * (cp div 64 mod 64) + cp mod 64 = cp" using d by linarith
    then show ?thesis
      using 3 decode3 [OF byte_lead(2) [OF 3(2)] _ t(2) _ t(1)] by (simp add: encodeUtf8_def drop_bit_eq_div)
  next
    case 4
    have "262144 * (cp div 262144) + 4096 * (cp div 4096 mod 64) + 64 * (cp div 64 mod 64) + cp mod 64 = cp"
      using d by linarith
    then show ?thesis
      using 4 assms decode4 [OF byte_lead(3) [OF assms] _ t(3) _ t(2) _ t(1)] by (simp add: encodeUtf8_def drop_bit_eq_div)
  qed
qed

theorem utf8_roundtrip_witness: "decodeUtf8 (encodeUtf8 0x1F342) = (Some 0x1F342, 4)"
  using utf8_roundtrip [of "0x1F342"] by (simp add: encodeUtf8_def)

section \<open>Strings and templates\<close>

lemma isHexDigit_hexVal: "isHexDigit c \<longleftrightarrow> hexVal c \<noteq> None"
  by (auto simp: isHexDigit_def hexVal_def)

lemma hexVal_bound: "hexVal c = Some d \<Longrightarrow> d < 16 \<and> hexDigitValue c = d"
  by (auto simp: hexVal_def hexDigitValue_def isDigit_def byte_def split: if_split_asm)

lemma lax_fold:
  "hex_value v ds = Some w \<Longrightarrow>
    foldl (\<lambda>cp h. cp * 16 + of_nat (hexDigitValue h)) (of_nat v :: i32) ds = of_nat w"
proof (induction ds arbitrary: v)
  case (Cons h hs)
  then obtain d where d: "hexVal h = Some d" "hex_value (v * 16 + d) hs = Some w" by (auto split: option.splits)
  then show ?case using Cons.IH [OF d(2)] hexVal_bound [OF d(1)] by (simp add: algebra_simps)
qed simp

lemma lax_hex_value: "hex_value 0 ds = Some w \<Longrightarrow> w < 2 ^ 31 \<Longrightarrow> lax_hex ds = int w"
proof -
  assume "hex_value 0 ds = Some w" "w < 2 ^ 31"
  then have "lax_hex ds = sint (word_of_int (int w) :: i32)" using lax_fold [of 0 ds w] by (simp add: lax_hex_def)
  also have "\<dots> = int w" using \<open>w < 2 ^ 31\<close> by (intro sint_of_int_32) (simp add: fits_i32_def)
  finally show ?thesis .
qed

lemma hex_value_bound: "hex_value v ds = Some w \<Longrightarrow> w < (v + 1) * 16 ^ length ds"
proof (induction ds arbitrary: v)
  case (Cons h hs)
  then obtain d where d: "hexVal h = Some d" "hex_value (v * 16 + d) hs = Some w" by (auto split: option.splits)
  have "(v * 16 + d + 1) * 16 ^ length hs \<le> (v * 16 + 16) * 16 ^ length hs"
    using hexVal_bound [OF d(1)] by (intro mult_right_mono) auto
  also have "\<dots> = (v + 1) * 16 ^ length (h # hs)" by (simp add: algebra_simps)
  finally show ?case using Cons.IH [OF d(2)] by (rule less_le_trans [rotated])
qed simp

lemma hex_value_digits: "(hex_value v ds = None) \<longleftrightarrow> \<not> list_all isHexDigit ds"
  by (induction ds arbitrary: v) (auto simp: isHexDigit_hexVal split: option.split)

lemma brace_digits_value: "brace_digits v ds = Inr w \<Longrightarrow> v \<le> 0x10FFFF \<Longrightarrow> hex_value v ds = Some w \<and> w \<le> 0x10FFFF"
  by (induction ds arbitrary: v) (auto split: option.splits if_split_asm)

text \<open>The escapes that only strings have: \<open>\b\<close>, \<open>\f\<close>, \<open>\v\<close>, line continuations and octal
  escapes but \<open>\0\<close>.\<close>

definition string_only :: "char \<Rightarrow> string \<Rightarrow> bool" where
  "string_only c r \<longleftrightarrow> c \<in> {CHR ''b'', CHR ''f'', CHR ''v'', LF, CR} \<or> byte c = 0xE2 \<or>
     (isOctalDigit c \<and> (c \<noteq> CHR ''0'' \<or> (r \<noteq> [] \<and> isOctalDigit (hd r))))"

function shared_escapes :: "string \<Rightarrow> bool" where
  "shared_escapes [] = True"
| "shared_escapes (c # cs) =
     (if c = BACKSLASH \<and> cs \<noteq> [] then
        \<not> string_only (hd cs) (tl cs) \<and> shared_escapes (snd (template_escape (hd cs) (tl cs)))
      else shared_escapes cs)"
  by pat_completeness auto
termination
proof (relation "measure length", goal_cases)
  case (2 c cs)
  then show ?case using template_escape_length [of "hd cs" "tl cs"] by (cases cs) auto
qed auto

declare shared_escapes.simps [simp del]

lemma template_escape_u:
  "template_escape CHR ''u'' r =
     (if r \<noteq> [] \<and> hd r = CHR ''{'' then
        (encodeUtf8 (lax_hex (takeWhile (\<lambda>c. c \<noteq> CHR ''}'') (tl r))),
         tl (dropWhile (\<lambda>c. c \<noteq> CHR ''}'') (tl r)))
      else if 4 \<le> length r then
        (encodeUtf8 (int (fst (surrogate (nat (lax_hex (take 4 r))) (drop 4 r)))),
         snd (surrogate (nat (lax_hex (take 4 r))) (drop 4 r)))
      else ([], r))"
  by (simp add: template_escape_def split_beta drop_Suc)

lemma unicode_agrees:
  assumes "template_fault CHR ''u'' r = None"
  shows "unicode_escape r = Inr (template_escape CHR ''u'' r)"
proof (cases "r \<noteq> [] \<and> hd r = CHR ''{''")
  case True
  let ?ds = "takeWhile (\<lambda>c. c \<noteq> CHR ''}'') (tl r)"
  obtain cp where cp: "brace_digits 0 ?ds = Inr cp" "?ds \<noteq> []" "dropWhile (\<lambda>c. c \<noteq> CHR ''}'') (tl r) \<noteq> []"
    using assms True by (auto simp: template_fault_def Let_def split: sum.splits if_split_asm)
  then have "lax_hex ?ds = int cp" using brace_digits_value [of 0 ?ds cp] lax_hex_value [of ?ds cp] by simp
  then show ?thesis using True cp by (simp add: unicode_escape_def template_escape_u Let_def)
next
  case False
  then have l: "4 \<le> length r" "list_all isHexDigit (take 4 r)"
    using assms by (auto simp: template_fault_def not_less split: if_split_asm)
  then obtain cp where cp: "hex_value 0 (take 4 r) = Some cp" using hex_value_digits [of 0 "take 4 r"] by auto
  have "lax_hex (take 4 r) = int cp"
    using hex_value_bound [OF cp] lax_hex_value [OF cp] l(1) by simp
  then show ?thesis using False l(1) cp by (auto simp: unicode_escape_def template_escape_u split_beta)
qed

lemma unicode_fault:
  assumes "template_fault CHR ''u'' r = Some e"
  shows "\<exists>e'. unicode_escape r = Inl e'"
proof (cases "r \<noteq> [] \<and> hd r = CHR ''{''")
  case True
  then show ?thesis
    using assms by (simp add: template_fault_def unicode_escape_def Let_def split: if_split_asm sum.splits)
next
  case False
  then have "\<not> 4 \<le> length r \<or> hex_value 0 (take 4 r) = None"
    using assms hex_value_digits [of 0 "take 4 r"] by (simp add: template_fault_def not_le split: if_split_asm)
  then show ?thesis using False by (auto simp: unicode_escape_def)
qed

lemma hex_agrees:
  "template_fault CHR ''x'' r = None \<Longrightarrow> string_escape CHR ''x'' r = Inr (template_escape CHR ''x'' r)"
  "template_fault CHR ''x'' r = Some e \<Longrightarrow> string_escape CHR ''x'' r = Inl BadHexEscape"
proof -
  have o: "\<not> isOctalDigit CHR ''x''" by (simp add: isOctalDigit_def byte_def)
  consider "r = []" | a where "r = [a]" | a b t where "r = a # b # t" by (cases r rule: remdups_adj.cases) auto
  note r = this
  show "string_escape CHR ''x'' r = Inr (template_escape CHR ''x'' r)" if "template_fault CHR ''x'' r = None"
    using r by cases (use that o in \<open>auto simp: template_fault_def string_escape_def template_escape_def
      isHexDigit_hexVal hexVal_bound split: if_split_asm\<close>)
  show "string_escape CHR ''x'' r = Inl BadHexEscape" if "template_fault CHR ''x'' r = Some e"
    using r by cases (use that o in \<open>auto simp: template_fault_def string_escape_def isHexDigit_hexVal
      split: if_split_asm option.split\<close>)
qed

lemma escapes_agree:
  assumes "\<not> string_only c r"
  shows "template_fault c r = None \<Longrightarrow> string_escape c r = Inr (template_escape c r)"
    "template_fault c r = Some e \<Longrightarrow> \<exists>e'. string_escape c r = Inl e'"
proof -
  have u: "string_escape CHR ''u'' r = unicode_escape r"
    by (simp add: string_escape_def isOctalDigit_def byte_def)
  have f: "c \<noteq> CHR ''x'' \<Longrightarrow> c \<noteq> CHR ''u'' \<Longrightarrow> template_fault c r = None" by (simp add: template_fault_def)
  have o: "c = CHR ''0'' \<Longrightarrow> string_escape c r = Inr ([CHR 0x00], r)"
    using assms
    by (cases r) (auto simp: string_only_def string_escape_def isOctalDigit_def byte_def octal_more_def octal_value_def encode_small_def char_of_def)
  show "template_fault c r = None \<Longrightarrow> string_escape c r = Inr (template_escape c r)"
    using u unicode_agrees [of r] hex_agrees(1) [of r] o assms
    by (cases "c = CHR ''u''"; cases "c = CHR ''x''"; cases "c = CHR ''0''")
      (simp_all add: string_only_def string_escape_def template_escape_def)
  show "template_fault c r = Some e \<Longrightarrow> \<exists>e'. string_escape c r = Inl e'"
    using u unicode_fault [of r e] hex_agrees(2) [of r e] f by (cases "c = CHR ''u''"; cases "c = CHR ''x''") auto
qed

text \<open>C33. Strings and untagged templates read the escapes they share alike: on a text without
  the escapes that only string literals have, the two decoders give the same value or both report
  a SyntaxError.\<close>

theorem template_escapes_agree:
  assumes "shared_escapes s"
  shows "processTemplateEscapes True s = string_value s \<or>
    (\<exists>e e'. processTemplateEscapes True s = Inl e \<and> string_value s = Inl e')"
  using assms
proof (induction s rule: shared_escapes.induct)
  case (2 c cs)
  show ?case
  proof (cases "c = BACKSLASH \<and> cs \<noteq> []")
    case True
    obtain out r where t: "template_escape (hd cs) (tl cs) = (out, r)" by (cases "template_escape (hd cs) (tl cs)")
    have s: "\<not> string_only (hd cs) (tl cs)" "shared_escapes r"
      using 2(3) True t by (subst (asm) shared_escapes.simps, simp)+
    note ih = 2(1) [OF True, unfolded t snd_conv, OF s(2)]
    show ?thesis
    proof (cases "template_fault (hd cs) (tl cs)")
      case None
      then have "string_escape (hd cs) (tl cs) = Inr (out, r)" using escapes_agree(1) [OF s(1)] t by simp
      then show ?thesis using True None t ih by (auto simp: processTemplateEscapes.simps(2) string_value.simps(2) split: sum.split)
    next
      case (Some e)
      obtain e' where "string_escape (hd cs) (tl cs) = Inl e'" using escapes_agree(2) [OF s(1) Some] by blast
      then show ?thesis using True Some by (simp add: processTemplateEscapes.simps(2) string_value.simps(2))
    qed
  next
    case False
    then have "shared_escapes cs" using 2(3) by (subst (asm) shared_escapes.simps, simp)
    then show ?thesis
      using 2(2) [OF False] False
      by (auto simp: processTemplateEscapes.simps(2) string_value.simps(2) split: sum.split)
  qed
qed (simp add: processTemplateEscapes.simps string_value.simps)

theorem template_escapes_agree_witness:
  "shared_escapes [CHR ''a'', BACKSLASH, CHR ''n''] \<and>
    processTemplateEscapes True [CHR ''a'', BACKSLASH, CHR ''n''] = string_value [CHR ''a'', BACKSLASH, CHR ''n'']"
proof -
  have s: "shared_escapes [CHR ''a'', BACKSLASH, CHR ''n'']"
    by (simp add: shared_escapes.simps string_only_def isOctalDigit_def byte_def template_escape_def)
  have v: "string_value [CHR ''a'', BACKSLASH, CHR ''n''] = Inr [CHR ''a'', LF]"
    by (simp add: string_value.simps string_escape_def)
  show ?thesis using template_escapes_agree [OF s] s v by auto
qed

text \<open>Where they differ: in a template \<open>\b\<close>, \<open>\f\<close> and \<open>\v\<close> are the letter and a backslash
  before a line terminator keeps the terminator.\<close>

lemma template_escapes_lost:
  "processTemplateEscapes v [BACKSLASH, CHR ''b''] = Inr ''b''" "string_value [BACKSLASH, CHR ''b''] = Inr [CHR 0x08]"
  "processTemplateEscapes v [BACKSLASH, LF] = Inr [LF]" "string_value [BACKSLASH, LF] = Inr []"
  by (simp_all add: processTemplateEscapes.simps template_fault_def template_escape_def string_value.simps string_escape_def)

text \<open>Identifiers beyond the basic plane: the decoded name of \<open>\u{1D400}\<close> is not the UTF-8 of
  U+1D400; and a code point of more than 32 bits wraps around.\<close>

lemma identifier_escape_truncated: "encodeUtf8_bmp 0x1D400 \<noteq> encodeUtf8 0x1D400"
  by (simp add: encodeUtf8_bmp_def encodeUtf8_def)

lemma identifier_escape_wraps: "raw_hex ''100000041'' = 0x41"
  by (simp add: raw_hex_def raw_digit_def isDigit_def schar_def byte_def)

section \<open>Line continuations\<close>

text \<open>C39. A line continuation with CR LF takes one more line feed with it: after a backslash,
  \<open>advance\<close> passes CR LF as one, and the test for the LF of that pair then looks at the character
  after it, so that an unescaped line feed inside a string literal is accepted there.\<close>

theorem continuation_takes_two_lines:
  assumes "peek E s = BACKSLASH" and "peekAt E s 1 = CR" and "peekAt E s 2 = LF" and "peekAt E s 3 = LF"
  shows "\<exists>t. string_step E s = Inr t \<and> pos t = pos s + 4 \<and> line t = line s + 2"
proof -
  have len: "pos s + 3 < length (source E)" using assms(4) by (simp add: peekAt_def split: if_split_asm)
  then have c: "source E ! pos s = BACKSLASH" "source E ! Suc (pos s) = CR" "source E ! Suc (Suc (pos s)) = LF"
    "source E ! Suc (Suc (Suc (pos s))) = LF"
    using assms by (simp_all add: peek_def peekAt_def numeral_2_eq_2 numeral_3_eq_3)
  show ?thesis
    using len c by (simp add: string_step_def Let_def peek_def peekAt_def advance_def isAtEnd_def)
qed

definition two_line_input :: lex_input where
  "two_line_input = \<lparr>source = [CHR 0x22, BACKSLASH, CR, LF, LF, CHR 0x22], moduleGoal = True, u_isIDStart = \<lambda>_. False,
     u_isIDPart = \<lambda>_. False, u_isUWhiteSpace = \<lambda>_. False, validateRegExpLiteral = \<lambda>_ _. None\<rparr>"

theorem continuation_takes_two_lines_witness:
  "\<exists>t. string_step two_line_input (advance two_line_input new_lexer) = Inr t \<and> pos t = 5 \<and> line t = 3"
proof -
  let ?s = "advance two_line_input new_lexer"
  have s: "?s = new_lexer\<lparr>pos := 1, column := 2\<rparr>" by (simp add: advance_def two_line_input_def new_lexer_def)
  have "peek two_line_input ?s = BACKSLASH" "peekAt two_line_input ?s 1 = CR" "peekAt two_line_input ?s 2 = LF"
    "peekAt two_line_input ?s 3 = LF"
    by (simp_all add: s, simp_all add: peek_def peekAt_def new_lexer_def two_line_input_def)
  from continuation_takes_two_lines [OF this] show ?thesis unfolding s by (simp add: new_lexer_def numeral_3_eq_3)
qed

section \<open>Keywords\<close>

lemma keyword_texts_distinct: "distinct (map fst keyword_table)"
  unfolding keyword_table_def list.map fst_conv by simp

lemma keyword_names: "take 67 (drop 9 token_names) = map prod.swap keyword_table"
  by (simp add: token_names_def keyword_table_def)

lemma token_kinds_distinct: "distinct (map fst token_names)"
proof -
  have "distinct (map kind_index (map fst token_names))" by (simp add: token_names_def)
  then show ?thesis by (simp only: distinct_map)
qed

lemma keyword_named: "(s, k) \<in> set keyword_table \<Longrightarrow> identifierToKeyword s = k \<and> tokenKindToString k = s"
proof -
  assume m: "(s, k) \<in> set keyword_table"
  have "map_of keyword_table s = Some k" using keyword_texts_distinct m by simp
  moreover have "(k, s) \<in> set (take 67 (drop 9 token_names))" using m unfolding keyword_names by force
  then have "(k, s) \<in> set token_names" by (meson in_set_dropD in_set_takeD)
  then have "map_of token_names k = Some s" using token_kinds_distinct by simp
  ultimately show ?thesis by (simp add: identifierToKeyword_def tokenKindToString_def)
qed

text \<open>The keyword kinds are the kinds of the table, and their names are the texts they are
  recognised by.\<close>

lemma keyword_roundtrip: "identifierToKeyword s = k \<Longrightarrow> k \<noteq> Identifier \<Longrightarrow> tokenKindToString k = s"
  using keyword_named by (auto simp: identifierToKeyword_def dest!: map_of_SomeD split: option.splits)

end
