(* ===== verification/Spec2Isabelle.thy ===== *)
theory Spec2Isabelle
  imports MiddleEnd Specialization IntegerOptCorrect TypePropagation EscapeAnalysisCorrect BuiltinPasses
    InliningSim MapSet LexerSpec EscapeSpec
begin

text \<open>
  A verification development for ts-aot, an ahead-of-time compiler from TypeScript and
  JavaScript to native code (C++, under \<open>src/src/\<close>).

  The compiler scans and parses a program, analyses it, builds a high-level IR (HIR,
  \<open>compiler/hir/HIR.h\<close>), runs a fixed list of passes over the module
  (\<open>compiler/hir/passes/\<close>, in the order of \<open>compiler/Driver.cpp\<close>: type propagation,
  specialization, integer optimization, constant folding, dead code elimination, inlining, escape
  analysis, method resolution, builtin resolution), and emits LLVM for the result
  (\<open>compiler/hir/HIRToLLVM*.cpp\<close>). The runtime (\<open>runtime/\<close>) represents every dynamic value
  as a 64-bit NaN-boxed word and keeps maps, sets and object properties in one hash table. The
  development models the scanner, the HIR with all nine passes, what the emitted code computes
  for the arithmetic, comparison, boolean and conversion opcodes, the NaN boxing, and the maps and
  sets of the runtime.

  \<^bold>\<open>Foundations.\<close>
  \<^item> \<open>Prelude\<close>: machine words, ECMA-262 ToInt32 and ToUint32, walks over lists that carry a
    state and rewrite the elements.
  \<^item> \<open>Float64\<close>, \<open>FloatOrder\<close>: IEEE 754 doubles as bit patterns; arithmetic, comparison
    and conversions are computed exactly on integers and rounded once, to nearest even.

  \<^bold>\<open>The intermediate representation and its executions.\<close>
  \<^item> \<open>HirOpcode\<close>, \<open>HIR\<close>: types, values, instructions, blocks, functions and modules of
    \<open>HIR.h\<close> and \<open>HIR.cpp\<close>, and the pass framework of \<open>HIRPass.h\<close>, \<open>HIRPass.cpp\<close>
    and \<open>PassManager.cpp\<close>. Shared pointers are addresses: a value is a \<open>vref\<close> into the
    store \<open>hstore\<close>, which holds its id, name and type, so that setting a type through one
    instruction is seen by all; instructions and blocks carry their addresses.
  \<^item> \<open>PassContract\<close>: the locale \<open>honest_pass\<close> (a pass returns without an error, reports
    what it changes, keeps the name of the function), interpreted for every pass over functions
    that always returns. \<open>InstMap\<close>: passes that rewrite each instruction on its own.
  \<^item> \<open>Lowering\<close>: what \<open>HIRToLLVM_Instructions.cpp\<close> makes an opcode compute.
    \<open>Execution\<close>: the values an instruction can compute and the environments a function can
    reach, with control flow over-approximated. \<open>ControlFlow\<close>: runs along the control flow,
    with events for all that is visible outside; the locale \<open>transformation\<close> for changes of a
    function that keep its runs.
  \<^item> \<open>Worklist\<close>: the search with a worklist that dead code elimination and inlining use.

  \<^bold>\<open>The passes\<close> (each theory is named after the source file in \<open>compiler/hir/passes/\<close>).
  \<^item> \<open>TypePropagation\<close> (\<open>TypePropagationPass.cpp\<close>): computed values get the type of their
    machine representation. The loop runs at most 100 sweeps, as in the source.
  \<^item> \<open>Specialization\<close> (\<open>SpecializationPass.cpp\<close>): generic opcodes become typed ones that
    compute the same on numbers.
  \<^item> \<open>IntegerOpt\<close>, \<open>IntegerOptCorrect\<close> (\<open>IntegerOptimizationPass.cpp\<close>): the range
    analysis is sound for every execution, and converted literals read the same.
  \<^item> \<open>ConstFold\<close> (\<open>ConstantFoldingPass.cpp\<close>), \<open>DeadCode\<close>
    (\<open>DeadCodeEliminationPass.cpp\<close>), \<open>MiddleEnd\<close>: folded constants agree with the lowered
    instructions; dead code elimination keeps every run, and so do both passes together, by three
    interpretations of \<open>transformation\<close>.
  \<^item> \<open>Inlining\<close>, \<open>InliningCorrect\<close>, \<open>InliningSim\<close> (\<open>InliningPass.cpp\<close>): the search for
    recursive functions is exact, and a block with an inlined call computes what it computed
    before. The pass runs at most 10 rounds, as in the source; where the code dereferences a null
    value the result is \<open>None\<close>.
  \<^item> \<open>EscapeAnalysis\<close>, \<open>EscapeAnalysisCorrect\<close> (\<open>EscapeAnalysisPass.cpp\<close>): the flags are
    exactly those the flow of values dictates. The recursion of \<open>useEscapes\<close> gets the number
    of instructions plus one as fuel: without a circle of copies, a chain of copies never is
    longer; with one, the code does not return, and the result is \<open>None\<close>.
  \<^item> \<open>BuiltinRegistry\<close> (\<open>compiler/hir/BuiltinRegistry.cpp\<close>) and \<open>BuiltinPasses\<close>
    (\<open>MethodResolutionPass.cpp\<close>, \<open>BuiltinResolutionPass.cpp\<close>): the tables entry by entry;
    calls of runtime functions get the number of arguments registered for them, and builtin
    resolution leaves nothing to resolve.

  \<^bold>\<open>The runtime.\<close>
  \<^item> \<open>NanBox\<close>: \<open>runtime/include/TsNanBox.h\<close>. \<open>TaggedValue\<close>: the value struct of maps and
    sets with its hash and equality, and the canonical keys of \<open>TsMap.cpp\<close> and \<open>TsSet.cpp\<close>;
    the locale \<open>hash_keys\<close> states what the table needs of keys.
  \<^item> \<open>HashTable\<close> (\<open>runtime/include/TsHashTable.h\<close>), \<open>HashTableSlots\<close> (invariant of the
    probe sequences), \<open>HashTableRefine\<close> (abstraction to an insertion-ordered list),
    \<open>HashTableCorrect\<close> (every sequence of operations refines the list; the locale
    \<open>ordered_store\<close>). The results hold up to 2^27 entries in 2^28 slots, the size beyond which
    \<open>looks_valid\<close> rejects a table.
  \<^item> \<open>MapSet\<close> (\<open>TsMap.cpp\<close>, \<open>TsSet.cpp\<close>, prototype cycle check of \<open>TsObject\<close>): Map and
    Set with their frozen, sealed and closed states, iteration with callbacks that change the
    container (with fuel, and how much of it is enough for callbacks that add nothing), and
    prototype chains.

  \<^bold>\<open>The scanner\<close> (\<open>compiler/parser/Lexer.h\<close>, \<open>Lexer.cpp\<close>).
  \<^item> \<open>TokenKind\<close>, \<open>Lexer\<close>, \<open>LexerText\<close>: kinds, the scanner with its state and errors, and
    the decoding of string and template texts.
  \<^item> \<open>LexerCorrect\<close>: the tokens partition the file and every call ends (locale
    \<open>token_source\<close>, the contract with the parser); \<open>LexerSpec\<close>: punctuation is the longest
    match; \<open>EscapeSpec\<close>: keywords, UTF-8 and escapes. Sources are shorter than 2 GB, the range
    of the \<open>int\<close> positions.

  \<^bold>\<open>Parameters.\<close> The character classes of ICU and \<open>validateRegExpLiteral\<close>, which compiles a
  pattern with ICU, are fields of \<open>lex_input\<close>; the runtime's conversions of boxed words and the
  strings of its heap are fields of the record \<open>runtime\<close>; the heap that hash and equality of keys
  read is an argument.

  \<^bold>\<open>Not modelled.\<close> The parser and the syntax tree, the type analysis and monomorphization, the
  construction of HIR from the tree, the lowerings of calls, closures and memory (executions leave
  open what these instructions deliver), the code generator and linker, and the rest of the runtime
  (objects, arrays, strings, promises, collector, event loop, regular expressions, Temporal, Node.js
  extensions), which rest on LLVM, ICU, libuv and on each other.

  Where the code departs from what it means to do, a lemma next to the model says how: folded
  bitwise operators keep 64 bits (\<open>ConstFold\<close>), division and negation of integers lose
  fractions and the sign of zero (\<open>Specialization\<close>, \<open>IntegerOptCorrect\<close>), results that carry
  an object are not all followed (\<open>EscapeAnalysisCorrect\<close>), the result of a call of a procedure
  dangles (\<open>InliningSim\<close>), properties are called like methods (\<open>BuiltinPasses\<close>),
  \<open>Map.forEach\<close> visits deleted entries (\<open>MapSet\<close>), and line continuations and template escapes
  differ from ECMA-262 (\<open>EscapeSpec\<close>).
\<close>

end
